(* ===== verification/Siphon_Prelude.thy ===== *)
theory Siphon_Prelude
  imports Main "HOL-Library.Word" "HOL-Library.Code_Target_Nat"
begin

text \<open>
  The shared base of the library: text as the Rust code handles it, unsigned decimal
  numbers, and the generic facts about lists and options that the component theories use.

  A Rust \<^verbatim>\<open>str\<close>, \<^verbatim>\<open>String\<close>, \<^verbatim>\<open>Vec<u8>\<close> or \<^verbatim>\<open>Bytes\<close> is a \<^typ>\<open>string\<close>: a list of octets,
  so lengths and offsets are the octet counts the code works with.  The functions here
  are the parts of Rust's standard library that the modelled code calls.  Where the
  library consults the Unicode tables (\<^verbatim>\<open>trim\<close>, \<^verbatim>\<open>to_lowercase\<close>, \<^verbatim>\<open>to_uppercase\<close>,
  \<^verbatim>\<open>char::is_alphanumeric\<close>) the definitions give its behaviour on ASCII, the alphabet of the
  SIP grammar, and leave the octets of other scalar values alone.
\<close>

named_theorems str_simps \<open>definitions of the string operations, for evaluation\<close>

type_synonym bytes = string

subsection \<open>Characters\<close>

abbreviation CR :: char where "CR \<equiv> CHR 0x0D"
abbreviation LF :: char where "LF \<equiv> CHR 0x0A"
abbreviation HT :: char where "HT \<equiv> CHR 0x09"
abbreviation SP :: char where "SP \<equiv> CHR 0x20"
abbreviation DQ :: char where "DQ \<equiv> CHR 0x22"
abbreviation BSL :: char where "BSL \<equiv> CHR 0x5C"

definition crlf :: string where
  "crlf = [CR, LF]"

definition in_range :: "nat \<Rightarrow> nat \<Rightarrow> char \<Rightarrow> bool" where
  [str_simps]: "in_range lo hi c \<longleftrightarrow> lo \<le> of_char c \<and> of_char c \<le> hi"

definition is_digit :: "char \<Rightarrow> bool" where
  [str_simps]: "is_digit c = in_range 48 57 c"

definition is_upper :: "char \<Rightarrow> bool" where
  [str_simps]: "is_upper c = in_range 65 90 c"

definition is_lower :: "char \<Rightarrow> bool" where
  [str_simps]: "is_lower c = in_range 97 122 c"

definition is_alpha :: "char \<Rightarrow> bool" where
  [str_simps]: "is_alpha c \<longleftrightarrow> is_upper c \<or> is_lower c"

definition is_alnum :: "char \<Rightarrow> bool" where
  [str_simps]: "is_alnum c \<longleftrightarrow> is_alpha c \<or> is_digit c"

text \<open>\<^verbatim>\<open>u8::is_ascii_hexdigit\<close>.\<close>

definition is_hex :: "char \<Rightarrow> bool" where
  [str_simps]: "is_hex c \<longleftrightarrow> is_digit c \<or> in_range 65 70 c \<or> in_range 97 102 c"

text \<open>
  \<^verbatim>\<open>char::is_whitespace\<close> (what \<^verbatim>\<open>trim\<close> and \<^verbatim>\<open>split_whitespace\<close> use) counts the vertical
  tab, \<^verbatim>\<open>char::is_ascii_whitespace\<close> does not.
\<close>

definition is_ws :: "char \<Rightarrow> bool" where
  [str_simps]: "is_ws c \<longleftrightarrow> in_range 9 13 c \<or> c = SP"

definition is_ascii_ws :: "char \<Rightarrow> bool" where
  [str_simps]: "is_ascii_ws c \<longleftrightarrow> c = SP \<or> c = HT \<or> c = LF \<or> c = CHR 0x0C \<or> c = CR"

definition lower_char :: "char \<Rightarrow> char" where
  [str_simps]: "lower_char c = (if is_upper c then char_of (of_char c + 32 :: nat) else c)"

definition upper_char :: "char \<Rightarrow> char" where
  [str_simps]: "upper_char c = (if is_lower c then char_of (of_char c - 32 :: nat) else c)"

abbreviation to_lower :: "string \<Rightarrow> string" where
  "to_lower \<equiv> map lower_char"

abbreviation to_upper :: "string \<Rightarrow> string" where
  "to_upper \<equiv> map upper_char"

lemma lower_char_idem [simp]: "lower_char (lower_char c) = lower_char c"
  by (auto simp: lower_char_def is_upper_def in_range_def)

lemma to_lower_idem [simp]: "to_lower (to_lower s) = to_lower s"
  by (induction s) auto

lemma is_digit_not_ws: "is_digit c \<Longrightarrow> \<not> is_ws c"
  by (auto simp: is_digit_def is_ws_def in_range_def)

subsection \<open>Trimming and prefixes\<close>

definition trim_start :: "string \<Rightarrow> string" where
  [str_simps]: "trim_start s = dropWhile is_ws s"

definition trim_end :: "string \<Rightarrow> string" where
  [str_simps]: "trim_end s = rev (dropWhile is_ws (rev s))"

definition trim :: "string \<Rightarrow> string" where
  [str_simps]: "trim s = trim_end (trim_start s)"

text \<open>\<^verbatim>\<open>str::trim_ascii\<close>.\<close>

definition trim_ascii :: "string \<Rightarrow> string" where
  [str_simps]: "trim_ascii s = rev (dropWhile is_ascii_ws (rev (dropWhile is_ascii_ws s)))"

fun strip_prefix :: "string \<Rightarrow> string \<Rightarrow> string option" where
  "strip_prefix [] s = Some s"
| "strip_prefix (p # ps) [] = None"
| "strip_prefix (p # ps) (c # s) = (if p = c then strip_prefix ps s else None)"

definition starts_with :: "string \<Rightarrow> string \<Rightarrow> bool" where
  [str_simps]: "starts_with p s \<longleftrightarrow> strip_prefix p s \<noteq> None"

definition strip_suffix :: "string \<Rightarrow> string \<Rightarrow> string option" where
  [str_simps]: "strip_suffix p s = map_option rev (strip_prefix (rev p) (rev s))"

lemma strip_prefix_append [simp]: "strip_prefix p (p @ s) = Some s"
  by (induction p) auto

lemma strip_prefix_Some_iff: "strip_prefix p s = Some r \<longleftrightarrow> s = p @ r"
  by (induction p s rule: strip_prefix.induct) auto

lemma starts_with_iff: "starts_with p s \<longleftrightarrow> (\<exists>r. s = p @ r)"
  by (auto simp: starts_with_def strip_prefix_Some_iff)

lemma strip_suffix_Some_iff: "strip_suffix p s = Some r \<longleftrightarrow> s = r @ p"
proof -
  have "strip_suffix p s = Some r \<longleftrightarrow> rev s = rev p @ rev r"
    by (force simp: strip_suffix_def strip_prefix_Some_iff)
  also have "\<dots> \<longleftrightarrow> s = r @ p"
    by (metis rev_append rev_is_rev_conv)
  finally show ?thesis .
qed

text \<open>
  A text is trimmed when neither end is white space; trimming makes it so and leaves
  such a text alone.
\<close>

definition trimmed :: "string \<Rightarrow> bool" where
  "trimmed s \<longleftrightarrow> s = [] \<or> (\<not> is_ws (hd s) \<and> \<not> is_ws (last s))"

lemma dropWhile_hd: "dropWhile P s \<noteq> [] \<Longrightarrow> \<not> P (hd (dropWhile P s))"
  by (induction s) auto

lemma trim_start_id: "s = [] \<or> \<not> is_ws (hd s) \<Longrightarrow> trim_start s = s"
  by (cases s) (auto simp: trim_start_def)

lemma trim_end_id: "s = [] \<or> \<not> is_ws (last s) \<Longrightarrow> trim_end s = s"
  by (cases s rule: rev_cases) (auto simp: trim_end_def)

lemma trim_id: "trimmed s \<Longrightarrow> trim s = s"
  by (auto simp: trim_def trimmed_def trim_start_id trim_end_id)

lemma trim_end_prefix: "\<exists>t. s = trim_end s @ t"
proof
  show "s = trim_end s @ rev (takeWhile is_ws (rev s))"
    unfolding trim_end_def by (metis rev_append rev_rev_ident takeWhile_dropWhile_id)
qed

lemma trimmed_trim [simp]: "trimmed (trim s)"
proof -
  let ?a = "trim_start s" and ?b = "trim_end (trim_start s)"
  have start: "?a \<noteq> [] \<Longrightarrow> \<not> is_ws (hd ?a)"
    by (simp add: trim_start_def dropWhile_hd)
  have last: "?b \<noteq> [] \<Longrightarrow> \<not> is_ws (last ?b)"
    unfolding trim_end_def by (metis dropWhile_hd hd_rev rev_is_Nil_conv rev_rev_ident)
  obtain t where t: "?a = ?b @ t" using trim_end_prefix by blast
  have "?b \<noteq> [] \<Longrightarrow> \<not> is_ws (hd ?b)"
    using start t by (metis append_is_Nil_conv hd_append2)
  then show ?thesis using last by (auto simp: trim_def trimmed_def)
qed

lemma trim_idem [simp]: "trim (trim s) = trim s"
  by (simp add: trim_id)

lemma set_trim: "set (trim s) \<subseteq> set s"
  by (force simp: trim_def trim_end_def trim_start_def dest: set_dropWhileD)

subsection \<open>Splitting\<close>

definition split_once_by :: "(char \<Rightarrow> bool) \<Rightarrow> string \<Rightarrow> (string \<times> string) option" where
  [str_simps]: "split_once_by p s =
     (case dropWhile (\<lambda>c. \<not> p c) s of
        [] \<Rightarrow> None
      | _ # r \<Rightarrow> Some (takeWhile (\<lambda>c. \<not> p c) s, r))"

abbreviation split_once :: "char \<Rightarrow> string \<Rightarrow> (string \<times> string) option" where
  "split_once d \<equiv> split_once_by (\<lambda>c. c = d)"

definition rsplit_once :: "char \<Rightarrow> string \<Rightarrow> (string \<times> string) option" where
  [str_simps]: "rsplit_once d s =
     map_option (\<lambda>(a, b). (rev b, rev a)) (split_once d (rev s))"

fun split_on :: "char \<Rightarrow> string \<Rightarrow> string list" where
  "split_on d [] = [[]]"
| "split_on d (c # s) =
     (if c = d then [] # split_on d s
      else (case split_on d s of [] \<Rightarrow> [[c]] | x # xs \<Rightarrow> (c # x) # xs))"

fun join :: "string \<Rightarrow> string list \<Rightarrow> string" where
  "join sep [] = []"
| "join sep [x] = x"
| "join sep (x # y # ys) = x @ sep @ join sep (y # ys)"

text \<open>\<^verbatim>\<open>s.split_whitespace().next()\<close>.\<close>

definition first_word :: "string \<Rightarrow> string option" where
  [str_simps]: "first_word s =
     (case trim_start s of [] \<Rightarrow> None | t \<Rightarrow> Some (takeWhile (\<lambda>c. \<not> is_ws c) t))"

lemma split_once_by_Some:
  "split_once_by p s = Some (a, b) \<longleftrightarrow> (\<exists>d. s = a @ d # b \<and> p d \<and> (\<forall>c \<in> set a. \<not> p c))"
proof
  assume "split_once_by p s = Some (a, b)"
  then obtain d where d: "dropWhile (\<lambda>c. \<not> p c) s = d # b" and a: "a = takeWhile (\<lambda>c. \<not> p c) s"
    by (auto simp: split_once_by_def split: list.splits)
  have "p d" using d dropWhile_hd [of "\<lambda>c. \<not> p c" s] by simp
  moreover have "s = a @ d # b" using a d by (metis takeWhile_dropWhile_id)
  moreover have "\<forall>c \<in> set a. \<not> p c" using a by (auto dest: set_takeWhileD)
  ultimately show "\<exists>d. s = a @ d # b \<and> p d \<and> (\<forall>c \<in> set a. \<not> p c)" by blast
next
  assume "\<exists>d. s = a @ d # b \<and> p d \<and> (\<forall>c \<in> set a. \<not> p c)"
  then show "split_once_by p s = Some (a, b)"
    by (auto simp: split_once_by_def takeWhile_append dropWhile_append)
qed

lemma split_once_by_None: "split_once_by p s = None \<longleftrightarrow> (\<forall>c \<in> set s. \<not> p c)"
proof
  assume none: "split_once_by p s = None"
  show "\<forall>c \<in> set s. \<not> p c"
  proof (rule ccontr)
    assume "\<not> (\<forall>c \<in> set s. \<not> p c)"
    then obtain a d b where "s = a @ d # b" "p d" "\<forall>c \<in> set a. \<not> p c"
      using split_list_first_prop [of s p] by blast
    then have "split_once_by p s = Some (a, b)" unfolding split_once_by_Some by blast
    with none show False by simp
  qed
next
  assume "\<forall>c \<in> set s. \<not> p c"
  then show "split_once_by p s = None"
    by (cases "split_once_by p s") (auto simp: split_once_by_Some)
qed

lemma split_on_not_Nil [simp]: "split_on d s \<noteq> []"
  by (induction s) (auto split: list.splits)

lemma split_on_no_sep: "d \<notin> set s \<Longrightarrow> split_on d s = [s]"
  by (induction s) auto

lemma split_on_append: "d \<notin> set a \<Longrightarrow> split_on d (a @ d # b) = a # split_on d b"
  by (induction a) auto

lemma split_on_pieces: "x \<in> set (split_on d s) \<Longrightarrow> d \<notin> set x"
  by (induction s arbitrary: x) (auto split: list.splits if_splits)

subsection \<open>Decimal numbers\<close>

definition digit_char :: "nat \<Rightarrow> char" where
  [str_simps]: "digit_char n = char_of (48 + n)"

fun show_nat :: "nat \<Rightarrow> string" where
  "show_nat n = (if n < 10 then [digit_char n] else show_nat (n div 10) @ [digit_char (n mod 10)])"

declare show_nat.simps [simp del]

definition digits_val :: "string \<Rightarrow> nat" where
  [str_simps]: "digits_val s = foldl (\<lambda>acc c. 10 * acc + (of_char c - 48)) 0 s"

text \<open>
  \<^verbatim>\<open>str::parse\<close> at an unsigned type whose largest value is \<open>m\<close>: an optional plus sign,
  then one or more digits, refused when the value does not fit.
\<close>

definition parse_uint :: "nat \<Rightarrow> string \<Rightarrow> nat option" where
  [str_simps]: "parse_uint m s =
     (let ds = (case s of c # r \<Rightarrow> if c = CHR ''+'' \<and> r \<noteq> [] then r else s | [] \<Rightarrow> [])
      in if ds \<noteq> [] \<and> list_all is_digit ds \<and> digits_val ds \<le> m then Some (digits_val ds) else None)"

abbreviation u8_max :: nat where "u8_max \<equiv> 255"
abbreviation u16_max :: nat where "u16_max \<equiv> 65535"
abbreviation u32_max :: nat where "u32_max \<equiv> 4294967295"
abbreviation u64_max :: nat where "u64_max \<equiv> 18446744073709551615"

lemma of_digit_char: "n < 10 \<Longrightarrow> of_char (digit_char n) = 48 + n"
  by (simp add: digit_char_def)

lemma is_digit_digit_char: "n < 10 \<Longrightarrow> is_digit (digit_char n)"
  by (simp add: is_digit_def in_range_def of_digit_char)

lemma show_nat_not_Nil [simp]: "show_nat n \<noteq> []"
  by (subst show_nat.simps) simp

lemma show_nat_digits: "list_all is_digit (show_nat n)"
proof (induction n rule: show_nat.induct)
  case (1 n)
  then show ?case by (subst show_nat.simps) (auto simp: is_digit_digit_char)
qed

lemma digits_val_show_nat [simp]: "digits_val (show_nat n) = n"
proof (induction n rule: show_nat.induct)
  case (1 n)
  show ?case
  proof (cases "n < 10")
    case True
    then show ?thesis by (subst show_nat.simps) (simp add: digits_val_def of_digit_char)
  next
    case False
    then have "digits_val (show_nat n) = 10 * digits_val (show_nat (n div 10)) + n mod 10"
      by (subst show_nat.simps) (simp add: digits_val_def of_digit_char)
    with 1 [OF False] show ?thesis by simp
  qed
qed

lemma show_nat_hd: "hd (show_nat n) \<noteq> CHR ''+''"
proof
  assume "hd (show_nat n) = CHR ''+''"
  moreover have "is_digit (hd (show_nat n))"
    using show_nat_digits [of n] by (cases "show_nat n") auto
  ultimately show False by (simp add: is_digit_def in_range_def)
qed

lemma parse_uint_show_nat: "parse_uint m (show_nat n) = (if n \<le> m then Some n else None)"
  using show_nat_hd [of n] show_nat_digits [of n] digits_val_show_nat [of n]
  by (cases "show_nat n") (auto simp: parse_uint_def Let_def)

lemma parse_uint_bound: "parse_uint m s = Some n \<Longrightarrow> n \<le> m"
  by (auto simp: parse_uint_def Let_def split: if_splits)

lemma digits_no_ws: "list_all is_digit s \<Longrightarrow> c \<in> set s \<Longrightarrow> \<not> is_ws c"
  by (auto simp: list_all_iff is_digit_not_ws)

lemma trimmed_show_nat [simp]: "trimmed (show_nat n)"
  using digits_no_ws [OF show_nat_digits [of n]] by (simp add: trimmed_def)

subsection \<open>Iterators\<close>

text \<open>\<^verbatim>\<open>Iterator::max_by_key\<close> (the last of several greatest elements) and \<^verbatim>\<open>Iterator::position\<close>.\<close>

definition max_by_key :: "('a \<Rightarrow> 'k::linorder) \<Rightarrow> 'a list \<Rightarrow> 'a option" where
  "max_by_key f xs =
     (case xs of [] \<Rightarrow> None | x # ys \<Rightarrow> Some (foldl (\<lambda>b y. if f b \<le> f y then y else b) x ys))"

fun position_of :: "('a \<Rightarrow> bool) \<Rightarrow> 'a list \<Rightarrow> nat option" where
  "position_of P [] = None"
| "position_of P (x # xs) = (if P x then Some 0 else map_option Suc (position_of P xs))"

lemma max_by_key_fold:
  fixes f :: "'a \<Rightarrow> 'k::linorder"
  shows "foldl (\<lambda>b y. if f b \<le> f y then y else b) x ys \<in> set (x # ys)
   \<and> (\<forall>y \<in> set (x # ys). f y \<le> f (foldl (\<lambda>b y. if f b \<le> f y then y else b) x ys))"
proof (induction ys arbitrary: x)
  case (Cons z zs)
  show ?case
  proof (cases "f x \<le> f z")
    case True
    with Cons.IH [of z] show ?thesis by (simp add: order_trans [OF True])
  next
    case False
    then have le: "f z \<le> f x" by simp
    from Cons.IH [of x] False show ?thesis by (auto intro: order_trans [OF le])
  qed
qed simp

lemma max_by_key_Some:
  assumes "max_by_key f xs = Some x"
  shows "x \<in> set xs" and "y \<in> set xs \<Longrightarrow> f y \<le> f x"
proof -
  obtain z zs where xs: "xs = z # zs" using assms by (cases xs) (simp_all add: max_by_key_def)
  then have "x = foldl (\<lambda>b y. if f b \<le> f y then y else b) z zs" using assms by (simp add: max_by_key_def)
  with max_by_key_fold [of f z zs] xs show "x \<in> set xs" and "y \<in> set xs \<Longrightarrow> f y \<le> f x" by auto
qed

lemma max_by_key_None [simp]: "max_by_key f xs = None \<longleftrightarrow> xs = []"
  by (cases xs) (simp_all add: max_by_key_def)

lemma position_of_Some:
  "position_of P xs = Some i \<longleftrightarrow> i < length xs \<and> P (xs ! i) \<and> (\<forall>j < i. \<not> P (xs ! j))"
proof (induction xs arbitrary: i)
  case (Cons x xs)
  then show ?case by (cases i) (auto simp: less_Suc_eq_0_disj)
qed simp

lemma position_of_None: "position_of P xs = None \<longleftrightarrow> (\<forall>x \<in> set xs. \<not> P x)"
  by (induction xs) auto

subsection \<open>Keyed stores\<close>

text \<open>
  The contract of the concurrent maps of the source (\<^verbatim>\<open>DashMap\<close>): one value per key, an insert
  replaces, a removal forgets, and the size is the number of keys.
\<close>

locale keyed_store =
  fixes get :: "'s \<Rightarrow> 'k \<Rightarrow> 'v option"
    and put :: "'k \<Rightarrow> 'v \<Rightarrow> 's \<Rightarrow> 's"
    and del :: "'k \<Rightarrow> 's \<Rightarrow> 's"
    and wf :: "'s \<Rightarrow> bool"
    and count :: "'s \<Rightarrow> nat"
  assumes get_put: "get (put k v s) = (get s)(k \<mapsto> v)"
    and get_del: "get (del k s) = (get s)(k := None)"
    and wf_put: "wf s \<Longrightarrow> wf (put k v s)"
    and wf_del: "wf s \<Longrightarrow> wf (del k s)"
    and count: "wf s \<Longrightarrow> finite (dom (get s)) \<and> count s = card (dom (get s))"
begin

lemma count_put: "wf s \<Longrightarrow> count (put k v s) = (if get s k = None then Suc (count s) else count s)"
  using count [of s] count [OF wf_put, of s k v] by (simp add: get_put card_insert_if domIff)

lemma count_del: "wf s \<Longrightarrow> count (del k s) = (if get s k = None then count s else count s - 1)"
  using count [of s] count [OF wf_del, of s k] by (auto simp: get_del card_Diff_singleton_if domIff)

lemma put_del: "get s k = None \<Longrightarrow> get (del k (put k v s)) = get s"
  by (auto simp: get_put get_del)

end

lemma alist_count:
  "distinct (map fst s) \<Longrightarrow> finite (dom (map_of s)) \<and> length s = card (dom (map_of s))"
  using distinct_card [of "map fst s"] by (simp add: finite_dom_map_of dom_map_of_conv_image_fst)

end
