(* ===== verification/Sip_Headers.thy ===== *)
theory Sip_Headers
  imports Siphon_Prelude "HOL-Library.Multiset"
begin

text \<open>
  The header container of \<^verbatim>\<open>src/src/sip/headers/mod.rs\<close>: canonical header names, the
  insertion-ordered map of header rows with its operations, and the serialisation of the
  header block in canonical wire order.

  The copy-on-write \<^verbatim>\<open>Arc<HeadersInner>\<close> of the source is a value here; the
  \<^verbatim>\<open>IndexMap<String, (String, Vec<String>)>\<close> inside it is an association list in insertion
  order: canonical key, name as written, values.  The locale \<open>header_store\<close> states what the
  rest of the library relies on; the container is shown to satisfy it.
\<close>

type_synonym header_entry = "string \<times> string \<times> string list"
type_synonym sip_headers = "header_entry list"

subsection \<open>Header names\<close>

definition compact_forms :: "(char \<times> string) list" where
  "compact_forms =
     [(CHR ''a'', ''accept-contact''),
      (CHR ''b'', ''referred-by''),
      (CHR ''c'', ''content-type''),
      (CHR ''d'', ''request-disposition''),
      (CHR ''e'', ''content-encoding''),
      (CHR ''f'', ''from''),
      (CHR ''i'', ''call-id''),
      (CHR ''j'', ''reject-contact''),
      (CHR ''k'', ''supported''),
      (CHR ''l'', ''content-length''),
      (CHR ''m'', ''contact''),
      (CHR ''o'', ''event''),
      (CHR ''r'', ''refer-to''),
      (CHR ''s'', ''subject''),
      (CHR ''t'', ''to''),
      (CHR ''u'', ''allow-events''),
      (CHR ''v'', ''via''),
      (CHR ''x'', ''session-expires''),
      (CHR ''y'', ''identity'')]"

definition compact_form :: "char \<Rightarrow> string option" where
  "compact_form = map_of compact_forms"

definition canonical_key :: "string \<Rightarrow> string" where
  "canonical_key name =
     (case name of
        [c] \<Rightarrow> (case compact_form (lower_char c) of Some full \<Rightarrow> full | None \<Rightarrow> to_lower name)
      | _ \<Rightarrow> to_lower name)"

definition same_header_name :: "string \<Rightarrow> string \<Rightarrow> bool" where
  "same_header_name first second \<longleftrightarrow> canonical_key first = canonical_key second"

definition MIDDLE_RANK :: nat where
  "MIDDLE_RANK = 128"

definition wire_rank :: "string \<Rightarrow> nat" where
  "wire_rank canonical =
     (case map_of
        [(''via'', 0), (''max-forwards'', 1), (''record-route'', 2), (''route'', 3),
         (''proxy-require'', 4), (''proxy-authorization'', 5),
         (''from'', 6), (''to'', 7), (''call-id'', 8), (''cseq'', 9), (''contact'', 10),
         (''content-disposition'', 250), (''content-encoding'', 251),
         (''content-language'', 252), (''content-type'', 253), (''content-length'', 254)]
        canonical of
        Some r \<Rightarrow> r
      | None \<Rightarrow> MIDDLE_RANK)"

subsection \<open>The insertion-ordered map\<close>

text \<open>
  \<^verbatim>\<open>IndexMap::insert\<close> keeps the slot of a key that is present and appends a new one;
  \<^verbatim>\<open>shift_remove\<close> closes the gap.
\<close>

definition im_insert :: "string \<Rightarrow> string \<times> string list \<Rightarrow> sip_headers \<Rightarrow> sip_headers" where
  "im_insert k v h =
     (if map_of h k = None then h @ [(k, v)]
      else map (\<lambda>(k', v'). if k' = k then (k', v) else (k', v')) h)"

definition im_shift_remove :: "string \<Rightarrow> sip_headers \<Rightarrow> sip_headers" where
  "im_shift_remove k h = filter (\<lambda>(k', _). k' \<noteq> k) h"

subsection \<open>Operations\<close>

definition hdr_new :: sip_headers where
  "hdr_new = []"

definition hdr_add :: "sip_headers \<Rightarrow> string \<Rightarrow> string \<Rightarrow> sip_headers" where
  "hdr_add h name value =
     (let key = canonical_key name;
          (n, vs) = (case map_of h key of Some e \<Rightarrow> e | None \<Rightarrow> (name, []))
      in im_insert key (n, vs @ [value]) h)"

definition hdr_set_all :: "sip_headers \<Rightarrow> string \<Rightarrow> string list \<Rightarrow> sip_headers" where
  "hdr_set_all h name values = im_insert (canonical_key name) (name, values) h"

definition hdr_set :: "sip_headers \<Rightarrow> string \<Rightarrow> string \<Rightarrow> sip_headers" where
  "hdr_set h name value = im_insert (canonical_key name) (name, [value]) h"

definition hdr_get_all :: "sip_headers \<Rightarrow> string \<Rightarrow> string list option" where
  "hdr_get_all h name = map_option snd (map_of h (canonical_key name))"

definition hdr_get :: "sip_headers \<Rightarrow> string \<Rightarrow> string option" where
  "hdr_get h name =
     (case map_of h (canonical_key name) of
        None \<Rightarrow> None
      | Some (_, values) \<Rightarrow> (case values of [] \<Rightarrow> None | v # _ \<Rightarrow> Some v))"

definition hdr_remove :: "sip_headers \<Rightarrow> string \<Rightarrow> sip_headers" where
  "hdr_remove h name = im_shift_remove (canonical_key name) h"

definition hdr_has :: "sip_headers \<Rightarrow> string \<Rightarrow> bool" where
  "hdr_has h name \<longleftrightarrow> map_of h (canonical_key name) \<noteq> None"

definition hdr_names :: "sip_headers \<Rightarrow> string list" where
  "hdr_names h = map (\<lambda>(_, name, _). name) h"

definition hdr_iter :: "sip_headers \<Rightarrow> (string \<times> string list) list" where
  "hdr_iter h = map (\<lambda>(key, _, values). (key, values)) h"

definition hdr_iter_original :: "sip_headers \<Rightarrow> (string \<times> string list) list" where
  "hdr_iter_original h = map (\<lambda>(_, name, values). (name, values)) h"

definition hdr_via :: "sip_headers \<Rightarrow> string option" where
  "hdr_via h = hdr_get h ''Via''"

definition hdr_to :: "sip_headers \<Rightarrow> string option" where
  "hdr_to h = hdr_get h ''To''"

definition hdr_from :: "sip_headers \<Rightarrow> string option" where
  "hdr_from h = hdr_get h ''From''"

definition hdr_call_id :: "sip_headers \<Rightarrow> string option" where
  "hdr_call_id h = hdr_get h ''Call-ID''"

definition hdr_cseq :: "sip_headers \<Rightarrow> string option" where
  "hdr_cseq h = hdr_get h ''CSeq''"

definition hdr_contact :: "sip_headers \<Rightarrow> string option" where
  "hdr_contact h = hdr_get h ''Contact''"

definition hdr_content_length :: "sip_headers \<Rightarrow> nat option" where
  "hdr_content_length h =
     Option.bind (hdr_get h ''Content-Length'') (\<lambda>s. parse_uint u64_max (trim s))"

definition hdr_content_type :: "sip_headers \<Rightarrow> string option" where
  "hdr_content_type h = hdr_get h ''Content-Type''"

definition hdr_max_forwards :: "sip_headers \<Rightarrow> nat option" where
  "hdr_max_forwards h =
     Option.bind (hdr_get h ''Max-Forwards'') (\<lambda>s. parse_uint u8_max (trim s))"

subsection \<open>The header block on the wire\<close>

definition push_header_rows :: "bytes \<Rightarrow> string \<Rightarrow> string list \<Rightarrow> bytes" where
  "push_header_rows out name values =
     foldl (\<lambda>acc value. acc @ name @ '': '' @ value @ crlf) out values"

text \<open>The scan of the fast path: no rank is below the one before it.\<close>

fun ranks_ordered :: "nat \<Rightarrow> string list \<Rightarrow> bool" where
  "ranks_ordered previous [] = True"
| "ranks_ordered previous (key # keys) =
     (if wire_rank key < previous then False else ranks_ordered (wire_rank key) keys)"

text \<open>
  The inner \<^verbatim>\<open>while\<close> of the insertion sort: the index at \<open>cursor\<close> is swapped towards the front
  while its left neighbour ranks higher.
\<close>

fun sift :: "nat list \<Rightarrow> nat list \<Rightarrow> nat \<Rightarrow> nat list" where
  "sift ranks order 0 = order"
| "sift ranks order (Suc cursor) =
     (if ranks ! (order ! cursor) > ranks ! (order ! Suc cursor)
      then sift ranks (order[cursor := order ! Suc cursor, Suc cursor := order ! cursor]) cursor
      else order)"

definition wire_order :: "nat list \<Rightarrow> nat list" where
  "wire_order ranks =
     (let count = length ranks
      in foldl (\<lambda>order position. sift ranks order position) [0..<count] [1..<count])"

definition write_wire :: "sip_headers \<Rightarrow> bytes \<Rightarrow> bytes" where
  "write_wire h out =
     (if ranks_ordered 0 (map fst h)
      then foldl (\<lambda>acc (name, values). push_header_rows acc name values) out (hdr_iter_original h)
      else foldl (\<lambda>acc index.
                    if index < length h
                    then push_header_rows acc (fst (snd (h ! index))) (snd (snd (h ! index)))
                    else acc)
             out (wire_order (map (wire_rank \<circ> fst) h)))"

subsection \<open>Facts about header names\<close>

lemma compact_forms_lower: "list_all (\<lambda>(c, full). to_lower full = full \<and> length full \<noteq> 1) compact_forms"
  by code_simp

lemma compact_form_not_single: "compact_form c = Some full \<Longrightarrow> to_lower full = full \<and> length full \<noteq> 1"
  using compact_forms_lower by (auto simp: compact_form_def list_all_iff dest!: map_of_SomeD)

lemma canonical_key_long: "length n \<noteq> 1 \<Longrightarrow> canonical_key n = to_lower n"
  by (auto simp: canonical_key_def split: list.splits)

lemma canonical_key_idem [simp]: "canonical_key (canonical_key n) = canonical_key n"
proof (cases "\<exists>c full. n = [c] \<and> compact_form (lower_char c) = Some full")
  case True
  then obtain c full where n: "n = [c]" "compact_form (lower_char c) = Some full" by blast
  then have "canonical_key n = full" by (simp add: canonical_key_def)
  moreover have "canonical_key full = full"
    using compact_form_not_single [OF n(2)] by (simp add: canonical_key_long)
  ultimately show ?thesis by simp
next
  case False
  then have "canonical_key n = to_lower n"
    by (auto simp: canonical_key_def split: list.splits option.splits)
  moreover have "canonical_key (to_lower n) = to_lower n"
    using False by (auto simp: canonical_key_def split: list.splits option.splits)
  ultimately show ?thesis by simp
qed

text \<open>The keys of the header names the other components use.\<close>

lemma header_keys:
  "canonical_key ''Via'' = ''via''" "canonical_key ''Max-Forwards'' = ''max-forwards''"
  "canonical_key ''Route'' = ''route''" "canonical_key ''Record-Route'' = ''record-route''"
  "canonical_key ''From'' = ''from''" "canonical_key ''To'' = ''to''"
  "canonical_key ''Call-ID'' = ''call-id''" "canonical_key ''CSeq'' = ''cseq''"
  "canonical_key ''Contact'' = ''contact''" "canonical_key ''Content-Length'' = ''content-length''"
  "canonical_key ''Reason'' = ''reason''"
  by code_simp+

subsection \<open>The container as a map\<close>

lemma map_of_im_insert [simp]: "map_of (im_insert k v h) k' = (if k' = k then Some v else map_of h k')"
proof -
  have upd: "map_of (map (\<lambda>(k', v'). if k' = k then (k', v) else (k', v')) h) k'
      = (if k' = k then map_option (\<lambda>_. v) (map_of h k) else map_of h k')"
    by (induction h) (auto split: prod.splits)
  show ?thesis
    by (cases "map_of h k") (auto simp: im_insert_def upd map_add_def split: option.splits)
qed

lemma map_of_im_shift_remove [simp]:
  "map_of (im_shift_remove k h) k' = (if k' = k then None else map_of h k')"
  by (induction h) (auto simp: im_shift_remove_def)

definition hdr_wf :: "sip_headers \<Rightarrow> bool" where
  "hdr_wf h \<longleftrightarrow> distinct (map fst h) \<and> (\<forall>(k, n, vs) \<in> set h. k = canonical_key n)"

lemma fst_im_insert:
  "map fst (im_insert k v h) = (if map_of h k = None then map fst h @ [k] else map fst h)"
  by (auto simp: im_insert_def)

lemma hdr_wf_im_insert: "hdr_wf h \<Longrightarrow> k = canonical_key n \<Longrightarrow> hdr_wf (im_insert k (n, vs) h)"
  by (auto simp: hdr_wf_def fst_im_insert map_of_eq_None_iff)
     (auto simp: im_insert_def split: if_splits)

lemma hdr_wf_new [simp]: "hdr_wf hdr_new"
  by (simp add: hdr_wf_def hdr_new_def)

lemma hdr_wf_set_all: "hdr_wf h \<Longrightarrow> hdr_wf (hdr_set_all h n vs)"
  by (simp add: hdr_set_all_def hdr_wf_im_insert)

lemma hdr_wf_set: "hdr_wf h \<Longrightarrow> hdr_wf (hdr_set h n v)"
  by (simp add: hdr_set_def hdr_wf_im_insert)

lemma hdr_wf_remove: "hdr_wf h \<Longrightarrow> hdr_wf (hdr_remove h n)"
  by (auto simp: hdr_wf_def hdr_remove_def im_shift_remove_def distinct_map filter_map
      intro: inj_on_subset)

lemma hdr_wf_add: "hdr_wf h \<Longrightarrow> hdr_wf (hdr_add h n v)"
proof -
  assume wf: "hdr_wf h"
  show ?thesis
  proof (cases "map_of h (canonical_key n)")
    case None
    then show ?thesis using wf by (simp add: hdr_add_def hdr_wf_im_insert)
  next
    case (Some e)
    obtain n' vs where e: "e = (n', vs)" by force
    then have "canonical_key n = canonical_key n'"
      using wf Some by (auto simp: hdr_wf_def dest!: map_of_SomeD)
    then show ?thesis using wf Some e by (simp add: hdr_add_def hdr_wf_im_insert)
  qed
qed

subsection \<open>The interface\<close>

text \<open>
  What the message layer relies on: names are compared by their canonical key, and each
  operation changes the values under one key only.
\<close>

locale header_store =
  fixes key :: "string \<Rightarrow> string"
    and get_all :: "'h \<Rightarrow> string \<Rightarrow> string list option"
    and add :: "'h \<Rightarrow> string \<Rightarrow> string \<Rightarrow> 'h"
    and set_all :: "'h \<Rightarrow> string \<Rightarrow> string list \<Rightarrow> 'h"
    and remove :: "'h \<Rightarrow> string \<Rightarrow> 'h"
  assumes key_idem: "key (key n) = key n"
    and get_key: "key n = key n' \<Longrightarrow> get_all h n = get_all h n'"
    and get_add: "get_all (add h n v) n' =
      (if key n' = key n then Some (case get_all h n of None \<Rightarrow> [v] | Some vs \<Rightarrow> vs @ [v])
       else get_all h n')"
    and get_set_all: "get_all (set_all h n vs) n' = (if key n' = key n then Some vs else get_all h n')"
    and get_remove: "get_all (remove h n) n' = (if key n' = key n then None else get_all h n')"
begin

lemma get_foldl_add:
  "get_all (foldl (\<lambda>h v. add h n v) h vs) n' =
     (if key n' = key n \<and> vs \<noteq> []
      then Some ((case get_all h n of None \<Rightarrow> [] | Some us \<Rightarrow> us) @ vs)
      else get_all h n')"
  by (induction vs arbitrary: h) (auto simp: get_add split: option.splits)

lemma get_foldl_remove:
  "get_all (foldl remove h ns) n' = (if key n' \<in> key ` set ns then None else get_all h n')"
  by (induction ns arbitrary: h) (auto simp: get_remove)

lemma get_foldl_remove_keys:
  "get_all (foldl remove h (map key ns)) n' = (if key n' \<in> key ` set ns then None else get_all h n')"
  by (auto simp: get_foldl_remove image_image key_idem)

text \<open>The last write to a key wins, whatever spelling of the name it used.\<close>

lemma set_then_add:
  "key n = key n' \<Longrightarrow> get_all (add (set_all h n vs) n' v) n = Some (vs @ [v])"
  by (simp add: get_add get_set_all)

lemma remove_then_add: "get_all (add (remove h n) n v) n' = (if key n' = key n then Some [v] else get_all h n')"
  by (simp add: get_add get_remove)

end

interpretation hdr: header_store canonical_key hdr_get_all hdr_add hdr_set_all hdr_remove
  by unfold_locales
     (auto simp: hdr_get_all_def hdr_add_def hdr_set_all_def hdr_remove_def Let_def
       split: option.splits prod.splits)

lemmas hdr_laws = hdr.get_add hdr.get_set_all hdr.get_remove hdr.get_foldl_add

text \<open>Removing every name whose key is not to be kept.\<close>

lemma hdr_get_all_retain:
  assumes "hdr_wf h"
  shows "hdr_get_all (foldl hdr_remove h (filter (\<lambda>k. k \<notin> K) (map fst (hdr_iter h)))) n
    = (if canonical_key n \<in> K then hdr_get_all h n else None)"
proof -
  have canon: "canonical_key k = k" if "k \<in> set (map fst (hdr_iter h))" for k
    using that assms by (auto simp: hdr_wf_def hdr_iter_def)
  have absent: "hdr_get_all h n = None" if "canonical_key n \<notin> set (map fst (hdr_iter h))"
    using that by (force simp: hdr_get_all_def hdr_iter_def map_of_eq_None_iff)
  have "canonical_key n \<in> canonical_key ` set (filter (\<lambda>k. k \<notin> K) (map fst (hdr_iter h)))
      \<longleftrightarrow> canonical_key n \<in> set (map fst (hdr_iter h)) \<and> canonical_key n \<notin> K" (is "?l = ?r")
  proof
    assume ?l
    then obtain k where "k \<in> set (map fst (hdr_iter h))" "k \<notin> K" "canonical_key n = canonical_key k"
      by auto
    then show ?r using canon by metis
  next
    assume ?r
    then show ?l using canon [of "canonical_key n"]
      by (intro image_eqI [of _ _ "canonical_key n"]) simp_all
  qed
  then show ?thesis using absent by (auto simp: hdr.get_foldl_remove)
qed

lemma hdr_get_get_all: "hdr_get h n = (case hdr_get_all h n of Some (v # _) \<Rightarrow> Some v | _ \<Rightarrow> None)"
  by (auto simp: hdr_get_def hdr_get_all_def split: option.splits list.splits)

lemma hdr_set_set_all: "hdr_set h n v = hdr_set_all h n [v]"
  by (simp add: hdr_set_def hdr_set_all_def)

lemma hdr_get_set [simp]: "hdr_get (hdr_set h n v) n' = (if canonical_key n' = canonical_key n then Some v else hdr_get h n')"
  by (simp add: hdr_get_get_all hdr_set_set_all hdr.get_set_all)

lemma hdr_get_all_set: "hdr_get_all (hdr_set h n v) n' = (if canonical_key n' = canonical_key n then Some [v] else hdr_get_all h n')"
  by (simp add: hdr_set_set_all hdr.get_set_all)

lemma hdr_get_all_new [simp]: "hdr_get_all hdr_new n = None"
  by (simp add: hdr_get_all_def hdr_new_def)

subsection \<open>The wire order is the stable sort by rank\<close>

lemma sift_append:
  fixes ranks :: "nat list"
  defines "r \<equiv> \<lambda>i. ranks ! i"
  shows "sorted (map r xs) \<Longrightarrow>
    sift ranks (xs @ x # zs) (length xs) = filter (\<lambda>y. r y \<le> r x) xs @ x # filter (\<lambda>y. r x < r y) xs @ zs"
proof (induction xs arbitrary: zs rule: rev_induct)
  case Nil
  then show ?case by simp
next
  case (snoc y xs)
  have sorted: "sorted (map r xs)" and below: "\<forall>z \<in> set xs. r z \<le> r y"
    using snoc.prems by (auto simp: sorted_append)
  let ?order = "xs @ y # x # zs"
  have nths: "?order ! length xs = y" "?order ! Suc (length xs) = x"
    by (simp_all add: nth_append)
  show ?case
  proof (cases "r x < r y")
    case True
    have swap: "?order[length xs := x, Suc (length xs) := y] = xs @ x # y # zs"
      by (simp add: list_update_append)
    have "sift ranks ?order (Suc (length xs)) = sift ranks (xs @ x # y # zs) (length xs)"
      using True nths swap by (simp add: r_def)
    also have "\<dots> = filter (\<lambda>z. r z \<le> r x) xs @ x # filter (\<lambda>z. r x < r z) xs @ y # zs"
      by (rule snoc.IH [OF sorted])
    finally show ?thesis using True by simp
  next
    case False
    then have le: "\<forall>z \<in> set xs. r z \<le> r x" using below by auto
    then have "filter (\<lambda>z. r z \<le> r x) xs = xs" "filter (\<lambda>z. r x < r z) xs = []"
      by (auto simp: filter_id_conv filter_empty_conv not_less)
    then show ?thesis using False nths by (simp add: r_def)
  qed
qed

lemma filter_le_gt_mset: "mset (filter (\<lambda>y. (f y :: nat) \<le> k) xs) + mset (filter (\<lambda>y. k < f y) xs) = mset xs"
  by (induction xs) auto

lemma sort_key_snoc:
  fixes f :: "'a \<Rightarrow> nat"
  assumes "sorted (map f ys)" and "ys = sort_key f xs"
  shows "sort_key f (xs @ [x]) = filter (\<lambda>y. f y \<le> f x) ys @ x # filter (\<lambda>y. f x < f y) ys"
proof (rule properties_for_sort_key)
  show "mset (filter (\<lambda>y. f y \<le> f x) ys @ x # filter (\<lambda>y. f x < f y) ys) = mset (xs @ [x])"
    using filter_le_gt_mset [of f "f x" ys] assms(2) by (simp add: add.assoc [symmetric])
next
  fix k
  have ys: "filter (\<lambda>z. f k = f z) ys = filter (\<lambda>z. f k = f z) xs"
    using assms(2) sort_key_stable [of f "f k" xs] by (simp add: eq_commute [of "f k"])
  show "filter (\<lambda>z. f k = f z) (filter (\<lambda>y. f y \<le> f x) ys @ x # filter (\<lambda>y. f x < f y) ys)
      = filter (\<lambda>z. f k = f z) (xs @ [x])"
  proof (cases "f k \<le> f x")
    case True
    then have "filter (\<lambda>z. f x < f z \<and> f k = f z) ys = []"
      and "filter (\<lambda>z. f z \<le> f x \<and> f k = f z) ys = filter (\<lambda>z. f k = f z) ys"
      by (auto simp: filter_empty_conv intro: filter_cong)
    then show ?thesis using ys by simp
  next
    case False
    then have "filter (\<lambda>z. f z \<le> f x \<and> f k = f z) ys = []"
      and "filter (\<lambda>z. f x < f z \<and> f k = f z) ys = filter (\<lambda>z. f k = f z) ys"
      by (auto simp: filter_empty_conv intro: filter_cong)
    then show ?thesis using False ys by simp
  qed
next
  show "sorted (map f (filter (\<lambda>y. f y \<le> f x) ys @ x # filter (\<lambda>y. f x < f y) ys))"
    using assms(1) by (auto simp: sorted_append sorted_filter)
qed

lemma wire_order_prefix:
  assumes "1 \<le> n" and "n \<le> length ranks"
  shows "foldl (\<lambda>order position. sift ranks order position) [0..<length ranks] [1..<n]
    = sort_key (\<lambda>i. ranks ! i) [0..<n] @ [n..<length ranks]"
  using assms
proof (induction n rule: nat_induct_at_least)
  case base
  then have "0 < length ranks" by linarith
  then show ?case by (simp add: upt_conv_Cons)
next
  case (Suc n)
  let ?f = "\<lambda>i. ranks ! i" and ?ys = "sort_key (\<lambda>i. ranks ! i) [0..<n]"
  have rest: "[n..<length ranks] = n # [Suc n..<length ranks]"
    using Suc.prems by (simp add: upt_conv_Cons)
  have len: "length ?ys = n" by simp
  have "foldl (\<lambda>order position. sift ranks order position) [0..<length ranks] [1..<Suc n]
      = sift ranks (?ys @ n # [Suc n..<length ranks]) (length ?ys)"
    using Suc by (simp add: rest)
  also have "\<dots> = sort_key ?f ([0..<n] @ [n]) @ [Suc n..<length ranks]"
    using sift_append [of ranks ?ys n "[Suc n..<length ranks]"] sort_key_snoc [of ?f ?ys "[0..<n]" n]
    by simp
  finally show ?case by simp
qed

lemma wire_order_sorts: "wire_order ranks = sort_key (\<lambda>i. ranks ! i) [0..<length ranks]"
proof (cases "ranks = []")
  case True
  then show ?thesis by (simp add: wire_order_def)
next
  case False
  then have "1 \<le> length ranks" by (cases ranks) auto
  then show ?thesis
    using wire_order_prefix [of "length ranks" ranks] by (simp add: wire_order_def)
qed

lemma insort_key_map: "insort_key f (g x) (map g xs) = map g (insort_key (f \<circ> g) x xs)"
  by (induction xs) auto

lemma sort_key_map: "sort_key f (map g xs) = map g (sort_key (f \<circ> g) xs)"
  by (induction xs) (simp_all add: insort_key_map o_def)

lemma insort_key_agree: "f x = g x \<Longrightarrow> \<forall>y \<in> set xs. f y = g y \<Longrightarrow> insort_key f x xs = insort_key g x xs"
  by (induction xs) auto

lemma sort_key_agree: "\<forall>y \<in> set xs. f y = g y \<Longrightarrow> sort_key f xs = sort_key g xs"
  by (induction xs) (auto intro: insort_key_agree)

lemma sort_key_sorted: "sorted (map f xs) \<Longrightarrow> sort_key f xs = xs"
  by (rule properties_for_sort_key) auto

lemma ranks_ordered_sorted: "ranks_ordered r ks \<longleftrightarrow> sorted (r # map wire_rank ks)"
  by (induction r ks rule: ranks_ordered.induct) auto

definition header_rows :: "header_entry \<Rightarrow> bytes" where
  "header_rows e = concat (map (\<lambda>value. fst (snd e) @ '': '' @ value @ crlf) (snd (snd e)))"

lemma push_header_rows_append:
  "push_header_rows out n vs = out @ concat (map (\<lambda>value. n @ '': '' @ value @ crlf) vs)"
  unfolding push_header_rows_def by (induction vs arbitrary: out) auto

lemma foldl_append_map: "foldl (\<lambda>acc x. acc @ f x) out xs = out @ concat (map f xs)"
  by (induction xs arbitrary: out) auto

lemma write_wire_stable_sort:
  "write_wire h out = out @ concat (map header_rows (sort_key (wire_rank \<circ> fst) h))"
proof (cases "ranks_ordered 0 (map fst h)")
  case True
  then have sorted: "sort_key (wire_rank \<circ> fst) h = h"
    by (intro sort_key_sorted) (simp add: ranks_ordered_sorted)
  have "write_wire h out = foldl (\<lambda>acc e. acc @ header_rows e) out h"
    using True
    by (simp add: write_wire_def hdr_iter_original_def foldl_map push_header_rows_append
        header_rows_def case_prod_unfold)
  then show ?thesis by (simp add: foldl_append_map sorted)
next
  case False
  let ?ranks = "map (wire_rank \<circ> fst) h"
  let ?order = "sort_key (\<lambda>i. ?ranks ! i) [0..<length h]"
  have "write_wire h out = foldl (\<lambda>acc i. if i < length h then acc @ header_rows (h ! i) else acc) out ?order"
    using False by (simp add: write_wire_def wire_order_sorts push_header_rows_append header_rows_def
        cong: if_cong)
  also have "\<dots> = foldl (\<lambda>acc i. acc @ header_rows (h ! i)) out ?order"
    by (rule foldl_cong) auto
  also have "\<dots> = out @ concat (map header_rows (map ((!) h) ?order))"
    by (simp add: foldl_append_map o_def)
  also have "map ((!) h) ?order = map ((!) h) (sort_key (wire_rank \<circ> fst \<circ> (!) h) [0..<length h])"
  proof -
    have "?order = sort_key (wire_rank \<circ> fst \<circ> (!) h) [0..<length h]"
      by (rule sort_key_agree) auto
    then show ?thesis by simp
  qed
  also have "\<dots> = sort_key (wire_rank \<circ> fst) h"
    using sort_key_map [of "wire_rank \<circ> fst" "(!) h" "[0..<length h]"] by (simp add: map_nth)
  finally show ?thesis .
qed

end
