(* ===== verification/Sip_Message.thy ===== *)
theory Sip_Message
  imports Sip_Headers
begin

text \<open>
  URIs, methods, start lines and whole messages: \<^verbatim>\<open>src/src/sip/uri.rs\<close>,
  \<^verbatim>\<open>src/src/sip/message.rs\<close> and \<^verbatim>\<open>src/src/sip/builder.rs\<close>, with the serialisation of a
  message to the octets that go on the wire.  A port, a status code and a version number
  are natural numbers: the code only compares and prints them, and the parser bounds them
  by the width of the source's type.
\<close>

type_synonym param = "string \<times> string option"

subsection \<open>URIs\<close>

definition format_sip_host :: "string \<Rightarrow> string" where
  "format_sip_host host =
     (if CHR '':'' \<in> set host \<and> \<not> starts_with ''['' host then ''['' @ host @ '']'' else host)"

definition strip_ipv6_brackets :: "string \<Rightarrow> string" where
  "strip_ipv6_brackets host =
     (case strip_prefix ''['' host of
        None \<Rightarrow> host
      | Some h \<Rightarrow> (case strip_suffix '']'' h of None \<Rightarrow> host | Some r \<Rightarrow> r))"

text \<open>The scan of \<^verbatim>\<open>checked_uri_user\<close>, over what is left from \<^verbatim>\<open>index\<close> on.\<close>

fun uri_user_chars :: "string \<Rightarrow> bool" where
  "uri_user_chars [] = True"
| "uri_user_chars (b # rest) =
     (if b = CHR ''%''
      then (case rest of
              x # y # rest' \<Rightarrow> is_hex x \<and> is_hex y \<and> uri_user_chars rest'
            | _ \<Rightarrow> False)
      else (is_alnum b \<or> b \<in> set ''-_.!~*'' \<or> b = CHR 0x27 \<or> b \<in> set ''()'' \<or> b \<in> set ''&=+$,?/'')
           \<and> uri_user_chars rest)"

definition checked_uri_user :: "string \<Rightarrow> string option" where
  "checked_uri_user value =
     (if value = [] then None else if uri_user_chars value then Some value else None)"

definition split_host_port :: "string \<Rightarrow> string \<times> nat option" where
  "split_host_port authority0 =
     (let authority = trim authority0 in
      if starts_with ''['' authority
      then (case split_once CHR '']'' authority of
              Some (before, after) \<Rightarrow>
                (before @ '']'',
                 Option.bind (strip_prefix '':'' after) (parse_uint u16_max))
            | None \<Rightarrow> (authority, None))
      else (case rsplit_once CHR '':'' authority of
              Some (host, port_str) \<Rightarrow>
                (if CHR '':'' \<in> set host then (authority, None)
                 else (case parse_uint u16_max port_str of
                         Some port \<Rightarrow> (host, Some port)
                       | None \<Rightarrow> (authority, None)))
            | None \<Rightarrow> (authority, None)))"

datatype scheme = Sip | Sips | Tel | Other string

fun scheme_as_str :: "scheme \<Rightarrow> string" where
  "scheme_as_str Sip = ''sip''"
| "scheme_as_str Sips = ''sips''"
| "scheme_as_str Tel = ''tel''"
| "scheme_as_str (Other s) = s"

definition scheme_from_token :: "string \<Rightarrow> scheme" where
  "scheme_from_token token =
     (if token = ''sip'' then Sip
      else if token = ''sips'' then Sips
      else if token = ''tel'' then Tel
      else Other token)"

fun is_sip_family :: "scheme \<Rightarrow> bool" where
  "is_sip_family Sip = True"
| "is_sip_family Sips = True"
| "is_sip_family _ = False"

record uri_extras =
  ux_headers :: "param list"
  ux_user_params :: "param list"

record sip_uri =
  uri_scheme :: scheme
  uri_user :: "string option"
  uri_host :: string
  uri_port :: "nat option"
  uri_params :: "param list"
  uri_extras :: "uri_extras option"

definition uri_new :: "string \<Rightarrow> sip_uri" where
  "uri_new host = \<lparr>uri_scheme = Sip, uri_user = None, uri_host = host, uri_port = None,
     uri_params = [], uri_extras = None\<rparr>"

definition uri_with_user :: "sip_uri \<Rightarrow> string \<Rightarrow> sip_uri" where
  "uri_with_user u user = u\<lparr>uri_user := Some user\<rparr>"

definition uri_with_port :: "sip_uri \<Rightarrow> nat \<Rightarrow> sip_uri" where
  "uri_with_port u port = u\<lparr>uri_port := Some port\<rparr>"

definition uri_with_param :: "sip_uri \<Rightarrow> string \<Rightarrow> string option \<Rightarrow> sip_uri" where
  "uri_with_param u name value = u\<lparr>uri_params := uri_params u @ [(name, value)]\<rparr>"

definition uri_headers :: "sip_uri \<Rightarrow> param list" where
  "uri_headers u = (case uri_extras u of None \<Rightarrow> [] | Some e \<Rightarrow> ux_headers e)"

definition uri_user_params :: "sip_uri \<Rightarrow> param list" where
  "uri_user_params u = (case uri_extras u of None \<Rightarrow> [] | Some e \<Rightarrow> ux_user_params e)"

definition set_extras :: "sip_uri \<Rightarrow> param list \<Rightarrow> param list \<Rightarrow> sip_uri" where
  "set_extras u headers user_params =
     u\<lparr>uri_extras :=
        (if headers = [] \<and> user_params = [] then None
         else Some \<lparr>ux_headers = headers, ux_user_params = user_params\<rparr>)\<rparr>"

definition get_param :: "sip_uri \<Rightarrow> string \<Rightarrow> string option" where
  "get_param u name =
     map_option (\<lambda>(_, v). case v of Some s \<Rightarrow> s | None \<Rightarrow> []) (find (\<lambda>(n, _). n = name) (uri_params u))"

definition show_eq_value :: "string option \<Rightarrow> string" where
  "show_eq_value v = (case v of None \<Rightarrow> [] | Some s \<Rightarrow> ''='' @ s)"

definition show_params :: "param list \<Rightarrow> string" where
  "show_params ps = concat (map (\<lambda>(name, v). '';'' @ name @ show_eq_value v) ps)"

definition show_port :: "nat option \<Rightarrow> string" where
  "show_port p = (case p of None \<Rightarrow> [] | Some n \<Rightarrow> '':'' @ show_nat n)"

definition show_uri :: "sip_uri \<Rightarrow> string" where
  "show_uri u =
     scheme_as_str (uri_scheme u) @ '':'' @
     (if uri_scheme u = Tel
      then (case uri_user u of None \<Rightarrow> [] | Some user \<Rightarrow> user)
      else (case uri_user u of
              None \<Rightarrow> []
            | Some user \<Rightarrow> user @ show_params (uri_user_params u) @ ''@'') @
           (case uri_scheme u of
              Other _ \<Rightarrow> uri_host u
            | _ \<Rightarrow> format_sip_host (uri_host u)) @
           show_port (uri_port u)) @
     show_params (uri_params u) @
     (if uri_headers u = [] then []
      else ''?'' @ join ''&'' (map (\<lambda>(name, v). name @ show_eq_value v) (uri_headers u)))"

subsection \<open>Methods and start lines\<close>

datatype sip_method =
    Invite | Ack | Bye | Cancel | Options | Register
  | Info | Update | Prack | Subscribe | Notify | Refer | Message | Publish
  | Extension string

fun method_as_str :: "sip_method \<Rightarrow> string" where
  "method_as_str Invite = ''INVITE''"
| "method_as_str Ack = ''ACK''"
| "method_as_str Bye = ''BYE''"
| "method_as_str Cancel = ''CANCEL''"
| "method_as_str Options = ''OPTIONS''"
| "method_as_str Register = ''REGISTER''"
| "method_as_str Info = ''INFO''"
| "method_as_str Update = ''UPDATE''"
| "method_as_str Prack = ''PRACK''"
| "method_as_str Subscribe = ''SUBSCRIBE''"
| "method_as_str Notify = ''NOTIFY''"
| "method_as_str Refer = ''REFER''"
| "method_as_str Message = ''MESSAGE''"
| "method_as_str Publish = ''PUBLISH''"
| "method_as_str (Extension s) = s"

definition known_methods :: "(string \<times> sip_method) list" where
  "known_methods =
     [(''INVITE'', Invite), (''ACK'', Ack), (''BYE'', Bye), (''CANCEL'', Cancel),
      (''OPTIONS'', Options), (''REGISTER'', Register), (''INFO'', Info), (''UPDATE'', Update),
      (''PRACK'', Prack), (''SUBSCRIBE'', Subscribe), (''NOTIFY'', Notify), (''REFER'', Refer),
      (''MESSAGE'', Message), (''PUBLISH'', Publish)]"

definition method_from_str :: "string \<Rightarrow> sip_method" where
  "method_from_str s = (case map_of known_methods (to_upper s) of Some m \<Rightarrow> m | None \<Rightarrow> Extension s)"

record version =
  major :: nat
  minor :: nat

definition sip_2_0 :: version where
  "sip_2_0 = \<lparr>major = 2, minor = 0\<rparr>"

definition show_version :: "version \<Rightarrow> string" where
  "show_version v = ''SIP/'' @ show_nat (major v) @ ''.'' @ show_nat (minor v)"

record request_line =
  rl_method :: sip_method
  request_uri :: sip_uri
  rl_version :: version

record status_line =
  sl_version :: version
  status_code :: nat
  reason_phrase :: string
  generated_locally :: bool

datatype start_line = Request request_line | Response status_line

record sip_message =
  msg_start_line :: start_line
  msg_headers :: sip_headers
  msg_body :: bytes

definition is_request :: "sip_message \<Rightarrow> bool" where
  "is_request m = (case msg_start_line m of Request _ \<Rightarrow> True | Response _ \<Rightarrow> False)"

definition is_response :: "sip_message \<Rightarrow> bool" where
  "is_response m = (case msg_start_line m of Request _ \<Rightarrow> False | Response _ \<Rightarrow> True)"

definition is_generated_locally :: "sip_message \<Rightarrow> bool" where
  "is_generated_locally m = (case msg_start_line m of Request _ \<Rightarrow> False | Response l \<Rightarrow> generated_locally l)"

definition mark_generated_locally :: "sip_message \<Rightarrow> sip_message" where
  "mark_generated_locally m =
     (case msg_start_line m of
        Request _ \<Rightarrow> m
      | Response l \<Rightarrow> m\<lparr>msg_start_line := Response (l\<lparr>generated_locally := True\<rparr>)\<rparr>)"

definition msg_method :: "sip_message \<Rightarrow> sip_method option" where
  "msg_method m = (case msg_start_line m of Request r \<Rightarrow> Some (rl_method r) | Response _ \<Rightarrow> None)"

definition msg_status_code :: "sip_message \<Rightarrow> nat option" where
  "msg_status_code m = (case msg_start_line m of Request _ \<Rightarrow> None | Response l \<Rightarrow> Some (status_code l))"

definition msg_request_uri :: "sip_message \<Rightarrow> sip_uri option" where
  "msg_request_uri m = (case msg_start_line m of Request r \<Rightarrow> Some (request_uri r) | Response _ \<Rightarrow> None)"

subsection \<open>The builder\<close>

record builder =
  b_start_line :: "start_line option"
  b_headers :: sip_headers
  b_body :: bytes

definition builder_new :: builder where
  "builder_new = \<lparr>b_start_line = None, b_headers = hdr_new, b_body = []\<rparr>"

definition b_request :: "sip_method \<Rightarrow> sip_uri \<Rightarrow> builder \<Rightarrow> builder" where
  "b_request m uri b = b\<lparr>b_start_line :=
     Some (Request \<lparr>rl_method = m, request_uri = uri, rl_version = sip_2_0\<rparr>)\<rparr>"

definition b_response :: "nat \<Rightarrow> string \<Rightarrow> builder \<Rightarrow> builder" where
  "b_response code reason b = b\<lparr>b_start_line :=
     Some (Response \<lparr>sl_version = sip_2_0, status_code = code, reason_phrase = reason,
       generated_locally = False\<rparr>)\<rparr>"

definition b_header :: "string \<Rightarrow> string \<Rightarrow> builder \<Rightarrow> builder" where
  "b_header name value b = b\<lparr>b_headers := hdr_add (b_headers b) name value\<rparr>"

definition b_set_header :: "string \<Rightarrow> string \<Rightarrow> builder \<Rightarrow> builder" where
  "b_set_header name value b = b\<lparr>b_headers := hdr_set (b_headers b) name value\<rparr>"

definition b_content_length :: "nat \<Rightarrow> builder \<Rightarrow> builder" where
  "b_content_length len b = b_set_header ''Content-Length'' (show_nat len) b"

definition b_with_body :: "bytes \<Rightarrow> builder \<Rightarrow> builder" where
  "b_with_body body b = b_set_header ''Content-Length'' (show_nat (length body)) (b\<lparr>b_body := body\<rparr>)"

datatype build_error = StartLineNotSet

definition b_build :: "builder \<Rightarrow> build_error + sip_message" where
  "b_build b =
     (case b_start_line b of
        None \<Rightarrow> Inl StartLineNotSet
      | Some l \<Rightarrow> Inr \<lparr>msg_start_line = l, msg_headers = b_headers b, msg_body = b_body b\<rparr>)"

definition opt_header :: "string \<Rightarrow> string option \<Rightarrow> builder \<Rightarrow> builder" where
  "opt_header name v b = (case v of None \<Rightarrow> b | Some s \<Rightarrow> b_header name s b)"

definition build_response_skeleton :: "sip_message \<Rightarrow> nat \<Rightarrow> string \<Rightarrow> sip_message" where
  "build_response_skeleton request code reason =
     (let h = msg_headers request;
          b0 = b_response code reason builder_new;
          b1 = (case hdr_get_all h ''Via'' of
                  None \<Rightarrow> b0
                | Some vias \<Rightarrow> foldl (\<lambda>b via. b_header ''Via'' via b) b0 vias);
          b2 = opt_header ''From'' (hdr_from h) b1;
          b3 = opt_header ''To'' (hdr_to h) b2;
          b4 = opt_header ''Call-ID'' (hdr_call_id h) b3;
          b5 = opt_header ''CSeq'' (hdr_cseq h) b4;
          b6 = b_content_length 0 b5
      in case b_build b6 of
           Inr m \<Rightarrow> m
         | Inl _ \<Rightarrow> \<lparr>msg_start_line = Response \<lparr>sl_version = sip_2_0, status_code = code,
                       reason_phrase = reason, generated_locally = False\<rparr>,
                     msg_headers = hdr_new, msg_body = []\<rparr>)"

definition show_start_line :: "start_line \<Rightarrow> bytes" where
  "show_start_line l =
     (case l of
        Request r \<Rightarrow>
          method_as_str (rl_method r) @ '' '' @ show_uri (request_uri r) @ '' '' @
          show_version (rl_version r) @ crlf
      | Response s \<Rightarrow>
          show_version (sl_version s) @ '' '' @ show_nat (status_code s) @ '' '' @
          reason_phrase s @ crlf)"

definition to_bytes :: "sip_message \<Rightarrow> bytes" where
  "to_bytes m = write_wire (msg_headers m) (show_start_line (msg_start_line m)) @ crlf @ msg_body m"

subsection \<open>Facts\<close>

lemma known_methods_upper: "list_all (\<lambda>(s, m). to_upper s = s \<and> method_as_str m = s) known_methods"
  by code_simp

lemma method_from_as_str:
  assumes "\<And>s. m = Extension s \<Longrightarrow> map_of known_methods (to_upper s) = None"
  shows "method_from_str (method_as_str m) = m"
  using assms by (cases m) (simp_all add: method_from_str_def, code_simp+)

lemma to_bytes_layout:
  "to_bytes m = show_start_line (msg_start_line m)
     @ concat (map header_rows (sort_key (wire_rank \<circ> fst) (msg_headers m))) @ crlf @ msg_body m"
  by (simp add: to_bytes_def write_wire_stable_sort)

lemma foldl_b_headers: "b_headers (foldl (\<lambda>b v. b_header n v b) b vs) = foldl (\<lambda>h v. hdr_add h n v) (b_headers b) vs"
  by (induction vs arbitrary: b) (simp_all add: b_header_def)

lemma foldl_b_start_line: "b_start_line (foldl (\<lambda>b v. b_header n v b) b vs) = b_start_line b"
  by (induction vs arbitrary: b) (simp_all add: b_header_def)

lemma foldl_b_body: "b_body (foldl (\<lambda>b v. b_header n v b) b vs) = b_body b"
  by (induction vs arbitrary: b) (simp_all add: b_header_def)

end
