(* ===== verification/Sip_Parser.thy ===== *)
theory Sip_Parser
  imports Sip_Message
begin

text \<open>
  The message parser of \<^verbatim>\<open>src/src/sip/parser.rs\<close>.  A parser takes the text that is left and
  gives the rest with its result, or nothing when it does not apply (the recoverable error
  of the parser combinators; the code raises no other kind).  What the source reports as a
  text is a value of \<open>parse_error\<close>.
\<close>

type_synonym 'a parsed = "(string \<times> 'a) option"

subsection \<open>Combinators\<close>

definition p_tag :: "string \<Rightarrow> string \<Rightarrow> string parsed" where
  "p_tag t s = map_option (\<lambda>r. (r, t)) (strip_prefix t s)"

abbreviation p_char :: "char \<Rightarrow> string \<Rightarrow> string parsed" where
  "p_char c \<equiv> p_tag [c]"

definition p_take_while :: "(char \<Rightarrow> bool) \<Rightarrow> string \<Rightarrow> string parsed" where
  "p_take_while p s = Some (dropWhile p s, takeWhile p s)"

definition p_take_while1 :: "(char \<Rightarrow> bool) \<Rightarrow> string \<Rightarrow> string parsed" where
  "p_take_while1 p s = (if takeWhile p s = [] then None else Some (dropWhile p s, takeWhile p s))"

definition p_opt :: "(string \<Rightarrow> 'a parsed) \<Rightarrow> string \<Rightarrow> 'a option parsed" where
  "p_opt p s = (case p s of None \<Rightarrow> Some (s, None) | Some (r, a) \<Rightarrow> Some (r, Some a))"

definition p_preceded :: "(string \<Rightarrow> 'a parsed) \<Rightarrow> (string \<Rightarrow> 'b parsed) \<Rightarrow> string \<Rightarrow> 'b parsed" where
  "p_preceded p q s = (case p s of None \<Rightarrow> None | Some (r, _) \<Rightarrow> q r)"

definition p_alt :: "(string \<Rightarrow> 'a parsed) \<Rightarrow> (string \<Rightarrow> 'a parsed) \<Rightarrow> string \<Rightarrow> 'a parsed" where
  "p_alt p q s = (case p s of None \<Rightarrow> q s | Some r \<Rightarrow> Some r)"

text \<open>\<^verbatim>\<open>map_res(p, |s| s.parse())\<close> at an unsigned type.\<close>

definition p_uint :: "nat \<Rightarrow> (string \<Rightarrow> string parsed) \<Rightarrow> string \<Rightarrow> nat parsed" where
  "p_uint m p s =
     (case p s of None \<Rightarrow> None | Some (r, ds) \<Rightarrow> map_option (\<lambda>n. (r, n)) (parse_uint m ds))"

fun find_sub :: "string \<Rightarrow> string \<Rightarrow> nat option" where
  "find_sub pat [] = (if pat = [] then Some 0 else None)"
| "find_sub pat (c # s) =
     (if starts_with pat (c # s) then Some 0 else map_option Suc (find_sub pat s))"

definition p_take_until :: "string \<Rightarrow> string \<Rightarrow> string parsed" where
  "p_take_until pat s = map_option (\<lambda>i. (drop i s, take i s)) (find_sub pat s)"

definition is_blank :: "char \<Rightarrow> bool" where
  "is_blank c \<longleftrightarrow> c = SP \<or> c = HT"

definition parse_crlf :: "string \<Rightarrow> string parsed" where
  "parse_crlf = p_alt (p_tag crlf) (p_tag [LF])"

subsection \<open>URIs\<close>

definition param_item :: "(char \<Rightarrow> bool) \<Rightarrow> (char \<Rightarrow> bool) \<Rightarrow> string \<Rightarrow> param parsed" where
  "param_item name_char value_char s =
     (case p_take_while1 name_char s of
        None \<Rightarrow> None
      | Some (r, name) \<Rightarrow>
          (case p_opt (p_preceded (p_char CHR ''='') (p_take_while value_char)) r of
             None \<Rightarrow> None
           | Some (r', value) \<Rightarrow> Some (r', (name, value))))"

lemma dropWhile_length: "length (dropWhile p s) \<le> length s"
  by (induction s) auto

lemma take_while1_shorter: "p_take_while1 p s = Some (r, a) \<Longrightarrow> length r < length s"
proof -
  assume h: "p_take_while1 p s = Some (r, a)"
  then have "length (takeWhile p s) > 0" and "r = dropWhile p s"
    by (auto simp: p_take_while1_def split: if_splits)
  moreover have "length s = length (takeWhile p s) + length (dropWhile p s)"
    by (simp flip: length_append)
  ultimately show ?thesis by auto
qed

lemma tag_shorter: "p_tag t s = Some (r, a) \<Longrightarrow> length s = length t + length r"
  by (auto simp: p_tag_def strip_prefix_Some_iff)

lemma p_precededD: "p_preceded p q s = Some (r, a) \<Longrightarrow> \<exists>r' b. p s = Some (r', b) \<and> q r' = Some (r, a)"
  by (auto simp: p_preceded_def split: option.splits)

lemma opt_not_longer:
  assumes "p_opt p s = Some (r, a)" and "\<And>r a. p s = Some (r, a) \<Longrightarrow> length r \<le> length s"
  shows "length r \<le> length s"
  using assms by (auto simp: p_opt_def split: option.splits)

lemma eq_value_not_longer:
  assumes "p_preceded (p_char c) (p_take_while q) s = Some (r, a)"
  shows "length r \<le> length s"
proof -
  obtain r' b where "p_char c s = Some (r', b)" and "r = dropWhile q r'"
    using p_precededD [OF assms] by (auto simp: p_take_while_def)
  then show ?thesis using tag_shorter [of "[c]" s r' b] dropWhile_length [of q r'] by simp
qed

lemma param_item_shorter:
  assumes "param_item p q s = Some (r, a)"
  shows "length r < length s"
proof -
  obtain r1 n v where name: "p_take_while1 p s = Some (r1, n)"
    and val: "p_opt (p_preceded (p_char CHR ''='') (p_take_while q)) r1 = Some (r, v)"
    using assms by (auto simp: param_item_def split: option.splits)
  have "length r \<le> length r1"
    by (rule opt_not_longer [OF val]) (rule eq_value_not_longer)
  with take_while1_shorter [OF name] show ?thesis by simp
qed

definition uri_param_item :: "string \<Rightarrow> param parsed" where
  "uri_param_item = p_preceded (p_char CHR '';'')
     (param_item (\<lambda>c. c \<notin> {CHR ''='', CHR '';'', CHR ''?'', SP, CR, LF})
                 (\<lambda>c. c \<notin> {CHR '';'', CHR ''?'', SP, CR, LF}))"

definition uri_header_item :: "string \<Rightarrow> param parsed" where
  "uri_header_item = p_preceded (p_opt (p_char CHR ''&''))
     (param_item (\<lambda>c. c \<notin> {CHR ''='', CHR ''&'', SP, CR, LF})
                 (\<lambda>c. c \<notin> {CHR ''&'', SP, CR, LF}))"

lemma uri_param_item_shorter:
  assumes "uri_param_item s = Some (r, a)"
  shows "length r < length s"
proof -
  obtain r' b where "p_char CHR '';'' s = Some (r', b)" and item: "length r < length r'"
    using p_precededD [OF assms [unfolded uri_param_item_def]] param_item_shorter by blast
  then show ?thesis using tag_shorter by fastforce
qed

lemma uri_header_item_shorter:
  assumes "uri_header_item s = Some (r, a)"
  shows "length r < length s"
proof -
  obtain r' b where amp: "p_opt (p_char CHR ''&'') s = Some (r', b)" and item: "length r < length r'"
    using p_precededD [OF assms [unfolded uri_header_item_def]] param_item_shorter by blast
  have "length r' \<le> length s"
    by (rule opt_not_longer [OF amp]) (simp add: tag_shorter)
  with item show ?thesis by simp
qed

function parse_uri_params :: "string \<Rightarrow> string \<times> param list" where
  "parse_uri_params s =
     (case uri_param_item s of
        None \<Rightarrow> (s, [])
      | Some (r, p) \<Rightarrow> (let (r', ps) = parse_uri_params r in (r', p # ps)))"
  by pat_completeness auto
termination
  by (relation "measure length") (auto dest: uri_param_item_shorter)

function parse_uri_headers :: "string \<Rightarrow> string \<times> param list" where
  "parse_uri_headers s =
     (case uri_header_item s of
        None \<Rightarrow> (s, [])
      | Some (r, p) \<Rightarrow> (let (r', ps) = parse_uri_headers r in (r', p # ps)))"
  by pat_completeness auto
termination
  by (relation "measure length") (auto dest: uri_header_item_shorter)

declare parse_uri_params.simps [simp del] parse_uri_headers.simps [simp del]

definition is_tel_char :: "char \<Rightarrow> bool" where
  "is_tel_char c \<longleftrightarrow> is_digit c \<or> c \<in> set ''+-.()''"

definition parse_tel_uri :: "string \<Rightarrow> sip_uri parsed" where
  "parse_tel_uri s =
     (case p_take_while1 is_tel_char s of
        None \<Rightarrow> None
      | Some (r, subscriber) \<Rightarrow>
          (let (r', params) = parse_uri_params r;
               host = (case find (\<lambda>(name, _). name = ''phone-context'') params of
                         Some (_, Some v) \<Rightarrow> v | _ \<Rightarrow> [])
           in Some (r', \<lparr>uri_scheme = Tel, uri_user = Some subscriber, uri_host = host,
                uri_port = None, uri_params = params, uri_extras = None\<rparr>)))"

definition scheme_is_valid :: "string \<Rightarrow> bool" where
  "scheme_is_valid s =
     (case s of [] \<Rightarrow> False
      | c # cs \<Rightarrow> is_alpha c \<and> list_all (\<lambda>c. is_alnum c \<or> c \<in> set ''+-.'') cs)"

definition parse_absolute_uri :: "string \<Rightarrow> sip_uri parsed" where
  "parse_absolute_uri s =
     (case split_once CHR '':'' s of
        None \<Rightarrow> None
      | Some (sch, rest) \<Rightarrow>
          if sch = [] \<or> \<not> scheme_is_valid sch then None
          else
            (let ends = (\<lambda>c. c \<in> {SP, HT, CR, LF, CHR ''>'', CHR '',''});
                 opaque = takeWhile (\<lambda>c. \<not> ends c) rest;
                 after = dropWhile (\<lambda>c. \<not> ends c) rest
             in if opaque = [] then None
                else
                  (let (host, port) =
                     (case rsplit_once CHR '':'' opaque of
                        Some (head, tail) \<Rightarrow>
                          (if tail \<noteq> [] \<and> list_all is_digit tail
                           then (case parse_uint u16_max tail of
                                   Some p \<Rightarrow> (head, Some p) | None \<Rightarrow> (opaque, None))
                           else (opaque, None))
                      | None \<Rightarrow> (opaque, None))
                   in Some (after, \<lparr>uri_scheme = scheme_from_token sch, uri_user = None,
                        uri_host = host, uri_port = port, uri_params = [], uri_extras = None\<rparr>))))"

text \<open>The user part: what precedes the last \<^verbatim>\<open>@\<close> before the URI ends, split at its first \<^verbatim>\<open>;\<close>.\<close>

definition split_param :: "string \<Rightarrow> param" where
  "split_param p = (case split_once CHR ''='' p of Some (n, v) \<Rightarrow> (n, Some v) | None \<Rightarrow> (p, None))"

definition parse_userinfo :: "string \<Rightarrow> string \<times> string option \<times> param list" where
  "parse_userinfo s =
     (let uri_portion = takeWhile (\<lambda>c. c \<notin> {SP, CR, LF, CHR ''>''}) s
      in case rsplit_once CHR ''@'' uri_portion of
           None \<Rightarrow> (s, None, [])
         | Some (user_part, _) \<Rightarrow>
             (let rest = drop (length user_part + 1) s
              in case split_once CHR '';'' user_part of
                   Some (bare_user, ps) \<Rightarrow>
                     (rest, Some bare_user,
                      map split_param (filter (\<lambda>p. p \<noteq> []) (split_on CHR '';'' ps)))
                 | None \<Rightarrow> (rest, Some user_part, [])))"

definition parse_host :: "string \<Rightarrow> string parsed" where
  "parse_host s =
     (if starts_with ''['' s
      then (case p_preceded (p_char CHR ''['') (p_take_while1 (\<lambda>c. c \<noteq> CHR '']'')) s of
              None \<Rightarrow> None
            | Some (r, ipv6) \<Rightarrow>
                map_option (\<lambda>(r', _). (r', ''['' @ ipv6 @ '']'')) (p_char CHR '']'' r))
      else p_take_while1 (\<lambda>c. is_alnum c \<or> c = CHR ''.'' \<or> c = CHR ''-'') s)"

definition parse_port :: "string \<Rightarrow> nat option parsed" where
  "parse_port = p_opt (p_preceded (p_char CHR '':'') (p_uint u16_max (p_take_while1 is_digit)))"

definition parse_uri :: "string \<Rightarrow> sip_uri parsed" where
  "parse_uri input =
     (case strip_prefix ''tel:'' input of
        Some rest \<Rightarrow> parse_tel_uri rest
      | None \<Rightarrow>
        if \<not> starts_with ''sip:'' input \<and> \<not> starts_with ''sips:'' input
        then parse_absolute_uri input
        else
          (case p_alt (p_tag ''sip:'') (p_tag ''sips:'') input of
             None \<Rightarrow> None
           | Some (s0, tok) \<Rightarrow>
             (let sch = (if tok = ''sips:'' then Sips else Sip);
                  (s1, user, user_params) = parse_userinfo s0
              in case parse_host s1 of
                   None \<Rightarrow> None
                 | Some (s2, host) \<Rightarrow>
                   (case parse_port s2 of
                      None \<Rightarrow> None
                    | Some (s3, port) \<Rightarrow>
                      (let (s4, params) = parse_uri_params s3;
                           (s5, headers) =
                             (case p_char CHR ''?'' s4 of
                                None \<Rightarrow> (s4, [])
                              | Some (r, _) \<Rightarrow> parse_uri_headers r);
                           uri = \<lparr>uri_scheme = sch, uri_user = user, uri_host = host,
                                  uri_port = port, uri_params = params, uri_extras = None\<rparr>
                       in Some (s5, set_extras uri headers user_params))))))"

definition parse_uri_standalone :: "string \<Rightarrow> sip_uri option" where
  "parse_uri_standalone input = map_option snd (parse_uri (trim input))"

definition parse_uri_complete :: "string \<Rightarrow> sip_uri option" where
  "parse_uri_complete input =
     (case parse_uri input of Some ([], uri) \<Rightarrow> Some uri | _ \<Rightarrow> None)"

subsection \<open>Start lines\<close>

definition parse_version :: "string \<Rightarrow> version parsed" where
  "parse_version s =
     (case p_preceded (p_tag ''SIP/'') (p_uint u8_max (p_take_while1 is_digit)) s of
        None \<Rightarrow> None
      | Some (r, maj) \<Rightarrow>
          map_option (\<lambda>(r', mi). (r', \<lparr>major = maj, minor = mi\<rparr>))
            (p_preceded (p_char CHR ''.'') (p_uint u8_max (p_take_while1 is_digit)) r))"

definition is_token_char :: "char \<Rightarrow> bool" where
  "is_token_char c \<longleftrightarrow> is_alnum c \<or> c \<in> set ''-.!%*_+~'' \<or> c = CHR 0x60 \<or> c = CHR 0x27"

definition parse_request_line :: "string \<Rightarrow> request_line parsed" where
  "parse_request_line s =
     (case p_take_while1 is_token_char s of
        None \<Rightarrow> None
      | Some (s1, method_str) \<Rightarrow>
        (case p_preceded (p_char SP) parse_uri s1 of
           None \<Rightarrow> None
         | Some (s2, uri) \<Rightarrow>
           (case p_preceded (p_char SP) parse_version s2 of
              None \<Rightarrow> None
            | Some (s3, v) \<Rightarrow>
              map_option (\<lambda>(s4, _). (s4, \<lparr>rl_method = method_from_str method_str,
                  request_uri = uri, rl_version = v\<rparr>)) (parse_crlf s3))))"

definition parse_status_line :: "string \<Rightarrow> status_line parsed" where
  "parse_status_line s =
     (case parse_version s of
        None \<Rightarrow> None
      | Some (s1, v) \<Rightarrow>
        (case p_preceded (p_take_while1 is_blank) (p_uint u16_max (p_take_while1 is_digit)) s1 of
           None \<Rightarrow> None
         | Some (s2, code) \<Rightarrow>
           (case p_preceded (p_take_while1 is_blank) (p_take_until crlf) s2 of
              None \<Rightarrow> None
            | Some (s3, reason) \<Rightarrow>
              map_option (\<lambda>(s4, _). (s4, \<lparr>sl_version = v, status_code = code,
                  reason_phrase = reason, generated_locally = False\<rparr>)) (parse_crlf s3))))"

definition parse_start_line :: "string \<Rightarrow> start_line parsed" where
  "parse_start_line =
     p_alt (\<lambda>s. map_option (apsnd Request) (parse_request_line s))
           (\<lambda>s. map_option (apsnd Response) (parse_status_line s))"

subsection \<open>Header lines\<close>

lemma find_sub_Some:
  "find_sub pat s = Some i \<Longrightarrow> i + length pat \<le> length s \<and> starts_with pat (drop i s)"
proof (induction pat s arbitrary: i rule: find_sub.induct)
  case (1 pat)
  then show ?case by (auto simp: starts_with_def split: if_splits)
next
  case (2 pat c s)
  show ?case
  proof (cases "starts_with pat (c # s)")
    case True
    then have "length pat \<le> length (c # s)" by (auto simp: starts_with_iff dest: arg_cong [of _ _ length])
    then show ?thesis using True "2.prems" by simp
  next
    case False
    then show ?thesis using 2 by auto
  qed
qed

lemma take_until_shorter:
  "p_take_until pat s = Some (r, a) \<Longrightarrow> length r \<le> length s \<and> (\<exists>t. r = pat @ t) \<and> s = a @ r"
  by (auto simp: p_take_until_def starts_with_iff dest!: find_sub_Some)

lemma parse_crlf_shorter: "parse_crlf s = Some (r, a) \<Longrightarrow> length r < length s"
  by (auto simp: parse_crlf_def p_alt_def crlf_def split: option.splits dest!: tag_shorter)

text \<open>The value loop of \<^verbatim>\<open>parse_header_line\<close>: a line, then the folded lines that continue it.\<close>

function header_value :: "string \<Rightarrow> string \<Rightarrow> string parsed" where
  "header_value value remaining =
     (case p_take_until crlf remaining of
        None \<Rightarrow> None
      | Some (input, line_value) \<Rightarrow>
        (case parse_crlf input of
           None \<Rightarrow> None
         | Some (input', _) \<Rightarrow>
             if input' = [] \<or> dropWhile is_blank input' = [] then Some (input', value @ line_value)
             else
               (case p_take_while1 is_blank input' of
                  None \<Rightarrow> Some (input', value @ line_value)
                | Some (input'', _) \<Rightarrow> header_value (value @ line_value @ '' '') input'')))"
  by pat_completeness auto
termination
  by (relation "measure (\<lambda>(value, remaining). length remaining)")
     (auto dest!: take_until_shorter parse_crlf_shorter take_while1_shorter)

declare header_value.simps [simp del]

definition parse_header_line :: "string \<Rightarrow> (string \<times> string) parsed" where
  "parse_header_line input0 =
     (let input = dropWhile is_blank input0 in
      case p_take_while1 (\<lambda>c. c \<notin> {CHR '':'', CR, LF, SP, HT}) input of
        None \<Rightarrow> None
      | Some (s1, name) \<Rightarrow>
        (case p_char CHR '':'' (dropWhile is_blank s1) of
           None \<Rightarrow> None
         | Some (s2, _) \<Rightarrow>
             map_option (\<lambda>(r, value). (r, (trim_ascii name, trim value)))
               (header_value [] (dropWhile is_blank s2))))"

lemma header_value_shorter: "header_value v s = Some (r, a) \<Longrightarrow> length r \<le> length s"
proof (induction v s arbitrary: r a rule: header_value.induct)
  case (1 acc remaining)
  from "1.prems" obtain i lv i' u where until: "p_take_until crlf remaining = Some (i, lv)"
    and nl: "parse_crlf i = Some (i', u)"
    by (subst (asm) header_value.simps) (auto split: option.splits)
  have len: "length i' \<le> length remaining"
    using take_until_shorter [OF until] parse_crlf_shorter [OF nl] by auto
  show ?case
  proof (cases "i' = [] \<or> dropWhile is_blank i' = []")
    case True
    then show ?thesis using "1.prems" until nl len by (subst (asm) header_value.simps) auto
  next
    case False
    show ?thesis
    proof (cases "p_take_while1 is_blank i'")
      case None
      then show ?thesis using False "1.prems" until nl len
        by (subst (asm) header_value.simps) (auto split: if_splits)
    next
      case (Some q)
      obtain i'' w where q: "q = (i'', w)" by force
      then have "header_value (acc @ lv @ '' '') i'' = Some (r, a)"
        using False "1.prems" until nl Some
        by (subst (asm) header_value.simps) (auto split: if_splits)
      then have "length r \<le> length i''"
        using "1.IH" [OF until refl nl refl False] Some q by blast
      then show ?thesis using take_while1_shorter [of is_blank i' i'' w] Some q len by simp
    qed
  qed
qed

lemma parse_header_line_shorter:
  assumes "parse_header_line s = Some (r, a)"
  shows "length r < length s"
proof -
  let ?p = "\<lambda>c. c \<notin> {CHR '':'', CR, LF, SP, HT}"
  obtain s1 n s2 u v where name: "p_take_while1 ?p (dropWhile is_blank s) = Some (s1, n)"
    and colon: "p_char CHR '':'' (dropWhile is_blank s1) = Some (s2, u)"
    and val: "header_value [] (dropWhile is_blank s2) = Some (r, v)"
    using assms by (auto simp: parse_header_line_def Let_def split: option.splits)
  have "length s1 < length s" and "length s2 < length s1" and "length r \<le> length s2"
    using take_while1_shorter [OF name] tag_shorter [OF colon] header_value_shorter [OF val]
      dropWhile_length [of is_blank s] dropWhile_length [of is_blank s1] dropWhile_length [of is_blank s2]
    by simp_all
  then show ?thesis by simp
qed

text \<open>
  \<^verbatim>\<open>parse_headers\<close>: rows until the empty line or the end of the text.  A line that opens with
  a blank at this point continues nothing and is refused.
\<close>

function parse_headers :: "sip_headers \<Rightarrow> string \<Rightarrow> sip_headers parsed" where
  "parse_headers headers remaining =
     (if remaining = [] then Some (remaining, headers)
      else case strip_prefix crlf remaining of
        Some after \<Rightarrow> Some (after, headers)
      | None \<Rightarrow>
        (case strip_prefix [LF] remaining of
           Some after \<Rightarrow> Some (after, headers)
         | None \<Rightarrow>
             if is_blank (hd remaining) then None
             else
               (case parse_header_line remaining of
                  None \<Rightarrow> None
                | Some (input, (name, value)) \<Rightarrow>
                    parse_headers (hdr_add headers name value) input)))"
  by pat_completeness auto
termination
  by (relation "measure (\<lambda>(headers, remaining). length remaining)")
     (auto dest!: parse_header_line_shorter)

declare parse_headers.simps [simp del]

subsection \<open>Whole messages\<close>

datatype parse_error =
    NoBoundary
  | BareLf nat
  | BareCr nat
  | NonUtf8
  | StartLineError
  | HeaderError
  | InvalidContentLength string
  | ContentLengthExceeds nat nat

text \<open>\<open>prev\<close> is the octet before \<open>index\<close>, nothing at the start.\<close>

fun line_endings_from :: "nat \<Rightarrow> char option \<Rightarrow> bytes \<Rightarrow> parse_error + unit" where
  "line_endings_from index prev [] = Inr ()"
| "line_endings_from index prev (b # rest) =
     (if b = LF \<and> prev \<noteq> Some CR then Inl (BareLf index)
      else if b = CR \<and> (case rest of [] \<Rightarrow> True | n # _ \<Rightarrow> n \<noteq> LF) then Inl (BareCr index)
      else line_endings_from (Suc index) (Some b) rest)"

definition validate_header_line_endings :: "bytes \<Rightarrow> parse_error + unit" where
  "validate_header_line_endings header_bytes = line_endings_from 0 None header_bytes"

fun leading_crlf_len :: "bytes \<Rightarrow> nat" where
  "leading_crlf_len (a # b # rest) = (if a = CR \<and> b = LF then 2 + leading_crlf_len rest else 0)"
| "leading_crlf_len _ = 0"

definition find_header_boundary :: "bytes \<Rightarrow> nat option" where
  "find_header_boundary input = find_sub (crlf @ crlf) input"

text \<open>\<^verbatim>\<open>std::str::from_utf8\<close>: the well-formed byte sequences of the Unicode standard.\<close>

abbreviation utf8_cont :: "char \<Rightarrow> bool" where
  "utf8_cont \<equiv> in_range 128 191"

fun utf8_valid :: "bytes \<Rightarrow> bool" where
  "utf8_valid [] = True"
| "utf8_valid (a # s) =
     (if in_range 0 127 a then utf8_valid s
      else if in_range 194 223 a
      then (case s of b # s' \<Rightarrow> utf8_cont b \<and> utf8_valid s' | _ \<Rightarrow> False)
      else if in_range 224 239 a
      then (case s of
              b # c # s' \<Rightarrow>
                (if a = CHR 0xE0 then in_range 160 191 b
                 else if a = CHR 0xED then in_range 128 159 b else utf8_cont b)
                \<and> utf8_cont c \<and> utf8_valid s'
            | _ \<Rightarrow> False)
      else if in_range 240 244 a
      then (case s of
              b # c # d # s' \<Rightarrow>
                (if a = CHR 0xF0 then in_range 144 191 b
                 else if a = CHR 0xF4 then in_range 128 143 b else utf8_cont b)
                \<and> utf8_cont c \<and> utf8_cont d \<and> utf8_valid s'
            | _ \<Rightarrow> False)
      else False)"

definition parse_header_block :: "bytes \<Rightarrow> parse_error + (start_line \<times> sip_headers \<times> nat)" where
  "parse_header_block input =
     (let prefix = leading_crlf_len input
      in case find_header_boundary (drop prefix input) of
           None \<Rightarrow> Inl NoBoundary
         | Some b \<Rightarrow>
           (let boundary = prefix + b;
                header_bytes = drop prefix (take (min (boundary + 4) (length input)) input)
            in case validate_header_line_endings header_bytes of
                 Inl e \<Rightarrow> Inl e
               | Inr _ \<Rightarrow>
                 if \<not> utf8_valid header_bytes then Inl NonUtf8
                 else
                   (case parse_start_line header_bytes of
                      None \<Rightarrow> Inl StartLineError
                    | Some (_, l) \<Rightarrow>
                      (let after_start_line =
                             (case find_sub crlf header_bytes of
                                Some pos \<Rightarrow> drop (pos + 2) header_bytes | None \<Rightarrow> [])
                       in case parse_headers hdr_new after_start_line of
                            None \<Rightarrow> Inl HeaderError
                          | Some (_, headers) \<Rightarrow> Inr (l, headers, boundary)))))"

definition parse_sip_headers_only :: "bytes \<Rightarrow> parse_error + sip_message" where
  "parse_sip_headers_only input =
     (case parse_header_block input of
        Inl e \<Rightarrow> Inl e
      | Inr (l, headers, _) \<Rightarrow>
          Inr \<lparr>msg_start_line = l, msg_headers = headers, msg_body = []\<rparr>)"

definition check_content_length :: "sip_headers \<Rightarrow> nat \<Rightarrow> parse_error option" where
  "check_content_length headers available =
     (case hdr_get headers ''Content-Length'' of
        None \<Rightarrow> None
      | Some declared \<Rightarrow>
        (case parse_uint u64_max (trim declared) of
           None \<Rightarrow> Some (InvalidContentLength (trim declared))
         | Some n \<Rightarrow> if n > available then Some (ContentLengthExceeds n available) else None))"

definition parse_sip_message_bytes :: "bytes \<Rightarrow> parse_error + sip_message" where
  "parse_sip_message_bytes input =
     (case parse_header_block input of
        Inl e \<Rightarrow> Inl e
      | Inr (l, headers, boundary) \<Rightarrow>
        (let body_start = boundary + 4
         in case check_content_length headers (length input - body_start) of
              Some e \<Rightarrow> Inl e
            | None \<Rightarrow>
              (let content_length = (case hdr_content_length headers of Some n \<Rightarrow> n | None \<Rightarrow> 0);
                   body = (if content_length > 0 \<and> length input \<ge> body_start + content_length
                           then take content_length (drop body_start input)
                           else if content_length = 0 then []
                           else drop body_start input)
               in Inr \<lparr>msg_start_line = l, msg_headers = headers, msg_body = body\<rparr>)))"

end
