(* ===== verification/Sip_Typed_Headers.thy ===== *)
theory Sip_Typed_Headers
  imports Sip_Parser
begin

text \<open>
  The typed header values of \<^verbatim>\<open>src/src/sip/headers/\<close>: \<^verbatim>\<open>cseq.rs\<close>, \<^verbatim>\<open>via.rs\<close>, \<^verbatim>\<open>nameaddr.rs\<close> and
  \<^verbatim>\<open>route.rs\<close>, each with its parser and its printed form.  What the source reports as a text is
  a value of \<open>hdr_error\<close>.
\<close>

datatype hdr_error =
    CSeqMissingSpace | CSeqBadNumber
  | ViaMissingPrefix | ViaMissingSentBy | ViaUnterminatedBracket | ViaBadPort | ViaBadRport | ViaEmpty
  | NameAddrMissingGt | NameAddrBadUri
  | RouteMissingLt | RouteMissingGt | RouteBadUri

text \<open>A loop that pushes parsed pieces and stops at the first error.\<close>

fun parse_each :: "('a \<Rightarrow> 'e + 'b) \<Rightarrow> 'a list \<Rightarrow> 'e + 'b list" where
  "parse_each p [] = Inr []"
| "parse_each p (x # xs) =
     (case p x of
        Inl e \<Rightarrow> Inl e
      | Inr b \<Rightarrow> (case parse_each p xs of Inl e \<Rightarrow> Inl e | Inr bs \<Rightarrow> Inr (b # bs)))"

definition nonblank :: "string \<Rightarrow> bool" where
  "nonblank s \<longleftrightarrow> trim s \<noteq> []"

subsection \<open>CSeq\<close>

record cseq =
  sequence :: nat
  cseq_method :: sip_method

definition cseq_parse :: "string \<Rightarrow> hdr_error + cseq" where
  "cseq_parse input =
     (case split_once_by is_ascii_ws (trim input) of
        None \<Rightarrow> Inl CSeqMissingSpace
      | Some (seq_str, method_str) \<Rightarrow>
        (case parse_uint u32_max (trim seq_str) of
           None \<Rightarrow> Inl CSeqBadNumber
         | Some n \<Rightarrow> Inr \<lparr>sequence = n, cseq_method = method_from_str (trim method_str)\<rparr>))"

definition show_cseq :: "cseq \<Rightarrow> string" where
  "show_cseq c = show_nat (sequence c) @ '' '' @ method_as_str (cseq_method c)"

subsection \<open>Via\<close>

record via =
  via_transport :: string
  via_host :: string
  via_port :: "nat option"
  via_branch :: "string option"
  via_received :: "string option"
  via_rport :: "nat option option"
  via_other_params :: "param list"

definition via_sent_by :: "string \<Rightarrow> hdr_error + (string \<times> nat option)" where
  "via_sent_by sent_by =
     (if starts_with ''['' sent_by
      then (case split_once CHR '']'' sent_by of
              Some (before, after) \<Rightarrow>
                (case strip_prefix '':'' after of
                   Some port_str \<Rightarrow>
                     (case parse_uint u16_max port_str of
                        Some p \<Rightarrow> Inr (before @ '']'', Some p)
                      | None \<Rightarrow> Inl ViaBadPort)
                 | None \<Rightarrow> Inr (before @ '']'', None))
            | None \<Rightarrow> Inl ViaUnterminatedBracket)
      else (case rsplit_once CHR '':'' sent_by of
              Some (host, port_str) \<Rightarrow>
                (case parse_uint u16_max port_str of
                   Some p \<Rightarrow> Inr (host, Some p)
                 | None \<Rightarrow> Inr (sent_by, None))
            | None \<Rightarrow> Inr (sent_by, None)))"

definition lower_param :: "string \<Rightarrow> param" where
  "lower_param p =
     (case split_once CHR ''='' p of
        Some (n, v) \<Rightarrow> (to_lower (trim n), Some (trim v))
      | None \<Rightarrow> (to_lower (trim p), None))"

definition via_param :: "via \<Rightarrow> param \<Rightarrow> hdr_error + via" where
  "via_param v p =
     (let (name, val) = p in
      if name = ''branch'' then Inr (v\<lparr>via_branch := val\<rparr>)
      else if name = ''received'' then Inr (v\<lparr>via_received := val\<rparr>)
      else if name = ''rport'' then
        (case val of
           Some s \<Rightarrow> (case parse_uint u16_max s of
                        Some n \<Rightarrow> Inr (v\<lparr>via_rport := Some (Some n)\<rparr>)
                      | None \<Rightarrow> Inl ViaBadRport)
         | None \<Rightarrow> Inr (v\<lparr>via_rport := Some None\<rparr>))
      else Inr (v\<lparr>via_other_params := via_other_params v @ [p]\<rparr>))"

fun via_params :: "via \<Rightarrow> string list \<Rightarrow> hdr_error + via" where
  "via_params v [] = Inr v"
| "via_params v (p # ps) =
     (case via_param v (lower_param p) of Inl e \<Rightarrow> Inl e | Inr v' \<Rightarrow> via_params v' ps)"

definition via_parse :: "string \<Rightarrow> hdr_error + via" where
  "via_parse input =
     (case strip_prefix ''SIP/2.0/'' (trim input) of
        None \<Rightarrow> Inl ViaMissingPrefix
      | Some rest \<Rightarrow>
        (case split_once_by is_ascii_ws rest of
           None \<Rightarrow> Inl ViaMissingSentBy
         | Some (transport, rest1) \<Rightarrow>
           (let rest2 = trim_start rest1;
                sent_by = takeWhile (\<lambda>c. c \<noteq> CHR '';'') rest2;
                params_str = dropWhile (\<lambda>c. c \<noteq> CHR '';'') rest2
            in case via_sent_by (trim sent_by) of
                 Inl e \<Rightarrow> Inl e
               | Inr (host, port) \<Rightarrow>
                   via_params
                     \<lparr>via_transport = to_upper transport, via_host = host, via_port = port,
                      via_branch = None, via_received = None, via_rport = None,
                      via_other_params = []\<rparr>
                     (filter nonblank (split_on CHR '';'' params_str)))))"

definition split_comma_values :: "string \<Rightarrow> string list" where
  "split_comma_values input = filter (\<lambda>s. s \<noteq> []) (map trim (split_on CHR '','' input))"

definition via_parse_multi :: "string \<Rightarrow> hdr_error + via list" where
  "via_parse_multi input =
     (case parse_each via_parse (split_comma_values input) of
        Inl e \<Rightarrow> Inl e
      | Inr [] \<Rightarrow> Inl ViaEmpty
      | Inr vs \<Rightarrow> Inr vs)"

definition show_via :: "via \<Rightarrow> string" where
  "show_via v =
     ''SIP/2.0/'' @ via_transport v @ '' '' @ via_host v @ show_port (via_port v)
     @ (case via_branch v of Some b \<Rightarrow> '';branch='' @ b | None \<Rightarrow> [])
     @ (case via_received v of Some r \<Rightarrow> '';received='' @ r | None \<Rightarrow> [])
     @ (case via_rport v of
          Some (Some p) \<Rightarrow> '';rport='' @ show_nat p | Some None \<Rightarrow> '';rport'' | None \<Rightarrow> [])
     @ show_params (via_other_params v)"

subsection \<open>Comma-separated name-addr values\<close>

text \<open>
  \<^verbatim>\<open>split_comma_respecting_angles\<close> (the same text in \<^verbatim>\<open>nameaddr.rs\<close> and \<^verbatim>\<open>route.rs\<close>): \<open>cur\<close> is
  the slice from \<^verbatim>\<open>start\<close> to the character under the cursor.
\<close>

definition push_part :: "string \<Rightarrow> string list" where
  "push_part cur = (if trim cur = [] then [] else [trim cur])"

fun split_angles :: "nat \<Rightarrow> string \<Rightarrow> string \<Rightarrow> string list" where
  "split_angles depth cur [] = push_part cur"
| "split_angles depth cur (c # s) =
     (if c = CHR ''<'' then split_angles (Suc depth) (cur @ [c]) s
      else if c = CHR ''>'' then split_angles (depth - 1) (cur @ [c]) s
      else if c = CHR '','' \<and> depth = 0 then push_part cur @ split_angles depth [] s
      else split_angles depth (cur @ [c]) s)"

definition split_comma_respecting_angles :: "string \<Rightarrow> string list" where
  "split_comma_respecting_angles input = split_angles 0 [] input"

subsection \<open>Name-addr\<close>

text \<open>
  The \<^verbatim>\<open>q\<close> parameter is kept as the text it prints as; \<open>f32_text\<close> stands for parsing a
  floating-point number and printing it back, which the code leaves to the standard library.
\<close>

record nameaddr =
  display_name :: "string option"
  na_uri :: sip_uri
  na_tag :: "string option"
  na_q :: "string option"
  na_expires :: "nat option"
  na_other_params :: "param list"

definition strip_quotes :: "string \<Rightarrow> string" where
  "strip_quotes s0 =
     (let s = trim s0
      in case strip_prefix [DQ] s of
           None \<Rightarrow> s
         | Some r \<Rightarrow> (case strip_suffix [DQ] r of None \<Rightarrow> s | Some t \<Rightarrow> t))"

text \<open>
  One header parameter, by its lower-cased name; \<open>keep\<close> says where an unknown one goes.
\<close>

definition nameaddr_param ::
  "(string \<Rightarrow> string option) \<Rightarrow> (nameaddr \<Rightarrow> nameaddr) \<Rightarrow> string \<Rightarrow> string option \<Rightarrow> nameaddr \<Rightarrow> nameaddr" where
  "nameaddr_param f32_text keep name val n =
     (if name = ''tag'' then n\<lparr>na_tag := val\<rparr>
      else if name = ''q'' then n\<lparr>na_q := Option.bind val f32_text\<rparr>
      else if name = ''expires'' then n\<lparr>na_expires := Option.bind val (parse_uint u32_max)\<rparr>
      else keep n)"

definition nameaddr_parse :: "(string \<Rightarrow> string option) \<Rightarrow> string \<Rightarrow> hdr_error + nameaddr" where
  "nameaddr_parse f32_text input0 =
     (let input = trim input0;
          start = (\<lambda>d u. \<lparr>display_name = d, na_uri = u, na_tag = None, na_q = None,
                          na_expires = None, na_other_params = []\<rparr>)
      in case split_once CHR ''<'' input of
           Some (before, after_lt) \<Rightarrow>
             (let display = trim before;
                  disp = (if display = [] then None else Some (strip_quotes display))
              in case split_once CHR ''>'' after_lt of
                   None \<Rightarrow> Inl NameAddrMissingGt
                 | Some (uri_str, after_gt) \<Rightarrow>
                   (case parse_uri_standalone uri_str of
                      None \<Rightarrow> Inl NameAddrBadUri
                    | Some uri \<Rightarrow>
                        Inr (foldl (\<lambda>n p. let (name, val) = lower_param p in
                                nameaddr_param f32_text
                                  (\<lambda>n. n\<lparr>na_other_params := na_other_params n @ [(name, val)]\<rparr>)
                                  name val n)
                              (start disp uri)
                              (filter nonblank (split_on CHR '';'' (trim after_gt))))))
         | None \<Rightarrow>
             (case parse_uri_standalone input of
                None \<Rightarrow> Inl NameAddrBadUri
              | Some uri \<Rightarrow>
                  Inr (foldl (\<lambda>n (name, val).
                          nameaddr_param f32_text
                            (\<lambda>n. n\<lparr>na_uri := (na_uri n)\<lparr>uri_params := uri_params (na_uri n) @ [(name, val)]\<rparr>\<rparr>)
                            (to_lower name) val n)
                        (start None (uri\<lparr>uri_params := []\<rparr>))
                        (uri_params uri))))"

definition nameaddr_parse_multi :: "(string \<Rightarrow> string option) \<Rightarrow> string \<Rightarrow> hdr_error + nameaddr list" where
  "nameaddr_parse_multi f32_text input =
     (if trim input = ''*'' then Inr []
      else parse_each (nameaddr_parse f32_text) (split_comma_respecting_angles input))"

definition show_nameaddr :: "nameaddr \<Rightarrow> string" where
  "show_nameaddr n =
     (case display_name n of Some d \<Rightarrow> [DQ] @ d @ [DQ, SP] | None \<Rightarrow> [])
     @ ''<'' @ show_uri (na_uri n) @ ''>''
     @ (case na_tag n of Some t \<Rightarrow> '';tag='' @ t | None \<Rightarrow> [])
     @ (case na_q n of Some q \<Rightarrow> '';q='' @ q | None \<Rightarrow> [])
     @ (case na_expires n of Some e \<Rightarrow> '';expires='' @ show_nat e | None \<Rightarrow> [])
     @ show_params (na_other_params n)"

datatype contact_wildcard = Absent | RemoveAll | Invalid

definition classify_contacts :: "string list \<Rightarrow> string option \<Rightarrow> contact_wildcard" where
  "classify_contacts contact_values expires =
     (let (entries, wildcard) =
        foldl (\<lambda>acc val.
                 foldl (\<lambda>(n, w) entry. (n + 1, w \<or> entry = ''*'')) acc (split_comma_respecting_angles val))
          (0::nat, False) contact_values
      in if \<not> wildcard then Absent
         else if entries = 1 \<and> Option.bind expires (\<lambda>v. parse_uint u32_max (trim v)) = Some 0
         then RemoveAll
         else Invalid)"

subsection \<open>Route entries\<close>

record route_entry =
  re_uri :: sip_uri
  re_params :: "param list"

definition trim_param :: "string \<Rightarrow> param" where
  "trim_param p =
     (case split_once CHR ''='' p of
        Some (n, v) \<Rightarrow> (trim n, Some (trim v))
      | None \<Rightarrow> (trim p, None))"

definition route_parse :: "string \<Rightarrow> hdr_error + route_entry" where
  "route_parse input =
     (case split_once CHR ''<'' (trim input) of
        None \<Rightarrow> Inl RouteMissingLt
      | Some (_, after_lt) \<Rightarrow>
        (case split_once CHR ''>'' after_lt of
           None \<Rightarrow> Inl RouteMissingGt
         | Some (uri_str, after_gt) \<Rightarrow>
           (case parse_uri_standalone uri_str of
              None \<Rightarrow> Inl RouteBadUri
            | Some uri \<Rightarrow>
                Inr \<lparr>re_uri = uri,
                     re_params = map trim_param
                       (filter nonblank (split_on CHR '';'' (trim after_gt)))\<rparr>)))"

definition route_parse_multi :: "string \<Rightarrow> hdr_error + route_entry list" where
  "route_parse_multi input = parse_each route_parse (split_comma_respecting_angles input)"

definition is_loose_route :: "route_entry \<Rightarrow> bool" where
  "is_loose_route e = list_ex (\<lambda>(name, _). name = ''lr'') (uri_params (re_uri e))"

definition show_route :: "route_entry \<Rightarrow> string" where
  "show_route e = ''<'' @ show_uri (re_uri e) @ ''>'' @ show_params (re_params e)"

definition format_route_header :: "route_entry list \<Rightarrow> string" where
  "format_route_header entries = join '', '' (map show_route entries)"

end
