(* ===== verification/Tx_Timers.thy ===== *)
theory Tx_Timers
  imports Siphon_Prelude "HOL-Library.While_Combinator"
begin

text \<open>
  The timer configuration of \<^verbatim>\<open>src/src/transaction/timer.rs\<close>.  A \<^verbatim>\<open>Duration\<close> is a number of
  nanoseconds; the panic of its arithmetic above 2 to the 64 seconds is not modelled.
\<close>

type_synonym duration = nat

definition from_millis :: "nat \<Rightarrow> duration" where
  "from_millis n = n * 1000000"

definition from_secs :: "nat \<Rightarrow> duration" where
  "from_secs n = n * 1000000000"

definition DEFAULT_T1 :: duration where "DEFAULT_T1 = from_millis 500"
definition DEFAULT_T2 :: duration where "DEFAULT_T2 = from_secs 4"
definition DEFAULT_T4 :: duration where "DEFAULT_T4 = from_secs 5"
definition DEFAULT_AUTO_100_TRYING_DELAY :: duration where
  "DEFAULT_AUTO_100_TRYING_DELAY = from_millis 200"
definition DEFAULT_TIMER_C_SECS :: nat where "DEFAULT_TIMER_C_SECS = 181"

record timer_config =
  t1 :: duration
  t2 :: duration
  t4 :: duration
  auto_100_trying :: bool
  auto_100_delay :: duration
  timer_c_secs :: nat
  timer_f_secs :: "nat option"

definition timers_new :: "duration \<Rightarrow> duration \<Rightarrow> duration \<Rightarrow> timer_config" where
  "timers_new a b c = \<lparr>t1 = a, t2 = b, t4 = c, auto_100_trying = True,
     auto_100_delay = DEFAULT_AUTO_100_TRYING_DELAY,
     timer_c_secs = DEFAULT_TIMER_C_SECS, timer_f_secs = None\<rparr>"

definition timers_default :: timer_config where
  "timers_default = \<lparr>t1 = DEFAULT_T1, t2 = DEFAULT_T2, t4 = DEFAULT_T4, auto_100_trying = True,
     auto_100_delay = DEFAULT_AUTO_100_TRYING_DELAY,
     timer_c_secs = DEFAULT_TIMER_C_SECS, timer_f_secs = None\<rparr>"

definition timer_a_initial :: "timer_config \<Rightarrow> duration" where "timer_a_initial tc = t1 tc"
definition timer_b :: "timer_config \<Rightarrow> duration" where "timer_b tc = t1 tc * 64"
definition timer_c :: "timer_config \<Rightarrow> duration" where
  "timer_c tc = max (from_secs (timer_c_secs tc)) (timer_b tc)"
definition timer_d_udp :: "timer_config \<Rightarrow> duration" where "timer_d_udp tc = from_secs 32"
definition timer_d_tcp :: "timer_config \<Rightarrow> duration" where "timer_d_tcp tc = 0"
definition timer_e_initial :: "timer_config \<Rightarrow> duration" where "timer_e_initial tc = t1 tc"
definition timer_f :: "timer_config \<Rightarrow> duration" where
  "timer_f tc = (case timer_f_secs tc of Some s \<Rightarrow> from_secs s | None \<Rightarrow> t1 tc * 64)"
definition timer_k_udp :: "timer_config \<Rightarrow> duration" where "timer_k_udp tc = t4 tc"
definition timer_k_tcp :: "timer_config \<Rightarrow> duration" where "timer_k_tcp tc = 0"
definition timer_g_initial :: "timer_config \<Rightarrow> duration" where "timer_g_initial tc = t1 tc"
definition timer_h :: "timer_config \<Rightarrow> duration" where "timer_h tc = t1 tc * 64"
definition timer_i_udp :: "timer_config \<Rightarrow> duration" where "timer_i_udp tc = t4 tc"
definition timer_i_tcp :: "timer_config \<Rightarrow> duration" where "timer_i_tcp tc = 0"
definition timer_j_udp :: "timer_config \<Rightarrow> duration" where "timer_j_udp tc = t1 tc * 64"
definition timer_j_tcp :: "timer_config \<Rightarrow> duration" where "timer_j_tcp tc = 0"

definition next_retransmit :: "timer_config \<Rightarrow> duration \<Rightarrow> duration" where
  "next_retransmit tc current = min (current * 2) (t2 tc)"

text \<open>The loop of \<^verbatim>\<open>timer_e_reaches_t2\<close>, over the pair of \<^verbatim>\<open>interval\<close> and \<^verbatim>\<open>elapsed\<close>.\<close>

abbreviation (input) e_guard :: "timer_config \<Rightarrow> duration \<times> duration \<Rightarrow> bool" where
  "e_guard tc s \<equiv> fst s < t2 tc"

abbreviation (input) e_body :: "duration \<times> duration \<Rightarrow> duration \<times> duration" where
  "e_body s \<equiv> (fst s * 2, snd s + fst s)"

definition timer_e_reaches_t2 :: "timer_config \<Rightarrow> duration" where
  "timer_e_reaches_t2 tc =
     (if t1 tc = 0 \<or> t1 tc \<ge> t2 tc then t2 tc
      else snd (while (\<lambda>s. fst s < t2 tc) (\<lambda>s. (fst s * 2, snd s + fst s)) (t1 tc, 0)))"

definition nist_auto_100_delay :: "timer_config \<Rightarrow> bool \<Rightarrow> duration" where
  "nist_auto_100_delay tc reliable =
     (if reliable then auto_100_delay tc else timer_e_reaches_t2 tc)"

subsection \<open>The retransmission schedule\<close>

text \<open>
  \<open>retransmit_interval tc n\<close> is the interval a machine has after \<open>n\<close> retransmissions: the
  initial interval, doubled each time and capped at T2.
\<close>

definition retransmit_interval :: "timer_config \<Rightarrow> nat \<Rightarrow> duration" where
  "retransmit_interval tc n = (next_retransmit tc ^^ n) (t1 tc)"

lemma retransmit_interval_0 [simp]: "retransmit_interval tc 0 = t1 tc"
  by (simp add: retransmit_interval_def)

lemma retransmit_interval_Suc [simp]:
  "retransmit_interval tc (Suc n) = next_retransmit tc (retransmit_interval tc n)"
  by (simp add: retransmit_interval_def)

lemma retransmit_interval_closed:
  "retransmit_interval tc (Suc n) = min (t1 tc * 2 ^ Suc n) (t2 tc)"
  by (induction n) (auto simp: next_retransmit_def min_def)

lemma e_loop_terminates:
  assumes "0 < i"
  shows "\<exists>s. while_option (e_guard tc) e_body (i, e) = Some s"
proof (rule measure_while_option_Some [where P = "\<lambda>s. 0 < fst s" and f = "\<lambda>s. t2 tc - fst s"])
  show "0 < fst (i, e)" using assms by simp
qed auto

text \<open>After \<open>k\<close> rounds below T2 the loop has doubled the interval \<open>k\<close> times and summed them.\<close>

lemma e_loop_result:
  assumes "0 < i"
  shows "\<exists>k. while (e_guard tc) e_body (i, e) = (i * 2 ^ k, e + i * (2 ^ k - 1))
    \<and> t2 tc \<le> i * 2 ^ k \<and> (\<forall>j < k. i * 2 ^ j < t2 tc)"
proof -
  let ?P = "\<lambda>s. \<exists>k. s = (i * 2 ^ k, e + i * (2 ^ k - 1)) \<and> (\<forall>j < k. i * 2 ^ j < t2 tc)"
  have step: "?P (e_body s)" if "?P s" and "e_guard tc s" for s
  proof -
    from that obtain k where s: "s = (i * 2 ^ k, e + i * (2 ^ k - 1))"
      and below: "\<forall>j < k. i * 2 ^ j < t2 tc" by blast
    have "(2 ^ k - 1) + (2 ^ k :: nat) = 2 ^ Suc k - 1" by simp
    then have "i * (2 ^ k - 1) + i * 2 ^ k = i * (2 ^ Suc k - 1)" by (metis distrib_left)
    then have "e_body s = (i * 2 ^ Suc k, e + i * (2 ^ Suc k - 1))"
      by (simp only: s fst_conv snd_conv) (simp only: add.assoc power_Suc mult.assoc mult.commute [of 2])
    moreover have "\<forall>j < Suc k. i * 2 ^ j < t2 tc"
      using below that(2) s by (auto simp: less_Suc_eq)
    ultimately show ?thesis by blast
  qed
  have "?P (while (e_guard tc) e_body (i, e)) \<and> \<not> e_guard tc (while (e_guard tc) e_body (i, e))"
  proof (rule while_rule [where P = "\<lambda>s. ?P s \<and> 0 < fst s"
        and r = "measure (\<lambda>s. t2 tc - fst s)"])
    show "?P (i, e) \<and> 0 < fst (i, e)" using assms by (auto intro: exI [of _ 0])
  next
    fix s assume "?P s \<and> 0 < fst s" and "e_guard tc s"
    then show "?P (e_body s) \<and> 0 < fst (e_body s)" using step by simp
  qed (auto intro!: diff_less_mono2)
  then obtain k where k: "while (e_guard tc) e_body (i, e) = (i * 2 ^ k, e + i * (2 ^ k - 1))"
    and below: "\<forall>j < k. i * 2 ^ j < t2 tc"
    and stop: "\<not> fst (while (e_guard tc) e_body (i, e)) < t2 tc" by blast
  have "t2 tc \<le> i * 2 ^ k" using stop unfolding k by simp
  with k below show ?thesis by blast
qed

lemma retransmit_interval_below:
  assumes "\<forall>j < k. t1 tc * 2 ^ j < t2 tc" and "j < k"
  shows "retransmit_interval tc j = t1 tc * 2 ^ j"
proof (cases j)
  case (Suc m)
  moreover have "t1 tc * 2 ^ Suc m \<le> t2 tc" using assms Suc by (blast intro: less_imp_le)
  ultimately show ?thesis using retransmit_interval_closed [of tc m] by simp
qed simp

lemma sum_doubling: "(\<Sum>j < k. a * 2 ^ j) = a * (2 ^ k - 1 :: nat)"
proof (induction k)
  case (Suc k)
  have "(2 ^ k - 1) + (2 ^ k :: nat) = 2 ^ Suc k - 1" by simp
  then have "a * (2 ^ k - 1) + a * 2 ^ k = a * (2 ^ Suc k - 1)" by (metis distrib_left)
  with Suc show ?case by simp
qed simp

text \<open>
  Timer E schedule and the automatic 100 Trying: for any configuration with
  0 < T1 < T2, the loop of \<open>timer_e_reaches_t2\<close> ends, and its result is the sum of the
  retransmission intervals that a non-INVITE client waits before its interval first is T2
  (all of them are below T2), which is the bound before which no 100 may be sent.
\<close>

theorem timer_e_reaches_t2_schedule:
  assumes "0 < t1 tc" and "t1 tc < t2 tc"
  shows "(\<exists>s. while_option (\<lambda>s. fst s < t2 tc) (\<lambda>s. (fst s * 2, snd s + fst s)) (t1 tc, 0) = Some s)
    \<and> (\<exists>k. timer_e_reaches_t2 tc = (\<Sum>j < k. retransmit_interval tc j)
           \<and> (\<forall>j < k. retransmit_interval tc j < t2 tc) \<and> retransmit_interval tc k = t2 tc)"
proof
  show "\<exists>s. while_option (\<lambda>s. fst s < t2 tc) (\<lambda>s. (fst s * 2, snd s + fst s)) (t1 tc, 0) = Some s"
    by (rule e_loop_terminates [OF assms(1)])
next
  obtain k where res: "while (\<lambda>s. fst s < t2 tc) (\<lambda>s. (fst s * 2, snd s + fst s)) (t1 tc, 0)
      = (t1 tc * 2 ^ k, 0 + t1 tc * (2 ^ k - 1))"
    and reach: "t2 tc \<le> t1 tc * 2 ^ k" and below: "\<forall>j < k. t1 tc * 2 ^ j < t2 tc"
    using e_loop_result [OF assms(1), of tc 0] by blast
  have "0 < k" using reach assms(2) by (cases k) auto
  then obtain m where k: "k = Suc m" by (cases k) auto
  have last: "retransmit_interval tc k = t2 tc"
    using retransmit_interval_closed [of tc m] reach k by (simp add: min_def)
  have "(\<Sum>j < k. retransmit_interval tc j) = (\<Sum>j < k. t1 tc * 2 ^ j)"
    by (rule sum.cong) (auto simp: retransmit_interval_below [OF below])
  then have "timer_e_reaches_t2 tc = (\<Sum>j < k. retransmit_interval tc j)"
    using assms res by (simp add: timer_e_reaches_t2_def sum_doubling)
  then show "\<exists>k. timer_e_reaches_t2 tc = (\<Sum>j < k. retransmit_interval tc j)
      \<and> (\<forall>j < k. retransmit_interval tc j < t2 tc) \<and> retransmit_interval tc k = t2 tc"
    using last below retransmit_interval_below [OF below] by (intro exI [of _ k]) simp
qed

theorem timer_e_reaches_t2_schedule_witness:
  "timer_e_reaches_t2 timers_default = from_millis 3500
   \<and> (\<exists>k. timer_e_reaches_t2 timers_default = (\<Sum>j < k. retransmit_interval timers_default j)
        \<and> retransmit_interval timers_default k = from_secs 4)"
proof -
  have "0 < t1 timers_default" and "t1 timers_default < t2 timers_default"
    by (simp_all add: timers_default_def DEFAULT_T1_def DEFAULT_T2_def from_millis_def from_secs_def)
  moreover have "t2 timers_default = from_secs 4" by (simp add: timers_default_def DEFAULT_T2_def)
  moreover have "timer_e_reaches_t2 timers_default = from_millis 3500"
    by (simp add: timer_e_reaches_t2_def timers_default_def DEFAULT_T1_def DEFAULT_T2_def
        from_millis_def from_secs_def while_unfold)
  ultimately show ?thesis using timer_e_reaches_t2_schedule [of timers_default] by metis
qed

end
