(* ===== verification/Tx_Actions.thy ===== *)
theory Tx_Actions
  imports Sip_Typed_Headers Tx_Timers
begin

text \<open>
  What the four transaction machines share (\<^verbatim>\<open>src/src/transaction/state.rs\<close>, the common types;
  \<^verbatim>\<open>src/src/transaction/cancel.rs\<close>): transports, timers, actions, the To-tag of a server
  transaction and the CANCEL of an INVITE; and the contract of a transaction machine as a
  locale, with what follows from it for whole runs.
\<close>

subsection \<open>Types\<close>

datatype transport = Udp | Reliable

text \<open>\<^verbatim>\<open>crate::transport::Transport\<close>.\<close>

datatype net_transport = NetUdp | NetTcp | NetTls | NetWebSocket | NetWebSocketSecure | NetSctp

definition transport_from :: "net_transport \<Rightarrow> transport" where
  "transport_from t = (case t of NetUdp \<Rightarrow> Udp | _ \<Rightarrow> Reliable)"

datatype timer_name =
    T_A | T_B | T_C | T_D | T_E | T_F | T_K | T_G | T_H | T_I | T_J | T_Trying100 | T_NoResponse

type_synonym sock_addr = "string \<times> nat"

record branch_hop =
  destination :: sock_addr
  hop_transport :: net_transport
  connection_id :: nat
  source_local_addr :: "sock_addr option"

record branch_cancel =
  cancel_frame :: bytes
  cancel_hop :: branch_hop

text \<open>Why an ACK or a CANCEL could not be built, and which of them it was.\<close>

datatype tx_error =
    SentInviteUnparsable parse_error | IctNotARequest | InviteMissingVia | InviteMissingFrom
  | NoToHeader | InviteMissingCallId | AckBuildFailed build_error | NoHopRecorded | InviteWithoutCSeq

datatype protocol_error =
    AckNotBuilt tx_error | TimerCCancelNotBuilt tx_error | LateCancelNotBuilt tx_error

datatype action =
    SendMessage sip_message
  | SendFrame bytes
  | SendCancel branch_cancel
  | PassToTu sip_message
  | StartTimer timer_name duration
  | CancelTimer timer_name
  | Timeout
  | Terminated
  | ProtocolError protocol_error

subsection \<open>The To-tag of a server transaction\<close>

text \<open>
  What one call takes from outside: the simple form of the UUID drawn in it, if one is
  drawn, and the printing of a floating-point parameter.
\<close>

record tag_env =
  uuid_simple :: string
  f32_text :: "string \<Rightarrow> string option"

definition generate_uas_to_tag :: "tag_env \<Rightarrow> string" where
  "generate_uas_to_tag env = ''siphon-'' @ take 12 (uuid_simple env)"

definition stamp_uas_to_tag ::
  "tag_env \<Rightarrow> sip_message \<Rightarrow> string option \<Rightarrow> sip_message \<times> string option" where
  "stamp_uas_to_tag env response cache =
     (case msg_start_line response of
        Request _ \<Rightarrow> (response, cache)
      | Response l \<Rightarrow>
        if status_code l = 100 then (response, cache)
        else
          (case hdr_to (msg_headers response) of
             None \<Rightarrow> (response, cache)
           | Some to_value \<Rightarrow>
             (case nameaddr_parse (f32_text env) to_value of
                Inl _ \<Rightarrow> (response, cache)
              | Inr name_addr \<Rightarrow>
                if na_tag name_addr \<noteq> None then (response, cache)
                else
                  (let tag = (case cache of Some t \<Rightarrow> t | None \<Rightarrow> generate_uas_to_tag env)
                   in (response\<lparr>msg_headers :=
                         hdr_set (msg_headers response) ''To''
                           (show_nameaddr (name_addr\<lparr>na_tag := Some tag\<rparr>))\<rparr>,
                       Some tag)))))"

text \<open>A response the stamp applies to: not a 100, with a To that parses and has no tag.\<close>

definition needs_to_tag :: "tag_env \<Rightarrow> sip_message \<Rightarrow> nameaddr option" where
  "needs_to_tag env m =
     (case msg_status_code m of
        None \<Rightarrow> None
      | Some code \<Rightarrow>
        if code = 100 then None
        else Option.bind (hdr_to (msg_headers m))
          (\<lambda>v. case nameaddr_parse (f32_text env) v of
                  Inl _ \<Rightarrow> None
                | Inr n \<Rightarrow> if na_tag n \<noteq> None then None else Some n))"

lemma stamp_unstamped: "needs_to_tag env m = None \<Longrightarrow> stamp_uas_to_tag env m c = (m, c)"
proof (cases "msg_start_line m")
  case (Response l)
  assume none: "needs_to_tag env m = None"
  show ?thesis
  proof (cases "status_code l = 100 \<or> hdr_to (msg_headers m) = None")
    case False
    then obtain v where v: "hdr_to (msg_headers m) = Some v" "status_code l \<noteq> 100" by auto
    show ?thesis using none Response v
      by (cases "nameaddr_parse (f32_text env) v")
        (simp_all add: needs_to_tag_def stamp_uas_to_tag_def msg_status_code_def split: if_splits)
  qed (auto simp: stamp_uas_to_tag_def Response)
qed (simp add: stamp_uas_to_tag_def)

lemma stamp_stamped:
  "needs_to_tag env m = Some n \<Longrightarrow>
   t = (case c of Some t \<Rightarrow> t | None \<Rightarrow> generate_uas_to_tag env) \<Longrightarrow>
   stamp_uas_to_tag env m c =
     (m\<lparr>msg_headers := hdr_set (msg_headers m) ''To'' (show_nameaddr (n\<lparr>na_tag := Some t\<rparr>))\<rparr>, Some t)"
proof (cases "msg_start_line m")
  case (Response l)
  assume some: "needs_to_tag env m = Some n"
    and t: "t = (case c of Some t \<Rightarrow> t | None \<Rightarrow> generate_uas_to_tag env)"
  from some Response obtain v where v: "hdr_to (msg_headers m) = Some v" "status_code l \<noteq> 100"
    by (auto simp: needs_to_tag_def msg_status_code_def bind_eq_Some_conv split: if_splits)
  show ?thesis using some Response v
    by (cases "nameaddr_parse (f32_text env) v")
      (simp_all add: needs_to_tag_def stamp_uas_to_tag_def msg_status_code_def t Let_def split: if_splits)
qed (simp add: needs_to_tag_def msg_status_code_def)

lemma stamp_cache_kept: "stamp_uas_to_tag env m (Some t) = (m', c') \<Longrightarrow> c' = Some t"
  by (cases "needs_to_tag env m") (simp_all add: stamp_unstamped stamp_stamped)

subsection \<open>The CANCEL of an INVITE\<close>

definition cancel_keep :: "string list" where
  "cancel_keep =
     [''via'', ''from'', ''to'', ''call-id'', ''cseq'', ''max-forwards'', ''route'', ''content-length'']"

definition build_cancel :: "sip_message \<Rightarrow> string list \<Rightarrow> sip_message option" where
  "build_cancel invite reasons =
     (case msg_start_line invite of
        Response _ \<Rightarrow> None
      | Request rl \<Rightarrow>
        (case Option.bind (hdr_cseq (msg_headers invite)) first_word of
           None \<Rightarrow> None
         | Some cseq_seq \<Rightarrow>
           (let h1 = hdr_set (msg_headers invite) ''CSeq'' (cseq_seq @ '' CANCEL'');
                h2 = (case hdr_get_all (msg_headers invite) ''Via'' of
                        Some (top_via # _) \<Rightarrow> hdr_set h1 ''Via'' top_via
                      | _ \<Rightarrow> h1);
                h3 = hdr_set h2 ''Content-Length'' ''0'';
                to_remove = filter (\<lambda>n. n \<notin> set cancel_keep) (map fst (hdr_iter h3));
                h4 = foldl hdr_remove h3 to_remove;
                h5 = foldl (\<lambda>h reason. hdr_add h ''Reason'' reason) h4 reasons
            in Some \<lparr>msg_start_line = Request (rl\<lparr>rl_method := Cancel\<rparr>),
                     msg_headers = h5, msg_body = []\<rparr>)))"

lemma build_cancel_some:
  "build_cancel invite reasons = Some c \<longleftrightarrow>
     (\<exists>rl number. msg_start_line invite = Request rl
        \<and> Option.bind (hdr_cseq (msg_headers invite)) first_word = Some number
        \<and> (let h1 = hdr_set (msg_headers invite) ''CSeq'' (number @ '' CANCEL'');
               h2 = (case hdr_get_all (msg_headers invite) ''Via'' of Some (v # _) \<Rightarrow> hdr_set h1 ''Via'' v | _ \<Rightarrow> h1);
               h3 = hdr_set h2 ''Content-Length'' ''0'';
               h4 = foldl hdr_remove h3 (filter (\<lambda>n. n \<notin> set cancel_keep) (map fst (hdr_iter h3)))
           in c = \<lparr>msg_start_line = Request (rl\<lparr>rl_method := Cancel\<rparr>),
                   msg_headers = foldl (\<lambda>h reason. hdr_add h ''Reason'' reason) h4 reasons, msg_body = []\<rparr>))"
  by (cases "msg_start_line invite"; cases "Option.bind (hdr_cseq (msg_headers invite)) first_word")
    (auto simp: build_cancel_def Let_def)

lemma build_cancel_get_all:
  assumes "build_cancel invite reasons = Some c" and "hdr_wf (msg_headers invite)"
    and "Option.bind (hdr_cseq (msg_headers invite)) first_word = Some number"
  shows "hdr_get_all (msg_headers c) n =
      (if canonical_key n \<in> {''from'', ''to'', ''call-id'', ''max-forwards'', ''route''}
       then hdr_get_all (msg_headers invite) n
       else if canonical_key n = ''cseq'' then Some [number @ '' CANCEL'']
       else if canonical_key n = ''via'' then map_option (take 1) (hdr_get_all (msg_headers invite) ''Via'')
       else if canonical_key n = ''content-length'' then Some [''0'']
       else if canonical_key n = ''reason'' \<and> reasons \<noteq> [] then Some reasons
       else None)"
proof -
  let ?h = "msg_headers invite"
  define h1 where "h1 = hdr_set ?h ''CSeq'' (number @ '' CANCEL'')"
  define h2 where "h2 = (case hdr_get_all ?h ''Via'' of Some (v # _) \<Rightarrow> hdr_set h1 ''Via'' v | _ \<Rightarrow> h1)"
  define h3 where "h3 = hdr_set h2 ''Content-Length'' ''0''"
  define h4 where "h4 = foldl hdr_remove h3 (filter (\<lambda>n. n \<notin> set cancel_keep) (map fst (hdr_iter h3)))"
  define h5 where "h5 = foldl (\<lambda>h reason. hdr_add h ''Reason'' reason) h4 reasons"
  have wf3: "hdr_wf h3"
    unfolding h3_def h2_def h1_def
    using assms(2) by (auto intro!: hdr_wf_set split: option.split list.split)
  have via: "hdr_get_all ?h n = hdr_get_all ?h ''Via''" if "canonical_key n = ''via''" for n
    using that by (intro hdr.get_key) (simp add: header_keys)
  have get3: "hdr_get_all h3 n =
      (if canonical_key n = ''content-length'' then Some [''0'']
       else if canonical_key n = ''via'' then map_option (take 1) (hdr_get_all ?h ''Via'')
       else if canonical_key n = ''cseq'' then Some [number @ '' CANCEL'']
       else hdr_get_all ?h n)" for n
  proof (cases "hdr_get_all ?h ''Via''")
    case None
    then show ?thesis using via [of n] by (simp add: h1_def h2_def h3_def hdr_get_all_set header_keys)
  next
    case (Some vs)
    then show ?thesis using via [of n] by (cases vs) (simp_all add: h1_def h2_def h3_def hdr_get_all_set header_keys)
  qed
  have get4: "hdr_get_all h4 n =
      (if canonical_key n \<in> set cancel_keep then hdr_get_all h3 n else None)" for n
    unfolding h4_def by (rule hdr_get_all_retain [OF wf3])
  have reason: "hdr_get_all h4 ''Reason'' = None"
    by (simp add: get4 header_keys) (simp add: cancel_keep_def)
  have get5: "hdr_get_all h5 n =
      (if canonical_key n = ''reason'' \<and> reasons \<noteq> [] then Some reasons else hdr_get_all h4 n)" for n
    by (simp add: h5_def hdr.get_foldl_add reason header_keys)
  have c: "msg_headers c = h5"
    using assms(1,3) unfolding h5_def h4_def h3_def h2_def h1_def by (auto simp: build_cancel_some Let_def)
  show ?thesis
  proof (cases "canonical_key n \<in> set cancel_keep")
    case True
    then have get5': "hdr_get_all h5 n = hdr_get_all h3 n" by (auto simp: get5 get4) (simp add: cancel_keep_def)
    from True show ?thesis unfolding c get5' get3 cancel_keep_def set_simps
      by (elim insertE emptyE) simp_all
  next
    case False
    then have "hdr_get_all h4 n = None" by (simp add: get4)
    with False show ?thesis unfolding c get5 by (simp add: cancel_keep_def)
  qed
qed

text \<open>
  C27. A CANCEL is built for every request with a CSeq.  It has the Request-URI of the request;
  From, To, Call-ID, Max-Forwards and every Route value are the request's own; CSeq keeps the
  number and names CANCEL; the one Via is the topmost of the request; Content-Length is 0, the
  body is empty, the given Reason values are carried and no other header is
  (\<^verbatim>\<open>transaction/cancel.rs\<close>, RFC 3261 section 9.1).
\<close>

theorem build_cancel_spec:
  assumes "msg_start_line invite = Request rl" and "hdr_wf (msg_headers invite)"
    and "Option.bind (hdr_cseq (msg_headers invite)) first_word = Some number"
  shows "\<exists>c. build_cancel invite reasons = Some c
    \<and> msg_start_line c = Request (rl\<lparr>rl_method := Cancel\<rparr>) \<and> msg_body c = []
    \<and> (\<forall>n. hdr_get_all (msg_headers c) n =
          (let k = canonical_key n; h = msg_headers invite
           in if k \<in> {''from'', ''to'', ''call-id'', ''max-forwards'', ''route''} then hdr_get_all h n
              else if k = ''cseq'' then Some [number @ '' CANCEL'']
              else if k = ''via'' then map_option (take 1) (hdr_get_all h ''Via'')
              else if k = ''content-length'' then Some [''0'']
              else if k = ''reason'' \<and> reasons \<noteq> [] then Some reasons
              else None))"
proof -
  obtain c where c: "build_cancel invite reasons = Some c"
    by (simp add: build_cancel_def assms(1,3) Let_def)
  then have "msg_start_line c = Request (rl\<lparr>rl_method := Cancel\<rparr>)" "msg_body c = []"
    using assms(1) by (auto simp: build_cancel_some Let_def)
  moreover have "hdr_get_all (msg_headers c) n =
      (let k = canonical_key n; h = msg_headers invite
       in if k \<in> {''from'', ''to'', ''call-id'', ''max-forwards'', ''route''} then hdr_get_all h n
          else if k = ''cseq'' then Some [number @ '' CANCEL'']
          else if k = ''via'' then map_option (take 1) (hdr_get_all h ''Via'')
          else if k = ''content-length'' then Some [''0'']
          else if k = ''reason'' \<and> reasons \<noteq> [] then Some reasons
          else None)" for n
    unfolding Let_def by (rule build_cancel_get_all [OF c assms(2,3)])
  ultimately show ?thesis using c by blast
qed

text \<open>An INVITE as a proxy sends it on, with the caller's Via below its own.\<close>

definition example_invite :: sip_message where
  "example_invite =
     \<lparr>msg_start_line = Request \<lparr>rl_method = Invite, request_uri = uri_new ''b.example'', rl_version = sip_2_0\<rparr>,
      msg_headers = foldl (\<lambda>h (n, v). hdr_add h n v) hdr_new
        [(''Via'', ''SIP/2.0/UDP p.example;branch=z9hG4bK-2''),
         (''Via'', ''SIP/2.0/UDP a.example;branch=z9hG4bK-1''),
         (''Max-Forwards'', ''69''), (''From'', ''<sip:a@a.example>;tag=1''),
         (''To'', ''<sip:b@b.example>''), (''Call-ID'', ''c1''), (''CSeq'', ''7 INVITE''),
         (''Contact'', ''<sip:a@a.example>''), (''Content-Length'', ''0'')],
      msg_body = []\<rparr>"

text \<open>Two calls with their UUIDs, and the replies to that INVITE at the caller's side.\<close>

definition example_env :: tag_env where
  "example_env = \<lparr>uuid_simple = ''0123456789abcdef0123456789abcdef'', f32_text = \<lambda>s. None\<rparr>"

definition example_env2 :: tag_env where
  "example_env2 = \<lparr>uuid_simple = ''fedcba9876543210fedcba9876543210'', f32_text = \<lambda>s. None\<rparr>"

definition example_reply :: "nat \<Rightarrow> string \<Rightarrow> sip_message" where
  "example_reply code reason =
     \<lparr>msg_start_line = Response \<lparr>sl_version = sip_2_0, status_code = code, reason_phrase = reason,
        generated_locally = True\<rparr>,
      msg_headers = foldl (\<lambda>h (n, v). hdr_add h n v) hdr_new
        [(''Via'', ''SIP/2.0/UDP a.example;branch=z9hG4bK-1''), (''From'', ''<sip:a@a.example>;tag=1''),
         (''To'', ''<sip:b@b.example>''), (''Call-ID'', ''c1''), (''CSeq'', ''7 INVITE'')],
      msg_body = []\<rparr>"

theorem build_cancel_spec_witness:
  "\<exists>c. build_cancel example_invite [''SIP;cause=200''] = Some c
    \<and> hdr_get_all (msg_headers c) ''CSeq'' = Some [''7 CANCEL'']
    \<and> hdr_get_all (msg_headers c) ''Via'' = Some [''SIP/2.0/UDP p.example;branch=z9hG4bK-2'']
    \<and> hdr_get_all (msg_headers c) ''Contact'' = None
    \<and> hdr_get_all (msg_headers c) ''Reason'' = Some [''SIP;cause=200'']"
proof -
  have wf: "hdr_wf (msg_headers example_invite)" by code_simp
  have num: "Option.bind (hdr_cseq (msg_headers example_invite)) first_word = Some ''7''" by code_simp
  have via: "hdr_get_all (msg_headers example_invite) ''Via''
      = Some [''SIP/2.0/UDP p.example;branch=z9hG4bK-2'', ''SIP/2.0/UDP a.example;branch=z9hG4bK-1'']"
    by code_simp
  obtain rl where rl: "msg_start_line example_invite = Request rl" by (simp add: example_invite_def)
  from build_cancel_spec [OF rl wf num, of "[''SIP;cause=200'']"] show ?thesis
    by (auto simp: Let_def header_keys via)
qed

subsection \<open>The contract of a transaction machine\<close>

text \<open>A machine run on a sequence of events, with what each call takes from outside.\<close>

fun run_machine :: "('x \<Rightarrow> 's \<Rightarrow> 'e \<Rightarrow> 's \<times> action list) \<Rightarrow> 's \<Rightarrow> ('x \<times> 'e) list \<Rightarrow> 's \<times> action list" where
  "run_machine step s [] = (s, [])"
| "run_machine step s ((x, e) # es) =
     (let (s', as) = step x s e; (s'', bs) = run_machine step s' es in (s'', as @ bs))"

text \<open>The same run with the actions of each call kept apart.\<close>

fun trace_machine :: "('x \<Rightarrow> 's \<Rightarrow> 'e \<Rightarrow> 's \<times> action list) \<Rightarrow> 's \<Rightarrow> ('x \<times> 'e) list \<Rightarrow> ('x \<times> 'e \<times> action list) list" where
  "trace_machine step s [] = []"
| "trace_machine step s ((x, e) # es) =
     (let (s', as) = step x s e in (x, e, as) # trace_machine step s' es)"

text \<open>The messages among some actions, in order.\<close>

fun sent :: "action list \<Rightarrow> sip_message list" where
  "sent [] = []"
| "sent (SendMessage m # as) = m # sent as"
| "sent (_ # as) = sent as"

lemma sent_append [simp]: "sent (as @ bs) = sent as @ sent bs"
  by (induction as rule: sent.induct) auto

lemma run_machine_append:
  "run_machine step s (es @ fs) =
     (let (u, a) = run_machine step s es; (v, b) = run_machine step u fs in (v, a @ b))"
  by (induction es arbitrary: s) (simp_all add: Let_def split_beta split_paired_all)

text \<open>Induction on a run from its end, with the run so far, its actions and its state.\<close>

lemma run_machine_induct [consumes 1, case_names start step]:
  assumes "run_machine step s0 es = (s, as)" and "P [] [] s0"
    and "\<And>es as s x e s' bs. run_machine step s0 es = (s, as) \<Longrightarrow> P es as s \<Longrightarrow> step x s e = (s', bs) \<Longrightarrow>
           P (es @ [(x, e)]) (as @ bs) s'"
  shows "P es as s"
  using assms(1)
proof (induction es arbitrary: s as rule: rev_induct)
  case (snoc xe es)
  obtain x e where xe: "xe = (x, e)" by (cases xe)
  obtain s1 a1 where run: "run_machine step s0 es = (s1, a1)" by (cases "run_machine step s0 es")
  obtain s2 a2 where step: "step x s1 e = (s2, a2)" by (cases "step x s1 e")
  have "s = s2" "as = a1 @ a2" using snoc.prems by (auto simp: run_machine_append run xe step)
  with assms(3) [OF run snoc.IH [OF run] step] show ?case by (simp add: xe)
qed (use assms(2) in simp)

text \<open>
  \<open>over\<close> is the machine's end: it is silent there, it gets there exactly with the action
  \<^const>\<open>Terminated\<close>, which it emits once, and nothing but the cancelling of a timer follows that
  action.  The manager drops a transaction on \<^const>\<open>Terminated\<close>, which is right because of this.
\<close>

fun is_cancel_timer :: "action \<Rightarrow> bool" where
  "is_cancel_timer (CancelTimer _) = True"
| "is_cancel_timer _ = False"

fun quiet_tail :: "action list \<Rightarrow> bool" where
  "quiet_tail [] = True"
| "quiet_tail (a # as) = (if a = Terminated then list_all is_cancel_timer as else quiet_tail as)"

lemma no_end_in_cancels: "list_all is_cancel_timer as \<Longrightarrow> count_list as Terminated = 0"
  by (induction as) auto

lemma quiet_count: "quiet_tail as \<Longrightarrow> count_list as Terminated \<le> 1"
  by (induction as) (auto simp: no_end_in_cancels split: if_splits)

locale tx_machine =
  fixes step :: "'x \<Rightarrow> 's \<Rightarrow> 'e \<Rightarrow> 's \<times> action list"
    and over :: "'s \<Rightarrow> bool"
    and inv :: "'s \<Rightarrow> bool"
  assumes inv_step: "inv s \<Longrightarrow> step x s e = (s', as) \<Longrightarrow> inv s'"
    and over_silent: "inv s \<Longrightarrow> over s \<Longrightarrow> step x s e = (s', as) \<Longrightarrow> over s' \<and> as = []"
    and ends_iff: "inv s \<Longrightarrow> \<not> over s \<Longrightarrow> step x s e = (s', as) \<Longrightarrow> over s' \<longleftrightarrow> Terminated \<in> set as"
    and ends_quiet: "inv s \<Longrightarrow> step x s e = (s', as) \<Longrightarrow> quiet_tail as"
begin

lemma run_inv: "inv s \<Longrightarrow> run_machine step s es = (s', as) \<Longrightarrow> inv s'"
proof (induction es arbitrary: s as)
  case (Cons xe es)
  obtain x e where xe: "xe = (x, e)" by (cases xe)
  obtain s1 a1 where step: "step x s e = (s1, a1)" by (cases "step x s e")
  obtain s2 a2 where run: "run_machine step s1 es = (s2, a2)" by (cases "run_machine step s1 es")
  from Cons.prems(2) have "s' = s2" by (simp add: xe step run)
  with Cons.IH [OF inv_step [OF Cons.prems(1) step]] run show ?case by simp
qed simp

lemma run_over: "inv s \<Longrightarrow> over s \<Longrightarrow> run_machine step s es = (s', as) \<Longrightarrow> over s' \<and> as = []"
proof (induction es arbitrary: s as)
  case (Cons xe es)
  obtain x e where xe: "xe = (x, e)" by (cases xe)
  obtain s1 a1 where step: "step x s e = (s1, a1)" by (cases "step x s e")
  obtain s2 a2 where run: "run_machine step s1 es = (s2, a2)" by (cases "run_machine step s1 es")
  have "over s1" "a1 = []" using over_silent [OF Cons.prems(1,2) step] by auto
  then show ?case
    using Cons.IH [OF inv_step [OF Cons.prems(1) step]] run Cons.prems(3) by (simp add: xe step)
qed simp

theorem run_ends:
  assumes "inv s" and "\<not> over s" and "run_machine step s es = (s', as)"
  shows "(over s' \<longleftrightarrow> Terminated \<in> set as) \<and> count_list as Terminated \<le> 1"
  using assms
proof (induction es arbitrary: s as)
  case (Cons xe es)
  obtain x e where xe: "xe = (x, e)" by (cases xe)
  obtain s1 a1 where step: "step x s e = (s1, a1)" by (cases "step x s e")
  obtain s2 a2 where run: "run_machine step s1 es = (s2, a2)" by (cases "run_machine step s1 es")
  have res: "s' = s2" "as = a1 @ a2" using Cons.prems(3) by (auto simp: xe step run)
  have inv1: "inv s1" using inv_step Cons.prems(1) step by blast
  have one: "count_list a1 Terminated \<le> 1"
    using quiet_count ends_quiet Cons.prems(1) step by blast
  have iff: "over s1 \<longleftrightarrow> Terminated \<in> set a1" using ends_iff Cons.prems(1,2) step by blast
  show ?case
  proof (cases "over s1")
    case True
    then have "over s2" "a2 = []" using run_over [OF inv1 True run] by auto
    then show ?thesis using res iff one True by simp
  next
    case False
    then have "count_list a1 Terminated = 0" using iff by (simp add: count_list_0_iff)
    then show ?thesis using res iff False Cons.IH [OF inv1 False] run by simp
  qed
qed simp

text \<open>Events after the end change nothing and produce nothing.\<close>

theorem run_after_end:
  assumes "inv s" and "\<not> over s" and "run_machine step s es = (s', as)" and "Terminated \<in> set as"
  shows "\<exists>s''. run_machine step s (es @ fs) = (s'', as) \<and> over s''"
proof -
  obtain s2 a2 where run: "run_machine step s' fs = (s2, a2)" by (cases "run_machine step s' fs")
  have "over s'" using run_ends [OF assms(1-3)] assms(4) by blast
  then have "over s2" "a2 = []" using run_over [OF run_inv [OF assms(1,3)] _ run] by auto
  then show ?thesis by (simp add: run_machine_append assms(3) run)
qed

end

text \<open>
  A machine that keeps the last message it sent: unless \<open>fresh\<close> says that an event brings a new
  message, what it sends is that one again.
\<close>

locale retransmitting = tx_machine step over inv
  for step :: "'x \<Rightarrow> 's \<Rightarrow> 'e \<Rightarrow> 's \<times> action list" and over :: "'s \<Rightarrow> bool" and inv :: "'s \<Rightarrow> bool" +
  fixes kept :: "'s \<Rightarrow> sip_message option"
    and fresh :: "'e \<Rightarrow> bool"
  assumes kept_step: "inv s \<Longrightarrow> step x s e = (s', as) \<Longrightarrow> \<not> over s' \<Longrightarrow>
      kept s' = (if sent as = [] then kept s else Some (last (sent as)))"
    and resend: "inv s \<Longrightarrow> step x s e = (s', as) \<Longrightarrow> \<not> fresh e \<Longrightarrow>
      sent as = [] \<or> (\<exists>m. kept s = Some m \<and> sent as = [m])"
begin

lemma kept_last:
  assumes "inv s" and "kept s = None" and "run_machine step s es = (s', as)" and "\<not> over s'"
  shows "kept s' = (if sent as = [] then None else Some (last (sent as)))"
proof -
  have "\<not> over s' \<longrightarrow> kept s' = (if sent as = [] then None else Some (last (sent as)))"
    using assms(3)
  proof (induction rule: run_machine_induct)
    case (step es as s1 x e s2 bs)
    have inv1: "inv s1" by (rule run_inv [OF assms(1) step.hyps(1)])
    have "over s1 \<Longrightarrow> over s2" using over_silent [OF inv1 _ step.hyps(2)] by blast
    with step.IH kept_step [OF inv1 step.hyps(2)] show ?case by auto
  qed (use assms(2) in simp)
  with assms(4) show ?thesis by blast
qed

theorem resends_last:
  assumes "inv s" and "kept s = None" and "run_machine step s es = (s', as)"
    and "step x s' e = (s'', bs)" and "\<not> fresh e" and "sent bs \<noteq> []"
  shows "sent as \<noteq> [] \<and> sent bs = [last (sent as)]"
proof -
  have inv': "inv s'" by (rule run_inv [OF assms(1,3)])
  have "\<not> over s'" using over_silent [OF inv' _ assms(4)] assms(6) by auto
  then have "kept s' = (if sent as = [] then None else Some (last (sent as)))"
    by (rule kept_last [OF assms(1-3)])
  then show ?thesis using resend [OF inv' assms(4,5)] assms(6) by (auto split: if_splits)
qed

end

end
