(* ===== verification/Tx_Server.thy ===== *)
theory Tx_Server
  imports Tx_Actions
begin

text \<open>
  The server transactions of \<^verbatim>\<open>src/src/transaction/state.rs\<close>: the non-INVITE machine \<^verbatim>\<open>Nist\<close>
  and the INVITE machine \<^verbatim>\<open>Ist\<close>.  \<^verbatim>\<open>process\<close> is a function of the state and the event; the
  UUID a call may draw comes with the call.  Both machines satisfy the contract
  \<open>tx_machine\<close>; the lemmas are about the To-tag, the retransmissions and the ACK.
\<close>

subsection \<open>Non-INVITE server transaction\<close>

datatype nist_state = NistTrying | NistProceeding | NistCompleted | NistTerminated

datatype nist_event =
    NistRequestRetransmit sip_message
  | NistTuProvisional sip_message
  | NistTuFinal sip_message
  | NistTimerJ
  | NistTrying100Fired

record nist =
  nist_state :: nist_state
  nist_transport :: transport
  nist_timers :: timer_config
  nist_last_response :: "sip_message option"
  nist_original_request :: sip_message
  nist_uas_to_tag :: "string option"

definition nist_new :: "sip_message \<Rightarrow> transport \<Rightarrow> timer_config \<Rightarrow> nist \<times> action list" where
  "nist_new request tp timers =
     (\<lparr>nist_state = NistTrying, nist_transport = tp, nist_timers = timers,
       nist_last_response = None, nist_original_request = request, nist_uas_to_tag = None\<rparr>,
      if auto_100_trying timers
      then [StartTimer T_Trying100 (nist_auto_100_delay timers (tp = Reliable))] else [])"

definition resend_last :: "sip_message option \<Rightarrow> action list" where
  "resend_last last_response = (case last_response of Some response \<Rightarrow> [SendMessage response] | None \<Rightarrow> [])"

definition nist_timer_j :: "nist \<Rightarrow> duration" where
  "nist_timer_j n = (case nist_transport n of Udp \<Rightarrow> timer_j_udp (nist_timers n)
                                           | Reliable \<Rightarrow> timer_j_tcp (nist_timers n))"

definition nist_process :: "tag_env \<Rightarrow> nist \<Rightarrow> nist_event \<Rightarrow> nist \<times> action list" where
  "nist_process env n event =
     (case nist_state n of
        NistTrying \<Rightarrow>
          (case event of
             NistRequestRetransmit _ \<Rightarrow> (n, [])
           | NistTuProvisional response0 \<Rightarrow>
             (let (response, tag) = stamp_uas_to_tag env response0 (nist_uas_to_tag n)
              in (n\<lparr>nist_state := NistProceeding, nist_last_response := Some response,
                    nist_uas_to_tag := tag\<rparr>,
                  (if auto_100_trying (nist_timers n) then [CancelTimer T_Trying100] else [])
                  @ [SendMessage response]))
           | NistTuFinal response0 \<Rightarrow>
             (let (response, tag) = stamp_uas_to_tag env response0 (nist_uas_to_tag n);
                  timer_j = nist_timer_j n
              in (n\<lparr>nist_state := if timer_j = 0 then NistTerminated else NistCompleted,
                    nist_last_response := Some response, nist_uas_to_tag := tag\<rparr>,
                  (if auto_100_trying (nist_timers n) then [CancelTimer T_Trying100] else [])
                  @ [SendMessage response]
                  @ (if timer_j = 0 then [Terminated] else [StartTimer T_J timer_j])))
           | NistTrying100Fired \<Rightarrow>
             (let trying = build_response_skeleton (nist_original_request n) 100 ''Trying''
              in (n\<lparr>nist_state := NistProceeding, nist_last_response := Some trying\<rparr>,
                  [SendMessage trying]))
           | _ \<Rightarrow> (n, []))
      | NistProceeding \<Rightarrow>
          (case event of
             NistRequestRetransmit _ \<Rightarrow> (n, resend_last (nist_last_response n))
           | NistTuProvisional response0 \<Rightarrow>
             (let (response, tag) = stamp_uas_to_tag env response0 (nist_uas_to_tag n)
              in (n\<lparr>nist_last_response := Some response, nist_uas_to_tag := tag\<rparr>,
                  [SendMessage response]))
           | NistTuFinal response0 \<Rightarrow>
             (let (response, tag) = stamp_uas_to_tag env response0 (nist_uas_to_tag n);
                  timer_j = nist_timer_j n
              in (n\<lparr>nist_state := if timer_j = 0 then NistTerminated else NistCompleted,
                    nist_last_response := Some response, nist_uas_to_tag := tag\<rparr>,
                  [SendMessage response]
                  @ (if timer_j = 0 then [Terminated] else [StartTimer T_J timer_j])))
           | _ \<Rightarrow> (n, []))
      | NistCompleted \<Rightarrow>
          (case event of
             NistRequestRetransmit _ \<Rightarrow> (n, resend_last (nist_last_response n))
           | NistTimerJ \<Rightarrow> (n\<lparr>nist_state := NistTerminated\<rparr>, [Terminated])
           | _ \<Rightarrow> (n, []))
      | NistTerminated \<Rightarrow> (n, []))"

subsection \<open>INVITE server transaction\<close>

datatype ist_state = IstProceeding | IstCompleted | IstConfirmed | IstTerminated | IstAccepted

datatype ist_event =
    IstInviteRetransmit sip_message
  | IstTuProvisional sip_message
  | IstTu2xx sip_message
  | IstTuNon2xxFinal sip_message
  | IstAckReceived sip_message
  | IstTimerG
  | IstTimerH
  | IstTimerI

record ist =
  ist_state :: ist_state
  ist_transport :: transport
  ist_timers :: timer_config
  ist_last_response :: "sip_message option"
  timer_g_interval :: duration
  ist_uas_to_tag :: "string option"

definition ist_new :: "transport \<Rightarrow> timer_config \<Rightarrow> ist" where
  "ist_new tp timers =
     \<lparr>ist_state = IstProceeding, ist_transport = tp, ist_timers = timers,
      ist_last_response = None, timer_g_interval = timer_g_initial timers, ist_uas_to_tag = None\<rparr>"

definition ist_timer_i :: "ist \<Rightarrow> duration" where
  "ist_timer_i i = (case ist_transport i of Udp \<Rightarrow> timer_i_udp (ist_timers i)
                                         | Reliable \<Rightarrow> timer_i_tcp (ist_timers i))"

definition ist_process :: "tag_env \<Rightarrow> ist \<Rightarrow> ist_event \<Rightarrow> ist \<times> action list" where
  "ist_process env i event =
     (case ist_state i of
        IstProceeding \<Rightarrow>
          (case event of
             IstInviteRetransmit _ \<Rightarrow> (i, resend_last (ist_last_response i))
           | IstTuProvisional response0 \<Rightarrow>
             (let (response, tag) = stamp_uas_to_tag env response0 (ist_uas_to_tag i)
              in (i\<lparr>ist_last_response := Some response, ist_uas_to_tag := tag\<rparr>,
                  [SendMessage response]))
           | IstTu2xx response0 \<Rightarrow>
             (let (response, tag) = stamp_uas_to_tag env response0 (ist_uas_to_tag i)
              in (i\<lparr>ist_state := IstAccepted, ist_uas_to_tag := tag\<rparr>,
                  [SendMessage response, Terminated]))
           | IstTuNon2xxFinal response0 \<Rightarrow>
             (let (response, tag) = stamp_uas_to_tag env response0 (ist_uas_to_tag i);
                  i' = i\<lparr>ist_state := IstCompleted, ist_last_response := Some response,
                         ist_uas_to_tag := tag\<rparr>;
                  actions = [SendMessage response, StartTimer T_H (timer_h (ist_timers i))]
              in if ist_transport i = Udp
                 then (i'\<lparr>timer_g_interval := timer_g_initial (ist_timers i)\<rparr>,
                       actions @ [StartTimer T_G (timer_g_initial (ist_timers i))])
                 else (i', actions))
           | _ \<Rightarrow> (i, []))
      | IstCompleted \<Rightarrow>
          (case event of
             IstInviteRetransmit _ \<Rightarrow> (i, resend_last (ist_last_response i))
           | IstTimerG \<Rightarrow>
             (case ist_last_response i of
                Some response \<Rightarrow>
                  (let g = next_retransmit (ist_timers i) (timer_g_interval i)
                   in (i\<lparr>timer_g_interval := g\<rparr>, [SendMessage response, StartTimer T_G g]))
              | None \<Rightarrow> (i, []))
           | IstTimerH \<Rightarrow>
             (i\<lparr>ist_state := IstTerminated\<rparr>, [CancelTimer T_G, Timeout, Terminated])
           | IstAckReceived _ \<Rightarrow>
             (let timer_i = ist_timer_i i
              in (i\<lparr>ist_state := if timer_i = 0 then IstTerminated else IstConfirmed\<rparr>,
                  [CancelTimer T_G, CancelTimer T_H]
                  @ (if timer_i = 0 then [Terminated] else [StartTimer T_I timer_i])))
           | _ \<Rightarrow> (i, []))
      | IstConfirmed \<Rightarrow>
          (case event of
             IstAckReceived _ \<Rightarrow> (i, [])
           | IstTimerI \<Rightarrow> (i\<lparr>ist_state := IstTerminated\<rparr>, [Terminated])
           | _ \<Rightarrow> (i, []))
      | IstAccepted \<Rightarrow> (i, [])
      | IstTerminated \<Rightarrow> (i, []))"

subsection \<open>Both machines satisfy the contract\<close>

definition nist_over :: "nist \<Rightarrow> bool" where
  "nist_over n \<longleftrightarrow> nist_state n = NistTerminated"

definition ist_over :: "ist \<Rightarrow> bool" where
  "ist_over i \<longleftrightarrow> ist_state i \<in> {IstAccepted, IstTerminated}"

lemma resend_last_no_end [simp]:
  "Terminated \<notin> set (resend_last r)" "quiet_tail (resend_last r)"
  by (auto simp: resend_last_def split: option.splits)

lemmas server_simps = nist_process_def ist_process_def nist_over_def ist_over_def Let_def

interpretation nist: tx_machine nist_process nist_over "\<lambda>_. True"
proof unfold_locales
  fix x n e n' as
  show "nist_over n \<Longrightarrow> nist_process x n e = (n', as) \<Longrightarrow> nist_over n' \<and> as = []"
    by (auto simp: server_simps)
  show "\<not> nist_over n \<Longrightarrow> nist_process x n e = (n', as) \<Longrightarrow> nist_over n' \<longleftrightarrow> Terminated \<in> set as"
    by (cases "nist_state n"; cases e) (auto simp: server_simps split: prod.splits if_splits)
  show "nist_process x n e = (n', as) \<Longrightarrow> quiet_tail as"
    by (cases "nist_state n"; cases e) (auto simp: server_simps split: prod.splits if_splits)
qed

interpretation ist: tx_machine ist_process ist_over "\<lambda>_. True"
proof unfold_locales
  fix x i e i' as
  show "ist_over i \<Longrightarrow> ist_process x i e = (i', as) \<Longrightarrow> ist_over i' \<and> as = []"
    by (auto simp: server_simps)
  show "\<not> ist_over i \<Longrightarrow> ist_process x i e = (i', as) \<Longrightarrow> ist_over i' \<longleftrightarrow> Terminated \<in> set as"
    by (cases "ist_state i"; cases e) (auto simp: server_simps split: prod.splits if_splits option.splits)
  show "ist_process x i e = (i', as) \<Longrightarrow> quiet_tail as"
    by (cases "ist_state i"; cases e)
      (auto simp: server_simps split: prod.splits if_splits option.splits)
qed

fun nist_fresh :: "nist_event \<Rightarrow> bool" where
  "nist_fresh (NistTuProvisional _) = True"
| "nist_fresh (NistTuFinal _) = True"
| "nist_fresh NistTrying100Fired = True"
| "nist_fresh _ = False"

fun ist_fresh :: "ist_event \<Rightarrow> bool" where
  "ist_fresh (IstTuProvisional _) = True"
| "ist_fresh (IstTu2xx _) = True"
| "ist_fresh (IstTuNon2xxFinal _) = True"
| "ist_fresh _ = False"

lemma sent_resend_last: "sent (resend_last r) = (case r of None \<Rightarrow> [] | Some m \<Rightarrow> [m])"
  by (simp add: resend_last_def split: option.split)

interpretation nist: retransmitting nist_process nist_over "\<lambda>_. True" nist_last_response nist_fresh
proof unfold_locales
  fix x n e n' as
  show "nist_process x n e = (n', as) \<Longrightarrow> \<not> nist_over n' \<Longrightarrow>
      nist_last_response n' = (if sent as = [] then nist_last_response n else Some (last (sent as)))"
    by (cases "nist_state n"; cases e)
      (auto simp: server_simps sent_resend_last split: prod.splits if_splits option.splits)
  show "nist_process x n e = (n', as) \<Longrightarrow> \<not> nist_fresh e \<Longrightarrow>
      sent as = [] \<or> (\<exists>m. nist_last_response n = Some m \<and> sent as = [m])"
    by (cases "nist_state n"; cases e)
      (auto simp: server_simps sent_resend_last split: prod.splits if_splits option.splits)
qed

interpretation ist: retransmitting ist_process ist_over "\<lambda>_. True" ist_last_response ist_fresh
proof unfold_locales
  fix x i e i' as
  show "ist_process x i e = (i', as) \<Longrightarrow> \<not> ist_over i' \<Longrightarrow>
      ist_last_response i' = (if sent as = [] then ist_last_response i else Some (last (sent as)))"
    by (cases "ist_state i"; cases e)
      (auto simp: server_simps sent_resend_last split: prod.splits if_splits option.splits)
  show "ist_process x i e = (i', as) \<Longrightarrow> \<not> ist_fresh e \<Longrightarrow>
      sent as = [] \<or> (\<exists>m. ist_last_response i = Some m \<and> sent as = [m])"
    by (cases "ist_state i"; cases e)
      (auto simp: server_simps sent_resend_last split: prod.splits if_splits option.splits)
qed

subsection \<open>One To-tag per transaction\<close>

definition with_to_tag :: "nameaddr \<Rightarrow> string \<Rightarrow> sip_message \<Rightarrow> sip_message" where
  "with_to_tag n t m =
     m\<lparr>msg_headers := hdr_set (msg_headers m) ''To'' (show_nameaddr (n\<lparr>na_tag := Some t\<rparr>))\<rparr>"

text \<open>
  A machine that stamps the responses of its user: \<open>tag\<close> is the cached To-tag, \<open>tu\<close> the response
  an event brings, if it brings one.
\<close>

locale uas_machine =
  fixes step :: "tag_env \<Rightarrow> 's \<Rightarrow> 'e \<Rightarrow> 's \<times> action list"
    and tag :: "'s \<Rightarrow> string option"
    and tu :: "'e \<Rightarrow> sip_message option"
  assumes tag_step: "step x s e = (s', as) \<Longrightarrow>
      tag s' = (case tu e of None \<Rightarrow> tag s
                | Some m \<Rightarrow> if as = [] then tag s else snd (stamp_uas_to_tag x m (tag s)))"
    and tag_send: "step x s e = (s', as) \<Longrightarrow> tu e = Some m \<Longrightarrow> as \<noteq> [] \<Longrightarrow>
      SendMessage (fst (stamp_uas_to_tag x m (tag s))) \<in> set as"
begin

definition tagged :: "string \<Rightarrow> (tag_env \<times> 'e \<times> action list) list \<Rightarrow> bool" where
  "tagged t tr \<longleftrightarrow> (\<forall>(x, e, as) \<in> set tr. \<forall>m n. tu e = Some m \<longrightarrow> needs_to_tag x m = Some n \<longrightarrow>
     as \<noteq> [] \<longrightarrow> SendMessage (with_to_tag n t m) \<in> set as)"

lemma tag_kept: "step x s e = (s', as) \<Longrightarrow> tag s = Some t \<Longrightarrow> tag s' = Some t"
  using tag_step [of x s e s' as] stamp_cache_kept [of x _ t]
  by (auto split: option.splits if_splits) (metis prod.collapse)

lemma step_tagged:
  assumes "step x s e = (s', as)" and "tu e = Some m" and "needs_to_tag x m = Some n" and "as \<noteq> []"
  shows "\<exists>t. tag s' = Some t \<and> SendMessage (with_to_tag n t m) \<in> set as"
  using tag_step [OF assms(1)] tag_send [OF assms(1,2,4)] stamp_stamped [OF assms(3) refl, of "tag s"] assms(2,4)
  by (auto simp: with_to_tag_def)

lemma trace_tagged: "tag s = Some t \<Longrightarrow> tagged t (trace_machine step s es)"
proof (induction es arbitrary: s)
  case (Cons xe es)
  obtain x e where xe: "xe = (x, e)" by (cases xe)
  obtain s1 a1 where step: "step x s e = (s1, a1)" by (cases "step x s e")
  have t1: "tag s1 = Some t" by (rule tag_kept [OF step Cons.prems])
  have "tagged t [(x, e, a1)]"
    unfolding tagged_def using step_tagged [OF step] t1 by auto
  with Cons.IH [OF t1] show ?case by (auto simp: xe step tagged_def)
qed (simp add: tagged_def)

theorem one_tag: "\<exists>t. tagged t (trace_machine step s es)"
proof (induction es arbitrary: s)
  case (Cons xe es)
  obtain x e where xe: "xe = (x, e)" by (cases xe)
  obtain s1 a1 where step: "step x s e = (s1, a1)" by (cases "step x s e")
  show ?case
  proof (cases "tag s1")
    case None
    then have "tagged t [(x, e, a1)]" for t
      unfolding tagged_def using step_tagged [OF step] by fastforce
    with Cons.IH [of s1] show ?thesis by (auto simp: xe step tagged_def)
  next
    case (Some t)
    then have "tagged t [(x, e, a1)]"
      unfolding tagged_def using step_tagged [OF step] by auto
    with trace_tagged [OF Some, of es] show ?thesis by (auto simp: xe step tagged_def)
  qed
qed (simp add: tagged_def)

end

fun nist_tu :: "nist_event \<Rightarrow> sip_message option" where
  "nist_tu (NistTuProvisional m) = Some m"
| "nist_tu (NistTuFinal m) = Some m"
| "nist_tu _ = None"

fun ist_tu :: "ist_event \<Rightarrow> sip_message option" where
  "ist_tu (IstTuProvisional m) = Some m"
| "ist_tu (IstTu2xx m) = Some m"
| "ist_tu (IstTuNon2xxFinal m) = Some m"
| "ist_tu _ = None"

interpretation nist_uas: uas_machine nist_process nist_uas_to_tag nist_tu
proof unfold_locales
  fix x n e n' as m
  show "nist_process x n e = (n', as) \<Longrightarrow> nist_uas_to_tag n' =
      (case nist_tu e of None \<Rightarrow> nist_uas_to_tag n
       | Some m \<Rightarrow> if as = [] then nist_uas_to_tag n else snd (stamp_uas_to_tag x m (nist_uas_to_tag n)))"
    by (cases "nist_state n"; cases e) (auto simp: server_simps split: prod.splits)
  show "nist_process x n e = (n', as) \<Longrightarrow> nist_tu e = Some m \<Longrightarrow> as \<noteq> [] \<Longrightarrow>
      SendMessage (fst (stamp_uas_to_tag x m (nist_uas_to_tag n))) \<in> set as"
    by (cases "nist_state n"; cases e) (auto simp: server_simps split: prod.splits)
qed

interpretation ist_uas: uas_machine ist_process ist_uas_to_tag ist_tu
proof unfold_locales
  fix x i e i' as m
  show "ist_process x i e = (i', as) \<Longrightarrow> ist_uas_to_tag i' =
      (case ist_tu e of None \<Rightarrow> ist_uas_to_tag i
       | Some m \<Rightarrow> if as = [] then ist_uas_to_tag i else snd (stamp_uas_to_tag x m (ist_uas_to_tag i)))"
    by (cases "ist_state i"; cases e) (auto simp: server_simps split: prod.splits option.splits if_splits)
  show "ist_process x i e = (i', as) \<Longrightarrow> ist_tu e = Some m \<Longrightarrow> as \<noteq> [] \<Longrightarrow>
      SendMessage (fst (stamp_uas_to_tag x m (ist_uas_to_tag i))) \<in> set as"
    by (cases "ist_state i"; cases e) (auto simp: server_simps split: prod.splits option.splits if_splits)
qed

subsection \<open>Properties\<close>

text \<open>
  C17. One To-tag per server transaction: over every sequence of events from the start there is
  one tag such that every response of the transaction user that is not a 100 and whose To
  parses and has no tag leaves with that tag in its To, whether provisional or final, for
  INVITE and for other requests (RFC 3261 section 8.2.6.2).
\<close>

theorem server_one_to_tag:
  "(\<exists>t. \<forall>(x, e, as) \<in> set (trace_machine ist_process (ist_new tp tc) es). \<forall>m n.
      ist_tu e = Some m \<longrightarrow> needs_to_tag x m = Some n \<longrightarrow> as \<noteq> [] \<longrightarrow>
      SendMessage (with_to_tag n t m) \<in> set as)
   \<and> (\<exists>t. \<forall>(x, e, as) \<in> set (trace_machine nist_process (fst (nist_new request tp tc)) fs). \<forall>m n.
      nist_tu e = Some m \<longrightarrow> needs_to_tag x m = Some n \<longrightarrow> as \<noteq> [] \<longrightarrow>
      SendMessage (with_to_tag n t m) \<in> set as)"
  using ist_uas.one_tag [of "ist_new tp tc" es] nist_uas.one_tag [of "fst (nist_new request tp tc)" fs]
  unfolding ist_uas.tagged_def nist_uas.tagged_def by blast

theorem server_one_to_tag_witness:
  "\<exists>t n. needs_to_tag example_env (example_reply 180 ''Ringing'') = Some n
     \<and> (\<forall>(x, e, as) \<in> set (trace_machine ist_process (ist_new Udp timers_default)
          [(example_env, IstTuProvisional (example_reply 180 ''Ringing'')),
           (example_env2, IstTuNon2xxFinal (example_reply 486 ''Busy Here''))]).
          \<forall>m n. ist_tu e = Some m \<longrightarrow> needs_to_tag x m = Some n \<longrightarrow> as \<noteq> [] \<longrightarrow>
            SendMessage (with_to_tag n t m) \<in> set as)"
proof -
  have "needs_to_tag example_env (example_reply 180 ''Ringing'') \<noteq> None" by code_simp
  then obtain n where "needs_to_tag example_env (example_reply 180 ''Ringing'') = Some n" by blast
  with server_one_to_tag [of Udp timers_default
      "[(example_env, IstTuProvisional (example_reply 180 ''Ringing'')),
        (example_env2, IstTuNon2xxFinal (example_reply 486 ''Busy Here''))]"]
  show ?thesis by blast
qed

text \<open>
  A retransmission repeats what was sent: after any sequence of events from the start, a
  server transaction that sends a message on anything but a response of its user (or, for a
  non-INVITE request, the automatic 100) sends exactly one, the last message it sent.
\<close>

theorem server_resends_last:
  "(run_machine ist_process (ist_new tp tc) es = (i, as) \<longrightarrow> ist_process x i e = (i', bs) \<longrightarrow>
      \<not> ist_fresh e \<longrightarrow> sent bs \<noteq> [] \<longrightarrow> sent as \<noteq> [] \<and> sent bs = [last (sent as)])
   \<and> (run_machine nist_process (fst (nist_new request tp tc)) fs = (n, cs) \<longrightarrow>
      nist_process x n f = (n', ds) \<longrightarrow> \<not> nist_fresh f \<longrightarrow> sent ds \<noteq> [] \<longrightarrow>
      sent cs \<noteq> [] \<and> sent ds = [last (sent cs)])"
  using ist.resends_last [of "ist_new tp tc" es i as x e i' bs]
    nist.resends_last [of "fst (nist_new request tp tc)" fs n cs x f n' ds]
  by (auto simp: ist_new_def nist_new_def)

theorem server_resends_last_witness:
  "sent (snd (ist_process example_env (fst (ist_process example_env (ist_new Udp timers_default)
      (IstTuNon2xxFinal (example_reply 486 ''Busy Here'')))) IstTimerG))
   = [last (sent (snd (run_machine ist_process (ist_new Udp timers_default)
        [(example_env, IstTuNon2xxFinal (example_reply 486 ''Busy Here''))])))]"
proof -
  let ?es = "[(example_env, IstTuNon2xxFinal (example_reply 486 ''Busy Here''))]"
  let ?r = "run_machine ist_process (ist_new Udp timers_default) ?es"
  let ?s = "ist_process example_env (fst ?r) IstTimerG"
  have fst: "fst ?r = fst (ist_process example_env (ist_new Udp timers_default)
      (IstTuNon2xxFinal (example_reply 486 ''Busy Here'')))"
    by (simp add: Let_def split_beta)
  have "sent (snd ?s) \<noteq> []" by code_simp
  then show ?thesis
    using server_resends_last [of Udp timers_default ?es "fst ?r" "snd ?r" example_env IstTimerG "fst ?s" "snd ?s"]
    unfolding fst by simp
qed

text \<open>
  Retransmission of a final response over an unreliable transport: a 3xx to 6xx response
  is sent once, with Timer H at 64*T1 and Timer G at T1; then, for as long as neither the ACK
  nor Timer H comes, the k-th Timer G sends the same response again and waits
  min (2^k * T1) T2 (RFC 3261 section 17.2.1).
\<close>

theorem ist_timer_g_schedule:
  "let (i, as) = ist_process x (ist_new Udp tc) (IstTuNon2xxFinal response);
       r = fst (stamp_uas_to_tag x response None)
   in as = [SendMessage r, StartTimer T_H (64 * t1 tc), StartTimer T_G (t1 tc)]
    \<and> ist_state i = IstCompleted
    \<and> snd (run_machine ist_process i (map (\<lambda>y. (y, IstTimerG)) ys))
      = concat (map (\<lambda>k. [SendMessage r, StartTimer T_G (min (2 ^ k * t1 tc) (t2 tc))]) [1..<Suc (length ys)])"
proof -
  have steps: "snd (run_machine ist_process i (map (\<lambda>y. (y, IstTimerG)) ys))
      = concat (map (\<lambda>k. [SendMessage r, StartTimer T_G (retransmit_interval tc (Suc k))]) [j..<j + length ys])"
    if "ist_state i = IstCompleted" "ist_last_response i = Some r" "ist_timers i = tc"
      "timer_g_interval i = retransmit_interval tc j" for i r j
    using that
  proof (induction ys arbitrary: i j)
    case (Cons y ys)
    let ?g = "retransmit_interval tc (Suc j)"
    have step: "ist_process y i IstTimerG = (i\<lparr>timer_g_interval := ?g\<rparr>, [SendMessage r, StartTimer T_G ?g])"
      using Cons.prems by (simp add: ist_process_def Let_def)
    have "snd (run_machine ist_process (i\<lparr>timer_g_interval := ?g\<rparr>) (map (\<lambda>y. (y, IstTimerG)) ys))
      = concat (map (\<lambda>k. [SendMessage r, StartTimer T_G (retransmit_interval tc (Suc k))]) [Suc j..<Suc j + length ys])"
      by (rule Cons.IH) (use Cons.prems in simp_all)
    moreover have "[j..<j + length (y # ys)] = j # [Suc j..<Suc j + length ys]"
      by (simp add: upt_conv_Cons del: upt_Suc)
    ultimately show ?case by (simp add: step split_beta del: retransmit_interval_Suc upt_Suc length_Cons)
  qed simp
  have shift: "map (\<lambda>k. f (Suc k)) [0..<n] = map f [1..<Suc n]" for f :: "nat \<Rightarrow> action list" and n
    by (rule nth_equalityI) (simp_all del: upt_Suc)
  show ?thesis
    using steps [of _ _ 0] shift [of "\<lambda>k. [SendMessage (fst (stamp_uas_to_tag x response None)), StartTimer T_G (min (2 ^ k * t1 tc) (t2 tc))]" "length ys"]
    by (simp add: ist_process_def ist_new_def Let_def split_beta timer_h_def timer_g_initial_def
        retransmit_interval_closed mult.commute del: retransmit_interval_Suc upt_Suc)
qed

end
