(* ===== verification/Tx_Client.thy ===== *)
theory Tx_Client
  imports Tx_Actions
begin

text \<open>
  The client transactions of \<^verbatim>\<open>src/src/transaction/state.rs\<close> and
  \<^verbatim>\<open>src/src/transaction/state/no_response.rs\<close>: the non-INVITE machine \<^verbatim>\<open>Nict\<close> and the INVITE
  machine \<^verbatim>\<open>Ict\<close> with its CANCEL, its ACK, Timer C and the no-response timer.  The clock read
  \<^verbatim>\<open>Instant::now()\<close> of a call comes with the call, as a number of nanoseconds on the axis of the
  monotonic clock.  The connection hold of a transaction is the connection it holds.
\<close>

type_synonym instant = int

text \<open>
  \<^verbatim>\<open>Instant::checked_sub\<close>, which fails below the range of the 64-bit seconds the clock counts.
\<close>

definition instant_min :: instant where
  "instant_min = - (2 ^ 63) * 1000000000"

definition instant_checked_sub :: "instant \<Rightarrow> duration \<Rightarrow> instant option" where
  "instant_checked_sub now d =
     (if now - int d < instant_min then None else Some (now - int d))"

definition saturating_duration_since :: "instant \<Rightarrow> instant \<Rightarrow> duration" where
  "saturating_duration_since later earlier = nat (later - earlier)"

datatype no_response_progress = NoRespOff | NoRespArmed | NoRespGaveUp

subsection \<open>Non-INVITE client transaction\<close>

datatype nict_state = NictTrying | NictProceeding | NictCompleted | NictTerminated

datatype nict_event =
    NictTimerE | NictTimerF | NictTimerK
  | NictProvisional sip_message
  | NictFinalResponse sip_message
  | NictNoResponse

record nict =
  nict_state :: nict_state
  nict_transport :: transport
  nict_timers :: timer_config
  nict_request_bytes :: bytes
  timer_e_interval :: duration
  nict_no_response :: no_response_progress
  nict_connection_hold :: "nat option"

definition nict_new :: "bytes \<Rightarrow> transport \<Rightarrow> timer_config \<Rightarrow> nict \<times> action list" where
  "nict_new request_bytes tp timers =
     (\<lparr>nict_state = NictTrying, nict_transport = tp, nict_timers = timers,
       nict_request_bytes = request_bytes, timer_e_interval = timer_e_initial timers,
       nict_no_response = NoRespOff, nict_connection_hold = None\<rparr>,
      [SendFrame request_bytes, StartTimer T_F (timer_f timers)]
      @ (if tp = Udp then [StartTimer T_E (timer_e_initial timers)] else []))"

definition nict_hold_connection :: "nict \<Rightarrow> nat \<Rightarrow> nict" where
  "nict_hold_connection n hold = n\<lparr>nict_connection_hold := Some hold\<rparr>"

definition nict_timer_k :: "nict \<Rightarrow> duration" where
  "nict_timer_k n = (case nict_transport n of Udp \<Rightarrow> timer_k_udp (nict_timers n)
                                           | Reliable \<Rightarrow> timer_k_tcp (nict_timers n))"

text \<open>A final response in \<^verbatim>\<open>Trying\<close> or \<^verbatim>\<open>Proceeding\<close>: the two branches of the source are the same.\<close>

definition nict_final :: "nict \<Rightarrow> sip_message \<Rightarrow> nict \<times> action list" where
  "nict_final n response =
     (let timer_k = nict_timer_k n
      in (n\<lparr>nict_state := if timer_k = 0 then NictTerminated else NictCompleted\<rparr>,
          [CancelTimer T_E, CancelTimer T_F, PassToTu response]
          @ (if timer_k = 0 then [Terminated] else [StartTimer T_K timer_k])))"

definition nict_advance :: "nict \<Rightarrow> nict_event \<Rightarrow> nict \<times> action list" where
  "nict_advance n event =
     (case nict_state n of
        NictTrying \<Rightarrow>
          (case event of
             NictTimerE \<Rightarrow>
               (let interval = next_retransmit (nict_timers n) (timer_e_interval n)
                in (n\<lparr>timer_e_interval := interval\<rparr>,
                    [SendFrame (nict_request_bytes n), StartTimer T_E interval]))
           | NictTimerF \<Rightarrow>
               (n\<lparr>nict_state := NictTerminated\<rparr>, [CancelTimer T_E, Timeout, Terminated])
           | NictProvisional response \<Rightarrow>
               (n\<lparr>nict_state := NictProceeding\<rparr>, [PassToTu response])
           | NictFinalResponse response \<Rightarrow> nict_final n response
           | _ \<Rightarrow> (n, []))
      | NictProceeding \<Rightarrow>
          (case event of
             NictTimerE \<Rightarrow>
               (n, [SendFrame (nict_request_bytes n), StartTimer T_E (t2 (nict_timers n))])
           | NictTimerF \<Rightarrow>
               (n\<lparr>nict_state := NictTerminated\<rparr>, [CancelTimer T_E, Timeout, Terminated])
           | NictProvisional response \<Rightarrow> (n, [PassToTu response])
           | NictFinalResponse response \<Rightarrow> nict_final n response
           | _ \<Rightarrow> (n, []))
      | NictCompleted \<Rightarrow>
          (case event of
             NictTimerK \<Rightarrow> (n\<lparr>nict_state := NictTerminated\<rparr>, [Terminated])
           | NictFinalResponse _ \<Rightarrow> (n, [])
           | _ \<Rightarrow> (n, []))
      | NictTerminated \<Rightarrow> (n, []))"

definition nict_process :: "nict \<Rightarrow> nict_event \<Rightarrow> nict \<times> action list" where
  "nict_process n event =
     (if nict_no_response n \<noteq> NoRespArmed then nict_advance n event
      else if event = NictNoResponse then
        (let n' = n\<lparr>nict_no_response := NoRespOff\<rparr>
         in if nict_state n' \<noteq> NictTrying then (n', [])
            else (n'\<lparr>nict_state := NictTerminated\<rparr>,
                  [CancelTimer T_E, CancelTimer T_F, Timeout, Terminated]))
      else
        (let (n', actions) = nict_advance n event
         in if nict_state n' \<noteq> NictTrying
            then (n'\<lparr>nict_no_response := NoRespOff\<rparr>, actions @ [CancelTimer T_NoResponse])
            else (n', actions)))"

definition nict_arm_no_response :: "nict \<Rightarrow> duration \<Rightarrow> nict \<times> action option" where
  "nict_arm_no_response n after =
     (if nict_state n \<noteq> NictTrying then (n, None)
      else (n\<lparr>nict_no_response := NoRespArmed\<rparr>, Some (StartTimer T_NoResponse after)))"

subsection \<open>INVITE client transaction: state\<close>

datatype ict_state = IctCalling | IctProceeding | IctCompleted | IctTerminated

datatype ict_event =
    IctTimerA | IctTimerB | IctTimerC | IctTimerD
  | IctProvisional sip_message
  | IctResponse2xx sip_message
  | IctResponseNon2xx sip_message
  | IctNoResponse

datatype cancel_outcome =
  SendNow branch_cancel | Deferred | NothingToSend | Unbuildable tx_error

datatype cancel_progress = NotRequested | Waiting branch_cancel | CancelSent

datatype timer_c_progress = TimerCIdle | TimerCArmed | TimerCExpired

record ict =
  ict_state :: ict_state
  ict_transport :: transport
  ict_timers :: timer_config
  ict_request_bytes :: bytes
  timer_a_interval :: duration
  cached_ack :: "bytes option"
  ict_cancel :: cancel_progress
  ict_hop :: "branch_hop option"
  last_progress :: "instant option"
  ict_timer_c :: timer_c_progress
  ict_no_response :: no_response_progress
  ict_connection_hold :: "nat option"

definition ict_new :: "bytes \<Rightarrow> transport \<Rightarrow> timer_config \<Rightarrow> ict \<times> action list" where
  "ict_new request_bytes tp timers =
     (\<lparr>ict_state = IctCalling, ict_transport = tp, ict_timers = timers,
       ict_request_bytes = request_bytes, timer_a_interval = timer_a_initial timers,
       cached_ack = None, ict_cancel = NotRequested, ict_hop = None, last_progress = None,
       ict_timer_c = TimerCIdle, ict_no_response = NoRespOff, ict_connection_hold = None\<rparr>,
      [SendFrame request_bytes, StartTimer T_B (timer_b timers)]
      @ (if tp = Udp then [StartTimer T_A (timer_a_initial timers)] else []))"

subsection \<open>INVITE client transaction: the ACK and the CANCEL\<close>

definition build_ack_for_non2xx :: "ict \<Rightarrow> sip_message \<Rightarrow> tx_error + sip_message" where
  "build_ack_for_non2xx i response =
     (case parse_sip_message_bytes (ict_request_bytes i) of
        Inl e \<Rightarrow> Inl (SentInviteUnparsable e)
      | Inr request \<Rightarrow>
        (case msg_start_line request of
           Response _ \<Rightarrow> Inl IctNotARequest
         | Request rl \<Rightarrow>
           (let h = msg_headers request
            in case hdr_via h of None \<Rightarrow> Inl InviteMissingVia | Some via_line \<Rightarrow>
              (case hdr_from h of None \<Rightarrow> Inl InviteMissingFrom | Some from_line \<Rightarrow>
                (case (case hdr_to (msg_headers response) of Some t \<Rightarrow> Some t | None \<Rightarrow> hdr_to h) of
                   None \<Rightarrow> Inl NoToHeader | Some to_line \<Rightarrow>
                  (case hdr_call_id h of None \<Rightarrow> Inl InviteMissingCallId | Some call_id \<Rightarrow>
                    (let cseq_num = (case Option.bind (hdr_cseq h) first_word of
                                       Some s \<Rightarrow> s | None \<Rightarrow> ''1'');
                         b0 = b_request Ack (request_uri rl) builder_new;
                         b1 = b_header ''Via'' via_line b0;
                         b2 = b_header ''From'' from_line b1;
                         b3 = b_header ''To'' to_line b2;
                         b4 = b_header ''Call-ID'' call_id b3;
                         b5 = b_header ''CSeq'' (cseq_num @ '' ACK'') b4;
                         b6 = foldl (\<lambda>b route. b_header ''Route'' route b) b5
                                (case hdr_get_all h ''Route'' of Some rs \<Rightarrow> rs | None \<Rightarrow> [])
                     in (case b_build (b_content_length 0 (b_header ''Max-Forwards'' ''70'' b6)) of
                           Inl e \<Rightarrow> Inl (AckBuildFailed e)
                         | Inr ack \<Rightarrow> Inr ack))))))))"

definition ict_set_hop :: "ict \<Rightarrow> branch_hop \<Rightarrow> ict" where
  "ict_set_hop i hop = i\<lparr>ict_hop := Some hop\<rparr>"

definition ict_set_connection :: "ict \<Rightarrow> nat \<Rightarrow> ict" where
  "ict_set_connection i conn =
     (case ict_hop i of
        None \<Rightarrow> i
      | Some hop \<Rightarrow> i\<lparr>ict_hop := Some (hop\<lparr>connection_id := conn\<rparr>)\<rparr>)"

definition ict_hold_connection :: "ict \<Rightarrow> nat \<Rightarrow> ict" where
  "ict_hold_connection i hold = i\<lparr>ict_connection_hold := Some hold\<rparr>"

definition ict_build_cancel :: "ict \<Rightarrow> string list \<Rightarrow> tx_error + branch_cancel" where
  "ict_build_cancel i reasons =
     (case ict_hop i of
        None \<Rightarrow> Inl NoHopRecorded
      | Some hop \<Rightarrow>
        (case parse_sip_message_bytes (ict_request_bytes i) of
           Inl e \<Rightarrow> Inl (SentInviteUnparsable e)
         | Inr invite \<Rightarrow>
           (case build_cancel invite reasons of
              None \<Rightarrow> Inl InviteWithoutCSeq
            | Some cancel \<Rightarrow> Inr \<lparr>cancel_frame = to_bytes cancel, cancel_hop = hop\<rparr>)))"

definition request_cancel :: "ict \<Rightarrow> string list \<Rightarrow> ict \<times> cancel_outcome" where
  "request_cancel i reasons =
     (case ict_state i of
        IctCalling \<Rightarrow>
          (case ict_cancel i of
             NotRequested \<Rightarrow>
               (case ict_build_cancel i reasons of
                  Inr cancel \<Rightarrow> (i\<lparr>ict_cancel := Waiting cancel\<rparr>, Deferred)
                | Inl e \<Rightarrow> (i, Unbuildable e))
           | _ \<Rightarrow> (i, Deferred))
      | IctProceeding \<Rightarrow>
          (case ict_cancel i of
             NotRequested \<Rightarrow>
               (case ict_build_cancel i reasons of
                  Inr cancel \<Rightarrow> (i\<lparr>ict_cancel := CancelSent\<rparr>, SendNow cancel)
                | Inl e \<Rightarrow> (i, Unbuildable e))
           | _ \<Rightarrow> (i, NothingToSend))
      | _ \<Rightarrow> (i, NothingToSend))"

definition cancel_is_waiting :: "ict \<Rightarrow> bool" where
  "cancel_is_waiting i = (case ict_cancel i of Waiting _ \<Rightarrow> True | _ \<Rightarrow> False)"

definition release_waiting_cancel :: "ict \<Rightarrow> ict \<times> branch_cancel option" where
  "release_waiting_cancel i =
     (case ict_cancel i of
        Waiting cancel \<Rightarrow> (i\<lparr>ict_cancel := CancelSent\<rparr>, Some cancel)
      | _ \<Rightarrow> (i, None))"

definition drop_waiting_cancel :: "ict \<Rightarrow> ict" where
  "drop_waiting_cancel i = (if cancel_is_waiting i then i\<lparr>ict_cancel := NotRequested\<rparr> else i)"

subsection \<open>INVITE client transaction: Timer C\<close>

definition note_progress :: "instant \<Rightarrow> ict \<Rightarrow> sip_message \<Rightarrow> ict" where
  "note_progress now i response =
     (case msg_status_code response of
        Some code \<Rightarrow> if 101 \<le> code \<and> code < 200 then i\<lparr>last_progress := Some now\<rparr> else i
      | None \<Rightarrow> i)"

definition timer_c_due :: "instant \<Rightarrow> ict \<Rightarrow> ict \<times> action list" where
  "timer_c_due now i =
     (case ict_timer_c i of
        TimerCIdle \<Rightarrow> (i, [])
      | TimerCArmed \<Rightarrow>
        (let deadline = (case last_progress i of Some t \<Rightarrow> t | None \<Rightarrow> now) + int (timer_c (ict_timers i));
             remaining = saturating_duration_since deadline now
         in if remaining \<noteq> 0 then (i, [StartTimer T_C remaining])
            else
              (let i1 = i\<lparr>ict_timer_c := TimerCExpired\<rparr>;
                   (i2, actions) =
                     (if ict_cancel i1 = NotRequested
                      then (case ict_build_cancel i1 [] of
                              Inr cancel \<Rightarrow> (i1\<lparr>ict_cancel := CancelSent\<rparr>, [SendCancel cancel])
                            | Inl e \<Rightarrow> (i1, [ProtocolError (TimerCCancelNotBuilt e)]))
                      else (i1, []))
               in (i2, actions @ [StartTimer T_C (timer_b (ict_timers i))])))
      | TimerCExpired \<Rightarrow> (i\<lparr>ict_state := IctTerminated\<rparr>, [Timeout, Terminated]))"

definition start_timer_c :: "instant \<Rightarrow> ict \<Rightarrow> ict \<times> action list" where
  "start_timer_c now i =
     (let i1 = (case last_progress i of
                  Some _ \<Rightarrow> i
                | None \<Rightarrow>
                  i\<lparr>last_progress := Some (case instant_checked_sub now (timer_b (ict_timers i)) of
                                            Some t \<Rightarrow> t | None \<Rightarrow> now)\<rparr>)
      in timer_c_due now (i1\<lparr>ict_timer_c := TimerCArmed\<rparr>))"

definition stop_timer_c :: "ict \<Rightarrow> ict \<times> action list" where
  "stop_timer_c i =
     (if ict_timer_c i \<noteq> TimerCIdle then (i\<lparr>ict_timer_c := TimerCIdle\<rparr>, [CancelTimer T_C])
      else (i, []))"

subsection \<open>INVITE client transaction: the no-response timer\<close>

definition arm_no_response :: "ict \<Rightarrow> duration \<Rightarrow> ict \<times> action option" where
  "arm_no_response i after =
     (if ict_state i \<noteq> IctCalling \<or> ict_no_response i \<noteq> NoRespOff then (i, None)
      else (i\<lparr>ict_no_response := NoRespArmed\<rparr>, Some (StartTimer T_NoResponse after)))"

definition disarm_no_response :: "ict \<Rightarrow> ict \<times> bool" where
  "disarm_no_response i =
     (if ict_no_response i \<noteq> NoRespArmed then (i, False)
      else (i\<lparr>ict_no_response := NoRespOff\<rparr>, True))"

definition gave_up :: "ict \<Rightarrow> bool" where
  "gave_up i \<longleftrightarrow> ict_no_response i = NoRespGaveUp"

definition give_up_unanswered :: "ict \<Rightarrow> ict \<times> action list" where
  "give_up_unanswered i =
     (if ict_no_response i \<noteq> NoRespArmed then (i, [])
      else
        (let i1 = i\<lparr>ict_no_response := NoRespGaveUp\<rparr>;
             (i2, errors) =
               (if ict_cancel i1 = NotRequested
                then (case ict_build_cancel i1 [] of
                        Inr cancel \<Rightarrow> (i1\<lparr>ict_cancel := Waiting cancel\<rparr>, [])
                      | Inl e \<Rightarrow> (i1, [ProtocolError (LateCancelNotBuilt e)]))
                else (i1, []))
         in (i2, [CancelTimer T_A] @ errors @ [Timeout])))"

subsection \<open>INVITE client transaction: events\<close>

definition ict_timer_d :: "ict \<Rightarrow> duration" where
  "ict_timer_d i = (case ict_transport i of Udp \<Rightarrow> timer_d_udp (ict_timers i)
                                         | Reliable \<Rightarrow> timer_d_tcp (ict_timers i))"

text \<open>The ACK of a 3xx to 6xx response: built, cached as it goes on the wire, and sent.\<close>

definition ict_ack :: "ict \<Rightarrow> sip_message \<Rightarrow> ict \<times> action list" where
  "ict_ack i response =
     (case build_ack_for_non2xx i response of
        Inr ack \<Rightarrow> (i\<lparr>cached_ack := Some (to_bytes ack)\<rparr>, [SendFrame (to_bytes ack)])
      | Inl e \<Rightarrow> (i, [ProtocolError (AckNotBuilt e)]))"

definition ict_advance :: "instant \<Rightarrow> ict \<Rightarrow> ict_event \<Rightarrow> ict \<times> action list" where
  "ict_advance now i event =
     (case ict_state i of
        IctCalling \<Rightarrow>
          (case event of
             IctTimerA \<Rightarrow>
               (let interval = next_retransmit (ict_timers i) (timer_a_interval i)
                in (i\<lparr>timer_a_interval := interval\<rparr>,
                    [SendFrame (ict_request_bytes i), StartTimer T_A interval]))
           | IctTimerB \<Rightarrow>
               (drop_waiting_cancel (i\<lparr>ict_state := IctTerminated\<rparr>),
                [CancelTimer T_A, Timeout, Terminated])
           | IctNoResponse \<Rightarrow> give_up_unanswered i
           | IctProvisional response \<Rightarrow>
               (let i1 = note_progress now (i\<lparr>ict_state := IctProceeding\<rparr>) response;
                    (i2, released) = release_waiting_cancel i1
                in (i2, [CancelTimer T_A, PassToTu response]
                        @ (case released of Some cancel \<Rightarrow> [SendCancel cancel] | None \<Rightarrow> [])))
           | IctResponse2xx response \<Rightarrow>
               (drop_waiting_cancel (i\<lparr>ict_state := IctTerminated\<rparr>),
                [CancelTimer T_A, CancelTimer T_B, PassToTu response, Terminated])
           | IctResponseNon2xx response \<Rightarrow>
               (let i1 = drop_waiting_cancel (i\<lparr>ict_state := IctCompleted\<rparr>);
                    (i2, ack) = ict_ack i1 response;
                    timer_d = ict_timer_d i
                in (if timer_d = 0 then i2\<lparr>ict_state := IctTerminated\<rparr> else i2,
                    ack @ [CancelTimer T_A, CancelTimer T_B, PassToTu response]
                    @ (if timer_d = 0 then [Terminated] else [StartTimer T_D timer_d])))
           | _ \<Rightarrow> (i, []))
      | IctProceeding \<Rightarrow>
          (case event of
             IctTimerA \<Rightarrow> (i, [])
           | IctProvisional response \<Rightarrow> (note_progress now i response, [PassToTu response])
           | IctTimerB \<Rightarrow> start_timer_c now i
           | IctTimerC \<Rightarrow> timer_c_due now i
           | IctResponse2xx response \<Rightarrow>
               (let (i1, stop) = stop_timer_c (i\<lparr>ict_state := IctTerminated\<rparr>)
                in (i1, [CancelTimer T_A, CancelTimer T_B, PassToTu response, Terminated] @ stop))
           | IctResponseNon2xx response \<Rightarrow>
               (let (i1, ack) = ict_ack (i\<lparr>ict_state := IctCompleted\<rparr>) response;
                    (i2, stop) = stop_timer_c i1;
                    timer_d = ict_timer_d i
                in (if timer_d = 0 then i2\<lparr>ict_state := IctTerminated\<rparr> else i2,
                    ack @ [CancelTimer T_A, CancelTimer T_B, PassToTu response] @ stop
                    @ (if timer_d = 0 then [Terminated] else [StartTimer T_D timer_d])))
           | _ \<Rightarrow> (i, []))
      | IctCompleted \<Rightarrow>
          (case event of
             IctResponseNon2xx _ \<Rightarrow>
               (i, case cached_ack i of Some ack \<Rightarrow> [SendFrame ack] | None \<Rightarrow> [])
           | IctTimerD \<Rightarrow> (i\<lparr>ict_state := IctTerminated\<rparr>, [Terminated])
           | _ \<Rightarrow> (i, []))
      | IctTerminated \<Rightarrow> (i, []))"

fun is_pass_to_tu :: "action \<Rightarrow> bool" where
  "is_pass_to_tu (PassToTu _) = True"
| "is_pass_to_tu _ = False"

definition process_given_up :: "instant \<Rightarrow> ict \<Rightarrow> ict_event \<Rightarrow> ict \<times> action list" where
  "process_given_up now i event =
     (if ict_state i \<in> {IctCalling, IctProceeding} \<and> event = IctTimerB
      then (drop_waiting_cancel (i\<lparr>ict_state := IctTerminated\<rparr>), [Terminated])
      else
        (case event of
           IctProvisional _ \<Rightarrow>
             if ict_state i = IctCalling
             then (let (i1, released) = release_waiting_cancel (i\<lparr>ict_state := IctProceeding\<rparr>)
                   in (i1, case released of
                             Some cancel \<Rightarrow> [SendCancel cancel, StartTimer T_B (timer_b (ict_timers i))]
                           | None \<Rightarrow> []))
             else (i, [])
         | IctTimerA \<Rightarrow> (i, [])
         | IctTimerC \<Rightarrow> (i, [])
         | IctNoResponse \<Rightarrow> (i, [])
         | IctResponseNon2xx _ \<Rightarrow>
             (let (i1, actions) = ict_advance now i event
              in (i1, filter (\<lambda>a. \<not> is_pass_to_tu a) actions))
         | _ \<Rightarrow> ict_advance now i event))"

definition ict_process :: "instant \<Rightarrow> ict \<Rightarrow> ict_event \<Rightarrow> ict \<times> action list" where
  "ict_process now i event =
     (case ict_no_response i of
        NoRespOff \<Rightarrow> ict_advance now i event
      | NoRespGaveUp \<Rightarrow> process_given_up now i event
      | NoRespArmed \<Rightarrow>
        (let (i1, actions) = ict_advance now i event
         in if ict_no_response i1 = NoRespArmed \<and> ict_state i1 \<noteq> IctCalling
            then (i1\<lparr>ict_no_response := NoRespOff\<rparr>, actions @ [CancelTimer T_NoResponse])
            else (i1, actions)))"

subsection \<open>Everything that happens to a client transaction\<close>

text \<open>
  The operations the manager has for a client transaction, events among them.  A CANCEL handed
  to the caller to be sent now goes out as the action \<^const>\<open>SendCancel\<close>; a timer to start or to
  remove is the action for it.
\<close>

datatype nict_op = NictEvent nict_event | NictArm duration | NictHold nat

definition nict_step :: "unit \<Rightarrow> nict \<Rightarrow> nict_op \<Rightarrow> nict \<times> action list" where
  "nict_step u n op =
     (case op of
        NictEvent e \<Rightarrow> nict_process n e
      | NictArm d \<Rightarrow> (let (n', a) = nict_arm_no_response n d in (n', case a of Some t \<Rightarrow> [t] | None \<Rightarrow> []))
      | NictHold c \<Rightarrow> (nict_hold_connection n c, []))"

datatype ict_op =
    IctEvent ict_event | IctRequestCancel "string list" | IctArm duration | IctDisarm
  | IctSetHop branch_hop | IctSetConnection nat | IctHold nat

definition ict_step :: "instant \<Rightarrow> ict \<Rightarrow> ict_op \<Rightarrow> ict \<times> action list" where
  "ict_step now i op =
     (case op of
        IctEvent e \<Rightarrow> ict_process now i e
      | IctRequestCancel reasons \<Rightarrow>
          (let (i', outcome) = request_cancel i reasons
           in (i', case outcome of SendNow c \<Rightarrow> [SendCancel c] | _ \<Rightarrow> []))
      | IctArm d \<Rightarrow> (let (i', a) = arm_no_response i d in (i', case a of Some t \<Rightarrow> [t] | None \<Rightarrow> []))
      | IctDisarm \<Rightarrow> (let (i', was) = disarm_no_response i in (i', if was then [CancelTimer T_NoResponse] else []))
      | IctSetHop hop \<Rightarrow> (ict_set_hop i hop, [])
      | IctSetConnection c \<Rightarrow> (ict_set_connection i c, [])
      | IctHold c \<Rightarrow> (ict_hold_connection i c, []))"

end
