(* ===== verification/Tx_Client_Facts.thy ===== *)
theory Tx_Client_Facts
  imports Tx_Client
begin

text \<open>
  The client transactions satisfy the contract \<open>tx_machine\<close> (with the invariants \<open>nict_inv\<close> and
  \<open>ict_inv\<close>); what happens to the CANCEL of an INVITE over a whole run, what frames a client
  transaction puts on the wire, and when Timer C gives up.
\<close>

subsection \<open>The contract\<close>

definition nict_over :: "nict \<Rightarrow> bool" where
  "nict_over n \<longleftrightarrow> nict_state n = NictTerminated"

definition nict_inv :: "nict \<Rightarrow> bool" where
  "nict_inv n \<longleftrightarrow> (nict_no_response n = NoRespArmed \<longrightarrow> nict_state n = NictTrying)
     \<and> nict_no_response n \<noteq> NoRespGaveUp"

definition ict_over :: "ict \<Rightarrow> bool" where
  "ict_over i \<longleftrightarrow> ict_state i = IctTerminated"

text \<open>
  The no-response timer runs in \<^verbatim>\<open>Calling\<close> only, a CANCEL waits in \<^verbatim>\<open>Calling\<close> only, and Timer C
  belongs to an INVITE that has a provisional and has not been given up on.
\<close>

definition ict_inv :: "ict \<Rightarrow> bool" where
  "ict_inv i \<longleftrightarrow> (ict_no_response i = NoRespArmed \<longrightarrow> ict_state i = IctCalling)
     \<and> (cancel_is_waiting i \<longrightarrow> ict_state i = IctCalling)
     \<and> (ict_timer_c i \<noteq> TimerCIdle \<longrightarrow> ict_state i \<in> {IctProceeding, IctTerminated}
          \<and> last_progress i \<noteq> None \<and> ict_no_response i = NoRespOff)"

lemmas nict_simps = nict_step_def nict_process_def nict_advance_def nict_final_def
  nict_arm_no_response_def nict_hold_connection_def nict_over_def nict_inv_def Let_def

interpretation nict: tx_machine nict_step nict_over nict_inv
proof unfold_locales
  fix x n e n' as
  show "nict_inv n \<Longrightarrow> nict_step x n e = (n', as) \<Longrightarrow> nict_inv n'"
    by (auto simp: nict_simps split: nict_op.splits nict_event.splits nict_state.splits if_splits)
  show "nict_inv n \<Longrightarrow> nict_over n \<Longrightarrow> nict_step x n e = (n', as) \<Longrightarrow> nict_over n' \<and> as = []"
    by (auto simp: nict_simps split: nict_op.splits)
  show "nict_inv n \<Longrightarrow> \<not> nict_over n \<Longrightarrow> nict_step x n e = (n', as) \<Longrightarrow> nict_over n' \<longleftrightarrow> Terminated \<in> set as"
    by (auto simp: nict_simps split: nict_op.splits nict_event.splits nict_state.splits if_splits)
  show "nict_inv n \<Longrightarrow> nict_step x n e = (n', as) \<Longrightarrow> quiet_tail as"
    by (auto simp: nict_simps split: nict_op.splits nict_event.splits nict_state.splits if_splits)
qed

text \<open>What the parts of the machine leave alone, and what they emit.\<close>

lemma note_progress_fields [simp]:
  "ict_state (note_progress now i r) = ict_state i"
  "ict_no_response (note_progress now i r) = ict_no_response i"
  "ict_cancel (note_progress now i r) = ict_cancel i"
  "ict_timer_c (note_progress now i r) = ict_timer_c i"
  "ict_request_bytes (note_progress now i r) = ict_request_bytes i"
  "ict_hop (note_progress now i r) = ict_hop i"
  "last_progress i \<noteq> None \<Longrightarrow> last_progress (note_progress now i r) \<noteq> None"
  by (auto simp: note_progress_def split: option.splits)

lemma ict_ack_fields [simp]:
  "ict_state (fst (ict_ack i r)) = ict_state i"
  "ict_no_response (fst (ict_ack i r)) = ict_no_response i"
  "ict_cancel (fst (ict_ack i r)) = ict_cancel i"
  "ict_timer_c (fst (ict_ack i r)) = ict_timer_c i"
  "ict_request_bytes (fst (ict_ack i r)) = ict_request_bytes i"
  "ict_hop (fst (ict_ack i r)) = ict_hop i"
  by (auto simp: ict_ack_def split: sum.splits)

lemma drop_waiting_cancel_fields [simp]:
  "ict_state (drop_waiting_cancel i) = ict_state i"
  "ict_no_response (drop_waiting_cancel i) = ict_no_response i"
  "ict_timer_c (drop_waiting_cancel i) = ict_timer_c i"
  "ict_request_bytes (drop_waiting_cancel i) = ict_request_bytes i"
  "ict_hop (drop_waiting_cancel i) = ict_hop i"
  "ict_cancel (drop_waiting_cancel i) = (if cancel_is_waiting i then NotRequested else ict_cancel i)"
  by (auto simp: drop_waiting_cancel_def)

lemma release_waiting_cancel_fields [simp]:
  "ict_state (fst (release_waiting_cancel i)) = ict_state i"
  "ict_no_response (fst (release_waiting_cancel i)) = ict_no_response i"
  "ict_timer_c (fst (release_waiting_cancel i)) = ict_timer_c i"
  "ict_request_bytes (fst (release_waiting_cancel i)) = ict_request_bytes i"
  "ict_hop (fst (release_waiting_cancel i)) = ict_hop i"
  "ict_cancel (fst (release_waiting_cancel i)) = (if cancel_is_waiting i then CancelSent else ict_cancel i)"
  by (auto simp: release_waiting_cancel_def cancel_is_waiting_def split: cancel_progress.splits)

lemma snd_release_waiting_cancel:
  "snd (release_waiting_cancel i) = (case ict_cancel i of Waiting c \<Rightarrow> Some c | _ \<Rightarrow> None)"
  by (simp add: release_waiting_cancel_def split: cancel_progress.split)

lemma stop_timer_c_fields [simp]:
  "ict_state (fst (stop_timer_c i)) = ict_state i"
  "ict_no_response (fst (stop_timer_c i)) = ict_no_response i"
  "ict_cancel (fst (stop_timer_c i)) = ict_cancel i"
  "ict_timer_c (fst (stop_timer_c i)) = TimerCIdle"
  "ict_request_bytes (fst (stop_timer_c i)) = ict_request_bytes i"
  "ict_hop (fst (stop_timer_c i)) = ict_hop i"
  by (auto simp: stop_timer_c_def)

lemma snd_stop_timer_c: "snd (stop_timer_c i) = (if ict_timer_c i \<noteq> TimerCIdle then [CancelTimer T_C] else [])"
  by (simp add: stop_timer_c_def)

fun plain :: "action \<Rightarrow> bool" where
  "plain Terminated = False"
| "plain (SendCancel _) = False"
| "plain _ = True"

lemma snd_ict_ack_plain [simp]: "list_all plain (snd (ict_ack i r))"
  by (auto simp: ict_ack_def split: sum.splits)

lemma plain_append [simp]:
  "list_all plain as \<Longrightarrow> quiet_tail (as @ bs) = quiet_tail bs"
  "list_all plain as \<Longrightarrow> Terminated \<in> set (as @ bs) \<longleftrightarrow> Terminated \<in> set bs"
  by (induction as) auto

lemmas ict_small = Let_def split_beta ict_over_def ict_inv_def cancel_is_waiting_def
  snd_release_waiting_cancel snd_stop_timer_c

lemma timer_c_due_cases:
  assumes "timer_c_due now i = (i', as)"
  shows "ict_no_response i' = ict_no_response i \<and> quiet_tail as
    \<and> (ict_state i' = (if ict_timer_c i = TimerCExpired then IctTerminated else ict_state i))
    \<and> (Terminated \<in> set as \<longleftrightarrow> ict_timer_c i = TimerCExpired)
    \<and> last_progress i' = last_progress i \<and> ict_request_bytes i' = ict_request_bytes i
    \<and> ict_hop i' = ict_hop i \<and> (cancel_is_waiting i' \<longrightarrow> cancel_is_waiting i)"
  using assms
  by (cases "ict_timer_c i")
    (auto simp: timer_c_due_def Let_def cancel_is_waiting_def split: if_splits sum.splits)

lemma start_timer_c_cases:
  assumes "start_timer_c now i = (i', as)"
  shows "ict_no_response i' = ict_no_response i \<and> quiet_tail as \<and> Terminated \<notin> set as
    \<and> ict_state i' = ict_state i \<and> last_progress i' \<noteq> None
    \<and> ict_request_bytes i' = ict_request_bytes i \<and> ict_hop i' = ict_hop i
    \<and> (cancel_is_waiting i' \<longrightarrow> cancel_is_waiting i)"
proof (cases "last_progress i")
  case None
  then obtain t where "timer_c_due now (i\<lparr>last_progress := Some t, ict_timer_c := TimerCArmed\<rparr>) = (i', as)"
    using assms by (auto simp: start_timer_c_def Let_def)
  from timer_c_due_cases [OF this] show ?thesis by (auto simp: cancel_is_waiting_def)
next
  case (Some t)
  then have "timer_c_due now (i\<lparr>ict_timer_c := TimerCArmed\<rparr>) = (i', as)"
    using assms by (auto simp: start_timer_c_def Let_def)
  from timer_c_due_cases [OF this] Some show ?thesis by (auto simp: cancel_is_waiting_def)
qed

lemma snd_ict_ack_no_end [simp]: "Terminated \<notin> set (snd (ict_ack i r))"
  by (auto simp: ict_ack_def split: sum.splits)

lemma give_up_cases:
  assumes "give_up_unanswered i = (i', as)"
  shows "ict_state i' = ict_state i \<and> quiet_tail as \<and> Terminated \<notin> set as
    \<and> ict_no_response i' = (if ict_no_response i = NoRespArmed then NoRespGaveUp else ict_no_response i)
    \<and> ict_timer_c i' = ict_timer_c i \<and> last_progress i' = last_progress i
    \<and> ict_request_bytes i' = ict_request_bytes i \<and> ict_hop i' = ict_hop i"
  using assms by (auto simp: give_up_unanswered_def Let_def split: if_splits sum.splits)

text \<open>The three branches that are functions of their own, and the rest.\<close>

definition special :: "ict \<Rightarrow> ict_event \<Rightarrow> bool" where
  "special i e \<longleftrightarrow> ict_state i = IctProceeding \<and> (e = IctTimerB \<or> e = IctTimerC)
     \<or> ict_state i = IctCalling \<and> e = IctNoResponse"

lemma ict_advance_elim [consumes 1, case_names TimerC TimerB NoResponse other]:
  assumes "ict_advance now i e = (i', as)"
  obtains "ict_state i = IctProceeding" and "e = IctTimerC" and "timer_c_due now i = (i', as)"
  | "ict_state i = IctProceeding" and "e = IctTimerB" and "start_timer_c now i = (i', as)"
  | "ict_state i = IctCalling" and "e = IctNoResponse" and "give_up_unanswered i = (i', as)"
  | "\<not> special i e" and "ict_advance now i e = (i', as)"
proof (cases "special i e")
  case True
  then consider (c) "ict_state i = IctProceeding" "e = IctTimerC" | (b) "ict_state i = IctProceeding" "e = IctTimerB"
    | (n) "ict_state i = IctCalling" "e = IctNoResponse" by (auto simp: special_def)
  then show ?thesis using assms that by cases (simp_all add: ict_advance_def)
qed (use assms that in blast)

lemma ict_advance_contract:
  assumes "ict_advance now i e = (i', as)"
  shows "quiet_tail as \<and> (ict_over i \<longrightarrow> i' = i \<and> as = [])
    \<and> (\<not> ict_over i \<longrightarrow> (ict_over i' \<longleftrightarrow> Terminated \<in> set as))"
  using assms
proof (cases rule: ict_advance_elim)
  case TimerC
  then show ?thesis using timer_c_due_cases [OF TimerC(3)] by (auto simp: ict_over_def)
next
  case TimerB
  then show ?thesis using start_timer_c_cases [OF TimerB(3)] by (auto simp: ict_over_def)
next
  case NoResponse
  then show ?thesis using give_up_cases [OF NoResponse(3)] by (auto simp: ict_over_def)
next
  case other
  then show ?thesis
    by (cases "ict_state i"; cases e)
      (auto simp: ict_advance_def special_def ict_small split: if_splits cancel_progress.splits option.splits)
qed

lemma ict_advance_no_response:
  assumes "ict_advance now i e = (i', as)"
  shows "ict_no_response i' =
    (if e = IctNoResponse \<and> ict_state i = IctCalling \<and> ict_no_response i = NoRespArmed
     then NoRespGaveUp else ict_no_response i)"
  using assms
proof (cases rule: ict_advance_elim)
  case TimerC
  then show ?thesis using timer_c_due_cases [OF TimerC(3)] by auto
next
  case TimerB
  then show ?thesis using start_timer_c_cases [OF TimerB(3)] by auto
next
  case NoResponse
  then show ?thesis using give_up_cases [OF NoResponse(3)] by auto
next
  case other
  then show ?thesis
    by (cases "ict_state i"; cases e) (auto simp: ict_advance_def special_def Let_def split_beta)
qed

fun cancels :: "action list \<Rightarrow> branch_cancel list" where
  "cancels [] = []"
| "cancels (SendCancel c # as) = c # cancels as"
| "cancels (_ # as) = cancels as"

lemma cancels_append [simp]: "cancels (as @ bs) = cancels as @ cancels bs"
  by (induction as rule: cancels.induct) auto

lemma cancels_filter [simp]: "cancels (filter (\<lambda>a. \<not> is_pass_to_tu a) as) = cancels as"
  by (induction as rule: cancels.induct) auto

lemma cancels_ack [simp]: "cancels (snd (ict_ack i r)) = []"
  by (auto simp: ict_ack_def split: sum.splits)

lemma ict_build_cancel_cong:
  "ict_hop j = ict_hop i \<Longrightarrow> ict_request_bytes j = ict_request_bytes i \<Longrightarrow>
   ict_build_cancel j reasons = ict_build_cancel i reasons"
  by (cases "ict_hop i") (simp_all add: ict_build_cancel_def)

definition cancel_moves :: "bool \<Rightarrow> ict \<Rightarrow> ict \<Rightarrow> action list \<Rightarrow> bool" where
  "cancel_moves provisional i i' as \<longleftrightarrow>
     cancels as = [] \<and>
       (ict_cancel i' = ict_cancel i \<or> ict_cancel i' = NotRequested \<and> cancel_is_waiting i \<or>
        (\<exists>c reasons. ict_cancel i = NotRequested \<and> ict_cancel i' = Waiting c \<and> ict_state i' = IctCalling
           \<and> ict_build_cancel i reasons = Inr c)) \<or>
     (\<exists>c. cancels as = [c] \<and> ict_cancel i' = CancelSent \<and>
       (provisional \<and> ict_state i = IctCalling \<and> ict_cancel i = Waiting c \<or>
        ict_state i = IctProceeding \<and> ict_cancel i = NotRequested \<and>
          (\<exists>reasons. ict_build_cancel i reasons = Inr c)))"

fun is_provisional :: "ict_event \<Rightarrow> bool" where
  "is_provisional (IctProvisional _) = True"
| "is_provisional _ = False"

lemma timer_c_due_cancel:
  assumes "timer_c_due now i = (i', as)" and "ict_state i = IctProceeding"
  shows "cancel_moves p i i' as"
  using assms ict_build_cancel_cong [of "i\<lparr>ict_timer_c := TimerCExpired\<rparr>" i]
  by (cases "ict_timer_c i")
    (auto simp: timer_c_due_def Let_def cancel_moves_def split: if_splits sum.splits)

lemma start_timer_c_cancel:
  assumes "start_timer_c now i = (i', as)" and "ict_state i = IctProceeding"
  shows "cancel_moves p i i' as"
proof -
  obtain j where j: "timer_c_due now j = (i', as)" and same: "ict_state j = ict_state i" "ict_cancel j = ict_cancel i"
      "ict_hop j = ict_hop i" "ict_request_bytes j = ict_request_bytes i"
    using assms(1) by (cases "last_progress i") (auto simp: start_timer_c_def Let_def)
  have "cancel_moves p j i' as" using timer_c_due_cancel [OF j] same assms(2) by simp
  then show ?thesis
    by (simp add: cancel_moves_def same cancel_is_waiting_def ict_build_cancel_cong [OF same(3,4)])
qed

lemma give_up_cancel:
  assumes "give_up_unanswered i = (i', as)" and "ict_state i = IctCalling"
  shows "cancel_moves p i i' as"
  using assms ict_build_cancel_cong [of "i\<lparr>ict_no_response := NoRespGaveUp\<rparr>" i]
  by (auto simp: give_up_unanswered_def Let_def cancel_moves_def split: if_splits sum.splits)

lemma ict_advance_cancel:
  assumes "ict_advance now i e = (i', as)"
  shows "cancel_moves (is_provisional e) i i' as"
  using assms
proof (cases rule: ict_advance_elim)
  case other
  then show ?thesis
    by (cases "ict_state i"; cases e)
      (auto simp: ict_advance_def special_def Let_def split_beta cancel_moves_def cancel_is_waiting_def
        snd_release_waiting_cancel snd_stop_timer_c split: if_splits cancel_progress.splits option.splits)
qed (use timer_c_due_cancel start_timer_c_cancel give_up_cancel in blast)+

lemma process_given_up_elim [consumes 1, case_names TimerB Provisional ignored advance]:
  assumes "process_given_up now i e = (i', as)"
  obtains "e = IctTimerB" and "i' = drop_waiting_cancel (i\<lparr>ict_state := IctTerminated\<rparr>)"
      and "as = [Terminated]" and "ict_state i \<in> {IctCalling, IctProceeding}"
  | m where "e = IctProvisional m" and "ict_state i = IctCalling"
      and "i' = fst (release_waiting_cancel (i\<lparr>ict_state := IctProceeding\<rparr>))"
      and "as = (case ict_cancel i of
                   Waiting c \<Rightarrow> [SendCancel c, StartTimer T_B (timer_b (ict_timers i))] | _ \<Rightarrow> [])"
  | "i' = i" and "as = []" and "\<not> (\<exists>m. e = IctResponse2xx m \<or> e = IctResponseNon2xx m)"
  | bs where "ict_advance now i e = (i', bs)" and "as = bs \<or> as = filter (\<lambda>a. \<not> is_pass_to_tu a) bs"
      and "e \<noteq> IctNoResponse" and "\<not> (e = IctTimerB \<and> ict_state i = IctProceeding)"
proof -
  obtain j bs where adv: "ict_advance now i e = (j, bs)" by (cases "ict_advance now i e")
  consider (B) "e = IctTimerB" "ict_state i \<in> {IctCalling, IctProceeding}"
    | (P) m where "e = IctProvisional m" "ict_state i = IctCalling"
    | (I) "e = IctTimerA \<or> e = IctTimerC \<or> e = IctNoResponse \<or> is_provisional e \<and> ict_state i \<noteq> IctCalling"
    | (N) m where "e = IctResponseNon2xx m"
    | (A) "e = IctTimerD \<or> (\<exists>m. e = IctResponse2xx m) \<or> e = IctTimerB \<and> ict_state i \<notin> {IctCalling, IctProceeding}"
    by (cases e) auto
  then show ?thesis
  proof cases
    case B
    then show ?thesis using assms that(1) by (simp add: process_given_up_def)
  next
    case (P m)
    then show ?thesis using assms that(2) [OF P]
      by (simp add: process_given_up_def snd_release_waiting_cancel split_beta Let_def
          split: cancel_progress.splits)
  next
    case I
    then show ?thesis using assms that(3) by (cases e) (auto simp: process_given_up_def)
  next
    case (N m)
    then show ?thesis using assms that(4) adv by (simp add: process_given_up_def)
  next
    case A
    then show ?thesis using assms that(4) adv by (cases e) (auto simp: process_given_up_def)
  qed
qed

lemma process_given_up_cancel:
  assumes "process_given_up now i e = (i', as)"
  shows "cancel_moves (is_provisional e) i i' as"
  using assms
proof (cases rule: process_given_up_elim)
  case (Provisional m)
  then show ?thesis
    by (auto simp: cancel_moves_def cancel_is_waiting_def split: cancel_progress.splits)
next
  case (advance bs)
  then have "cancels as = cancels bs" by auto
  with ict_advance_cancel [OF advance(1)] show ?thesis by (simp add: cancel_moves_def)
qed (auto simp: cancel_moves_def cancel_is_waiting_def)

lemma ict_process_cancel:
  assumes "ict_process now i e = (i', as)"
  shows "cancel_moves (is_provisional e) i i' as"
proof (cases "ict_no_response i")
  case NoRespArmed
  obtain j bs where adv: "ict_advance now i e = (j, bs)" by (cases "ict_advance now i e")
  have "cancels as = cancels bs" "ict_cancel i' = ict_cancel j" "ict_state i' = ict_state j"
    using assms NoRespArmed adv by (auto simp: ict_process_def split: if_splits)
  with ict_advance_cancel [OF adv] show ?thesis by (simp add: cancel_moves_def)
qed (use assms ict_advance_cancel process_given_up_cancel in \<open>simp_all add: ict_process_def\<close>)

lemma ict_step_cancel:
  assumes "ict_step now i op = (i', as)"
  shows "cancel_moves (\<exists>m. op = IctEvent (IctProvisional m)) i i' as"
proof (cases op)
  case (IctEvent e)
  then have "ict_process now i e = (i', as)" using assms by (simp add: ict_step_def)
  moreover have "is_provisional e = (\<exists>m. op = IctEvent (IctProvisional m))"
    using IctEvent by (cases e) auto
  ultimately show ?thesis using ict_process_cancel [of now i e i' as] by simp
next
  case (IctRequestCancel reasons)
  then show ?thesis using assms
    by (cases "ict_state i"; cases "ict_cancel i")
      (auto simp: ict_step_def request_cancel_def Let_def cancel_moves_def split: sum.splits)
qed (use assms in \<open>auto simp: ict_step_def arm_no_response_def disarm_no_response_def ict_set_hop_def
    ict_set_connection_def ict_hold_connection_def cancel_moves_def split: if_splits option.splits\<close>)

lemma ict_advance_states:
  assumes "ict_advance now i e = (i', as)"
  shows "ict_request_bytes i' = ict_request_bytes i \<and> ict_hop i' = ict_hop i
    \<and> (ict_state i' = IctProceeding \<longrightarrow> ict_state i = IctProceeding \<or> is_provisional e)
    \<and> (ict_state i \<in> {IctCompleted, IctTerminated} \<longrightarrow> ict_state i' \<in> {IctCompleted, IctTerminated})
    \<and> ((\<exists>m. e = IctResponse2xx m \<or> e = IctResponseNon2xx m) \<longrightarrow> ict_state i' \<in> {IctCompleted, IctTerminated})"
  using assms
proof (cases rule: ict_advance_elim)
  case TimerC
  then show ?thesis using timer_c_due_cases [OF TimerC(3)] by auto
next
  case TimerB
  then show ?thesis using start_timer_c_cases [OF TimerB(3)] by auto
next
  case NoResponse
  then show ?thesis using give_up_cases [OF NoResponse(3)] by auto
next
  case other
  then show ?thesis
    by (cases "ict_state i"; cases e) (auto simp: ict_advance_def special_def Let_def split_beta split: if_splits)
qed

lemma ict_ack_last_progress [simp]: "last_progress (fst (ict_ack i r)) = last_progress i"
  by (auto simp: ict_ack_def split: sum.splits)

lemma stop_timer_c_last_progress [simp]: "last_progress (fst (stop_timer_c i)) = last_progress i"
  by (auto simp: stop_timer_c_def)

lemma ict_advance_waiting:
  assumes "ict_advance now i e = (i', as)" and "cancel_is_waiting i \<Longrightarrow> ict_state i = IctCalling"
    and "cancel_is_waiting i'"
  shows "ict_state i' = IctCalling"
  using assms(1)
proof (cases rule: ict_advance_elim)
  case TimerC
  then show ?thesis using timer_c_due_cases [OF TimerC(3)] assms(2,3) by simp
next
  case TimerB
  then show ?thesis using start_timer_c_cases [OF TimerB(3)] assms(2,3) by simp
next
  case NoResponse
  then show ?thesis using give_up_cases [OF NoResponse(3)] by simp
next
  case other
  show ?thesis
  proof (cases "ict_state i = IctCalling")
    case True
    then show ?thesis using other assms(3)
      by (cases e) (auto simp: ict_advance_def special_def Let_def split_beta cancel_is_waiting_def
          split: if_splits cancel_progress.splits)
  next
    case False
    then have "\<not> cancel_is_waiting i" using assms(2) by blast
    with other False assms(3) show ?thesis
      by (cases "ict_state i"; cases e)
        (auto simp: ict_advance_def special_def Let_def split_beta cancel_is_waiting_def split: if_splits)
  qed
qed

lemma ict_advance_timer_c:
  assumes "ict_advance now i e = (i', as)" and "ict_timer_c i' \<noteq> TimerCIdle"
    and "ict_state i = IctCalling \<Longrightarrow> ict_timer_c i = TimerCIdle"
    and "ict_timer_c i \<noteq> TimerCIdle \<Longrightarrow> last_progress i \<noteq> None"
    and "ict_timer_c i \<noteq> TimerCIdle \<Longrightarrow> ict_state i \<in> {IctProceeding, IctTerminated}"
  shows "ict_state i' \<in> {IctProceeding, IctTerminated} \<and> last_progress i' \<noteq> None
    \<and> (ict_timer_c i \<noteq> TimerCIdle \<or> ict_state i = IctProceeding \<and> e = IctTimerB)"
  using assms(1)
proof (cases rule: ict_advance_elim)
  case TimerC
  have idle: "ict_timer_c i \<noteq> TimerCIdle" using TimerC(3) assms(2) by (auto simp: timer_c_due_def)
  then show ?thesis using timer_c_due_cases [OF TimerC(3)] assms(4) TimerC(1) by simp
next
  case TimerB
  then show ?thesis using start_timer_c_cases [OF TimerB(3)] by simp
next
  case NoResponse
  then show ?thesis using give_up_cases [OF NoResponse(3)] assms(2,3) by simp
next
  case other
  show ?thesis
  proof (cases "ict_timer_c i = TimerCIdle")
    case True
    with other assms(2) show ?thesis
      by (cases "ict_state i"; cases e)
        (auto simp: ict_advance_def special_def Let_def split_beta split: if_splits)
  next
    case False
    with assms(4,5) have st: "ict_state i \<in> {IctProceeding, IctTerminated}" and lp: "last_progress i \<noteq> None" by auto
    have kept: "\<exists>y. last_progress (note_progress now i r) = Some y" for r
      using lp by (auto simp: note_progress_def split: option.splits)
    show ?thesis using other assms(2) False st lp
      by (cases e) (auto simp: ict_advance_def special_def Let_def split_beta intro!: kept split: if_splits)
  qed
qed

lemma ict_advance_inv:
  assumes "ict_advance now i e = (i', as)" and "ict_inv i"
    and "ict_state i = IctProceeding \<Longrightarrow> e = IctTimerB \<Longrightarrow> ict_no_response i = NoRespOff"
  shows "(cancel_is_waiting i' \<longrightarrow> ict_state i' = IctCalling)
    \<and> (ict_timer_c i' \<noteq> TimerCIdle \<longrightarrow> ict_state i' \<in> {IctProceeding, IctTerminated}
       \<and> last_progress i' \<noteq> None \<and> ict_no_response i' = NoRespOff)"
proof (intro conjI impI)
  show "cancel_is_waiting i' \<Longrightarrow> ict_state i' = IctCalling"
    using ict_advance_waiting [OF assms(1)] assms(2) by (simp add: ict_inv_def)
  assume c: "ict_timer_c i' \<noteq> TimerCIdle"
  have t: "ict_state i' \<in> {IctProceeding, IctTerminated} \<and> last_progress i' \<noteq> None
    \<and> (ict_timer_c i \<noteq> TimerCIdle \<or> ict_state i = IctProceeding \<and> e = IctTimerB)"
    by (rule ict_advance_timer_c [OF assms(1) c]) (use assms(2) in \<open>auto simp: ict_inv_def\<close>)
  then have "ict_no_response i = NoRespOff" using assms(2,3) by (auto simp: ict_inv_def)
  then show "ict_no_response i' = NoRespOff" using ict_advance_no_response [OF assms(1)] by simp
  from t show "ict_state i' \<in> {IctProceeding, IctTerminated}" "last_progress i' \<noteq> None" by blast+
qed

lemma process_given_up_inv:
  assumes "process_given_up now i e = (i', as)" and "ict_inv i" and "ict_no_response i = NoRespGaveUp"
  shows "ict_inv i' \<and> quiet_tail as \<and> (ict_over i \<longrightarrow> ict_over i' \<and> as = [])
    \<and> (\<not> ict_over i \<longrightarrow> (ict_over i' \<longleftrightarrow> Terminated \<in> set as))"
  using assms(1)
proof (cases rule: process_given_up_elim)
  case TimerB
  then show ?thesis using assms(2,3) by (auto simp: ict_inv_def ict_over_def cancel_is_waiting_def)
next
  case (Provisional m)
  then show ?thesis using assms(2,3)
    by (auto simp: ict_inv_def ict_over_def cancel_is_waiting_def split: cancel_progress.splits)
next
  case ignored
  then show ?thesis using assms(2) by (auto simp: ict_over_def)
next
  case (advance bs)
  have side: "ict_state i = IctProceeding \<Longrightarrow> e = IctTimerB \<Longrightarrow> ict_no_response i = NoRespOff"
    using advance(4) by simp
  have filt: "quiet_tail cs \<Longrightarrow> quiet_tail (filter (\<lambda>a. \<not> is_pass_to_tu a) cs)" for cs
    by (induction cs) (auto split: if_splits simp: list_all_iff)
  have "ict_no_response i' = NoRespGaveUp"
    using ict_advance_no_response [OF advance(1)] advance(3) assms(3) by simp
  moreover have "ict_inv i'"
    using ict_advance_inv [OF advance(1) assms(2) side] calculation by (auto simp: ict_inv_def)
  ultimately show ?thesis using ict_advance_contract [OF advance(1)] advance(2) filt by auto
qed

lemma ict_process_contract:
  assumes "ict_process now i e = (i', as)" and "ict_inv i"
  shows "ict_inv i' \<and> quiet_tail as \<and> (ict_over i \<longrightarrow> ict_over i' \<and> as = [])
    \<and> (\<not> ict_over i \<longrightarrow> (ict_over i' \<longleftrightarrow> Terminated \<in> set as))"
proof (cases "ict_no_response i")
  case NoRespOff
  then have adv: "ict_advance now i e = (i', as)" using assms(1) by (simp add: ict_process_def)
  show ?thesis
    using ict_advance_inv [OF adv assms(2)] ict_advance_contract [OF adv] ict_advance_no_response [OF adv]
      NoRespOff by (auto simp: ict_inv_def)
next
  case NoRespGaveUp
  then show ?thesis using assms process_given_up_inv by (simp add: ict_process_def)
next
  case NoRespArmed
  obtain j bs where adv: "ict_advance now i e = (j, bs)" by (cases "ict_advance now i e")
  have call: "ict_state i = IctCalling" using assms(2) NoRespArmed by (simp add: ict_inv_def)
  have inv: "(cancel_is_waiting j \<longrightarrow> ict_state j = IctCalling)
    \<and> (ict_timer_c j \<noteq> TimerCIdle \<longrightarrow> ict_state j \<in> {IctProceeding, IctTerminated}
       \<and> last_progress j \<noteq> None \<and> ict_no_response j = NoRespOff)"
    by (rule ict_advance_inv [OF adv assms(2)]) (simp add: call)
  have tail: "quiet_tail cs \<Longrightarrow> quiet_tail (cs @ [CancelTimer t])" for cs t
    by (induction cs) (auto simp: list_all_iff)
  show ?thesis
  proof (cases "ict_no_response j = NoRespArmed \<and> ict_state j \<noteq> IctCalling")
    case True
    then have "i' = j\<lparr>ict_no_response := NoRespOff\<rparr>" "as = bs @ [CancelTimer T_NoResponse]"
      using assms(1) NoRespArmed adv by (auto simp: ict_process_def)
    then show ?thesis using ict_advance_contract [OF adv] inv call tail True
      by (auto simp: ict_inv_def ict_over_def cancel_is_waiting_def)
  next
    case False
    then have "i' = j" "as = bs" using assms(1) NoRespArmed adv by (auto simp: ict_process_def)
    then show ?thesis using ict_advance_contract [OF adv] inv call False
      by (auto simp: ict_inv_def ict_over_def)
  qed
qed

lemma request_cancel_inv:
  assumes "request_cancel i reasons = (i', outcome)" and "ict_inv i"
  shows "ict_inv i' \<and> ict_state i' = ict_state i \<and> (ict_over i \<longrightarrow> outcome = NothingToSend)"
  using assms
  by (auto simp: request_cancel_def ict_inv_def ict_over_def cancel_is_waiting_def
      split: ict_state.splits cancel_progress.splits sum.splits)

lemma ict_step_contract:
  assumes "ict_step now i op = (i', as)" and "ict_inv i"
  shows "ict_inv i' \<and> quiet_tail as \<and> (ict_over i \<longrightarrow> ict_over i' \<and> as = [])
    \<and> (\<not> ict_over i \<longrightarrow> (ict_over i' \<longleftrightarrow> Terminated \<in> set as))"
proof (cases op)
  case (IctEvent e)
  then show ?thesis using assms ict_process_contract by (simp add: ict_step_def)
next
  case (IctRequestCancel reasons)
  obtain j out where "request_cancel i reasons = (j, out)" by (cases "request_cancel i reasons")
  with request_cancel_inv [OF this assms(2)] assms(1) IctRequestCancel show ?thesis
    by (cases out) (auto simp: ict_step_def ict_over_def)
qed (use assms in \<open>auto simp: ict_step_def arm_no_response_def disarm_no_response_def ict_set_hop_def
    ict_set_connection_def ict_hold_connection_def ict_inv_def ict_over_def cancel_is_waiting_def
    split: if_splits option.splits\<close>)

interpretation ict: tx_machine ict_step ict_over ict_inv
  by unfold_locales (use ict_step_contract in blast)+

lemma ict_new_inv [simp]: "ict_inv (fst (ict_new b tp tc))" "\<not> ict_over (fst (ict_new b tp tc))"
  by (simp_all add: ict_new_def ict_inv_def ict_over_def cancel_is_waiting_def)

lemma nict_new_inv [simp]: "nict_inv (fst (nict_new b tp tc))" "\<not> nict_over (fst (nict_new b tp tc))"
  by (simp_all add: nict_new_def nict_inv_def nict_over_def)

subsection \<open>The history of a CANCEL\<close>

fun is_final_op :: "ict_op \<Rightarrow> bool" where
  "is_final_op (IctEvent (IctResponse2xx _)) = True"
| "is_final_op (IctEvent (IctResponseNon2xx _)) = True"
| "is_final_op _ = False"

fun is_provisional_op :: "ict_op \<Rightarrow> bool" where
  "is_provisional_op (IctEvent e) = is_provisional e"
| "is_provisional_op _ = False"

definition cancel_of_invite :: "bytes \<Rightarrow> ict_op list \<Rightarrow> branch_cancel \<Rightarrow> bool" where
  "cancel_of_invite request_bytes ops c \<longleftrightarrow>
     (\<exists>invite reasons cancel. parse_sip_message_bytes request_bytes = Inr invite
        \<and> build_cancel invite reasons = Some cancel \<and> cancel_frame c = to_bytes cancel)
     \<and> (\<exists>hop conn. IctSetHop hop \<in> set ops \<and> cancel_hop c = hop\<lparr>connection_id := conn\<rparr>)"

definition ict_history :: "bytes \<Rightarrow> ict_op list \<Rightarrow> action list \<Rightarrow> ict \<Rightarrow> bool" where
  "ict_history rb ops as i \<longleftrightarrow> ict_request_bytes i = rb
     \<and> (ict_state i = IctProceeding \<longrightarrow> list_ex is_provisional_op ops)
     \<and> (list_ex is_final_op ops \<longrightarrow> ict_state i \<in> {IctCompleted, IctTerminated})
     \<and> length (cancels as) \<le> 1 \<and> (cancels as \<noteq> [] \<longrightarrow> ict_cancel i = CancelSent)
     \<and> (\<forall>c. ict_cancel i = Waiting c \<longrightarrow> cancel_of_invite rb ops c)
     \<and> (\<forall>h. ict_hop i = Some h \<longrightarrow> (\<exists>hop conn. IctSetHop hop \<in> set ops \<and> h = hop\<lparr>connection_id := conn\<rparr>))"

lemma ict_process_states:
  assumes "ict_process now i e = (i', as)"
  shows "ict_request_bytes i' = ict_request_bytes i \<and> ict_hop i' = ict_hop i
    \<and> (ict_state i' = IctProceeding \<longrightarrow> ict_state i = IctProceeding \<or> is_provisional e)
    \<and> (ict_state i \<in> {IctCompleted, IctTerminated} \<longrightarrow> ict_state i' \<in> {IctCompleted, IctTerminated})
    \<and> ((\<exists>m. e = IctResponse2xx m \<or> e = IctResponseNon2xx m) \<longrightarrow> ict_state i' \<in> {IctCompleted, IctTerminated})"
proof (cases "ict_no_response i")
  case NoRespOff
  then show ?thesis using assms ict_advance_states by (simp add: ict_process_def)
next
  case NoRespArmed
  obtain j bs where adv: "ict_advance now i e = (j, bs)" by (cases "ict_advance now i e")
  have "ict_request_bytes i' = ict_request_bytes j \<and> ict_hop i' = ict_hop j \<and> ict_state i' = ict_state j"
    using assms NoRespArmed adv by (auto simp: ict_process_def split: if_splits)
  then show ?thesis using ict_advance_states [OF adv] by simp
next
  case NoRespGaveUp
  then have "process_given_up now i e = (i', as)" using assms by (simp add: ict_process_def)
  then show ?thesis
  proof (cases rule: process_given_up_elim)
    case (advance bs)
    then show ?thesis using ict_advance_states by simp
  qed auto
qed

lemma ict_step_states:
  assumes "ict_step now i op = (i', as)"
  shows "ict_request_bytes i' = ict_request_bytes i
    \<and> (ict_state i' = IctProceeding \<longrightarrow> ict_state i = IctProceeding \<or> is_provisional_op op)
    \<and> (ict_state i \<in> {IctCompleted, IctTerminated} \<or> is_final_op op \<longrightarrow> ict_state i' \<in> {IctCompleted, IctTerminated})
    \<and> (\<forall>h. ict_hop i' = Some h \<longrightarrow> op = IctSetHop h \<or> ict_hop i = Some h \<or>
         (\<exists>g conn. ict_hop i = Some g \<and> h = g\<lparr>connection_id := conn\<rparr>))"
proof (cases op)
  case (IctEvent e)
  then have "ict_process now i e = (i', as)" using assms by (simp add: ict_step_def)
  from ict_process_states [OF this] IctEvent show ?thesis by (cases e) simp_all
next
  case (IctRequestCancel reasons)
  then show ?thesis using assms
    by (cases "ict_state i"; cases "ict_cancel i")
      (auto simp: ict_step_def request_cancel_def Let_def split: sum.splits)
qed (use assms in \<open>auto simp: ict_step_def arm_no_response_def disarm_no_response_def ict_set_hop_def
    ict_set_connection_def ict_hold_connection_def split: if_splits option.splits\<close>)

lemma ict_build_cancel_of_invite:
  assumes "ict_build_cancel i reasons = Inr c" and "ict_history rb ops as i"
  shows "cancel_of_invite rb ops c"
proof -
  obtain hop invite cancel where c: "ict_hop i = Some hop" "parse_sip_message_bytes (ict_request_bytes i) = Inr invite"
      "build_cancel invite reasons = Some cancel" "c = \<lparr>cancel_frame = to_bytes cancel, cancel_hop = hop\<rparr>"
    using assms(1) by (auto simp: ict_build_cancel_def split: option.splits sum.splits)
  have "ict_request_bytes i = rb" "\<exists>h conn. IctSetHop h \<in> set ops \<and> hop = h\<lparr>connection_id := conn\<rparr>"
    using assms(2) c(1) by (auto simp: ict_history_def)
  with c show ?thesis unfolding cancel_of_invite_def by auto
qed

lemma cancel_of_invite_mono: "cancel_of_invite rb ops c \<Longrightarrow> cancel_of_invite rb (ops @ [op]) c"
  unfolding cancel_of_invite_def by auto

lemma ict_history_step:
  assumes hist: "ict_history rb ops as i" and step: "ict_step now i op = (i', bs)"
  shows "ict_history rb (ops @ [op]) (as @ bs) i'"
    and "\<forall>c \<in> set (cancels bs). list_ex is_provisional_op (ops @ [op]) \<and> \<not> list_ex is_final_op ops
          \<and> cancel_of_invite rb ops c"
proof -
  note states = ict_step_states [OF step] and moves = ict_step_cancel [OF step]
  have prov: "is_provisional_op op" if "\<exists>m. op = IctEvent (IctProvisional m)" using that by auto
  consider (none) "cancels bs = []" "ict_cancel i' = ict_cancel i \<or> ict_cancel i' = NotRequested \<and> cancel_is_waiting i"
    | (wait) c reasons where "cancels bs = []" "ict_cancel i = NotRequested" "ict_cancel i' = Waiting c"
        "ict_build_cancel i reasons = Inr c"
    | (released) c where "cancels bs = [c]" "ict_cancel i' = CancelSent" "is_provisional_op op"
        "ict_state i = IctCalling" "ict_cancel i = Waiting c"
    | (built) c reasons where "cancels bs = [c]" "ict_cancel i' = CancelSent" "ict_state i = IctProceeding"
        "ict_cancel i = NotRequested" "ict_build_cancel i reasons = Inr c"
    using moves prov unfolding cancel_moves_def by blast
  then have cancel: "length (cancels (as @ bs)) \<le> 1 \<and> (cancels (as @ bs) \<noteq> [] \<longrightarrow> ict_cancel i' = CancelSent)
      \<and> (\<forall>c. ict_cancel i' = Waiting c \<longrightarrow> cancel_of_invite rb (ops @ [op]) c)
      \<and> (\<forall>c \<in> set (cancels bs). list_ex is_provisional_op (ops @ [op]) \<and> \<not> list_ex is_final_op ops
          \<and> cancel_of_invite rb ops c)"
  proof cases
    case none
    then show ?thesis using hist
      by (auto simp: ict_history_def cancel_is_waiting_def intro: cancel_of_invite_mono split: cancel_progress.splits)
  next
    case (wait c reasons)
    have "cancels as = []" using hist wait(2) by (auto simp: ict_history_def)
    with wait cancel_of_invite_mono [OF ict_build_cancel_of_invite [OF wait(4) hist]] show ?thesis by simp
  next
    case (released c)
    have "cancels as = []" using hist released(5) by (auto simp: ict_history_def)
    with released hist show ?thesis by (auto simp: ict_history_def)
  next
    case (built c reasons)
    have "cancels as = []" using hist built(4) by (auto simp: ict_history_def)
    with built hist ict_build_cancel_of_invite [OF built(5) hist] show ?thesis by (auto simp: ict_history_def)
  qed
  then show "\<forall>c \<in> set (cancels bs). list_ex is_provisional_op (ops @ [op]) \<and> \<not> list_ex is_final_op ops
      \<and> cancel_of_invite rb ops c" by blast
  have hop: "\<exists>hop conn. IctSetHop hop \<in> set (ops @ [op]) \<and> h = hop\<lparr>connection_id := conn\<rparr>" if hop': "ict_hop i' = Some h" for h
  proof -
    consider "op = IctSetHop h" | g conn where "ict_hop i = Some g" "h = g \<or> h = g\<lparr>connection_id := conn\<rparr>"
      using states hop' by blast
    then show ?thesis
    proof cases
      case 1
      then show ?thesis by (intro exI [of _ h] exI [of _ "connection_id h"]) simp
    next
      case 2
      then obtain hop c0 where "IctSetHop hop \<in> set ops" "g = hop\<lparr>connection_id := c0\<rparr>"
        using hist by (auto simp: ict_history_def)
      with 2(2) show ?thesis by (intro exI [of _ hop]) auto
    qed
  qed
  show "ict_history rb (ops @ [op]) (as @ bs) i'"
    unfolding ict_history_def using cancel states hop hist by (auto simp: ict_history_def)
qed

lemma ict_history_run:
  "run_machine ict_step (fst (ict_new rb tp tc)) ops = (i, as) \<Longrightarrow> ict_history rb (map snd ops) as i"
proof (induction rule: run_machine_induct)
  case start
  then show ?case by (auto simp: ict_history_def ict_new_def)
next
  case (step ops as i x op i' bs)
  then show ?case using ict_history_step(1) [OF step.IH step.hyps(2)] by simp
qed

text \<open>
  C1. The CANCEL of a proxied INVITE: whatever happens to an INVITE client transaction, in any
  order (responses, timers, requests to cancel, the no-response timer, the recording of its
  hop), at most one CANCEL is ever sent; it is sent only once a provisional response has
  arrived and not after a final one (RFC 3261 section 9.1); and it is the CANCEL built from the
  INVITE as sent, for a hop recorded for that INVITE.
\<close>

theorem ict_cancel_discipline:
  assumes "run_machine ict_step (fst (ict_new request_bytes tp tc)) ops = (i, as)"
    and "ict_step now i op = (i', bs)"
  shows "length (cancels (as @ bs)) \<le> 1
    \<and> (\<forall>c \<in> set (cancels bs).
        list_ex is_provisional_op (map snd ops @ [op]) \<and> \<not> list_ex is_final_op (map snd ops)
        \<and> cancel_of_invite request_bytes (map snd ops) c)"
  using ict_history_step [OF ict_history_run [OF assms(1)] assms(2)]
  unfolding ict_history_def by blast

definition example_hop :: branch_hop where
  "example_hop = \<lparr>destination = (''192.0.2.1'', 5060), hop_transport = NetUdp, connection_id = 0,
     source_local_addr = None\<rparr>"

definition example_wire :: bytes where
  "example_wire = ''INVITE sip:b SIP/2.0'' @ crlf @ ''v:x'' @ crlf @ ''CSeq:1 INVITE'' @ crlf @ crlf"

definition example_ops :: "(instant \<times> ict_op) list" where
  "example_ops = [(0, IctSetHop example_hop), (0, IctRequestCancel [])]"

theorem ict_cancel_discipline_witness:
  "let (i, as) = run_machine ict_step (fst (ict_new example_wire Udp timers_default)) example_ops;
       (i', bs) = ict_step 0 i (IctEvent (IctProvisional (example_reply 180 ''Ringing'')))
   in length (cancels bs) = 1 \<and> length (cancels (as @ bs)) \<le> 1
     \<and> (\<forall>c \<in> set (cancels bs). cancel_of_invite example_wire (map snd example_ops) c)"
proof -
  let ?r = "run_machine ict_step (fst (ict_new example_wire Udp timers_default)) example_ops"
  let ?s = "ict_step 0 (fst ?r) (IctEvent (IctProvisional (example_reply 180 ''Ringing'')))"
  have "length (cancels (snd ?s)) = 1" by code_simp
  then show ?thesis
    using ict_cancel_discipline [of example_wire Udp timers_default example_ops "fst ?r" "snd ?r"
        0 "IctEvent (IctProvisional (example_reply 180 ''Ringing''))" "fst ?s" "snd ?s"]
    by (simp add: split_beta)
qed

subsection \<open>The frames of a client transaction\<close>

fun frames :: "action list \<Rightarrow> bytes list" where
  "frames [] = []"
| "frames (SendFrame f # as) = f # frames as"
| "frames (_ # as) = frames as"

lemma frames_append [simp]: "frames (as @ bs) = frames as @ frames bs"
  by (induction as rule: frames.induct) auto

lemma frames_filter [simp]: "frames (filter (\<lambda>a. \<not> is_pass_to_tu a) as) = frames as"
  by (induction as rule: frames.induct) auto


lemma cached_ack_fields [simp]:
  "cached_ack (note_progress now i r) = cached_ack i"
  "cached_ack (drop_waiting_cancel i) = cached_ack i"
  "cached_ack (fst (release_waiting_cancel i)) = cached_ack i"
  "cached_ack (fst (stop_timer_c i)) = cached_ack i"
  by (auto simp: note_progress_def drop_waiting_cancel_def release_waiting_cancel_def stop_timer_c_def
      split: option.splits cancel_progress.splits)














subsection \<open>Timer C\<close>

text \<open>
  C28. An INVITE that rings on is given up: from \<^verbatim>\<open>Proceeding\<close>, with its last 101 to 199
  response at time p, Timer B hands over to Timer C, set for what is left of the time counted
  from p; when that comes due with nothing new, the CANCEL of the INVITE is sent and the final
  response is given 64*T1; when that too has passed the transaction ends with a timeout
  (RFC 3261 sections 16.6 step 11 and 16.8).
\<close>

theorem timer_c_gives_up:
  assumes "ict_state i = IctProceeding" and "ict_no_response i = NoRespOff"
    and "ict_timer_c i = TimerCIdle" and "ict_cancel i = NotRequested"
    and "ict_build_cancel i [] = Inr c" and "last_progress i = Some p"
    and "t0 < p + int (timer_c (ict_timers i))" and "p + int (timer_c (ict_timers i)) \<le> due"
  shows "\<exists>i'. run_machine ict_step i
      [(t0, IctEvent IctTimerB), (due, IctEvent IctTimerC), (later, IctEvent IctTimerC)]
    = (i', [StartTimer T_C (nat (p + int (timer_c (ict_timers i)) - t0)),
            SendCancel c, StartTimer T_C (timer_b (ict_timers i)), Timeout, Terminated])
    \<and> ict_over i'"
proof -
  have build: "ict_build_cancel j [] = Inr c" if "ict_hop j = ict_hop i" "ict_request_bytes j = ict_request_bytes i" for j
    using ict_build_cancel_cong [OF that] assms(5) by simp
  show ?thesis using assms(1-4,6-8)
    by (simp add: ict_step_def ict_process_def ict_advance_def start_timer_c_def timer_c_due_def
        saturating_duration_since_def build ict_over_def)
qed

definition example_ringing :: ict where
  "example_ringing = (fst (ict_new example_wire Udp timers_default))
     \<lparr>ict_state := IctProceeding, ict_hop := Some example_hop, last_progress := Some 0\<rparr>"

theorem timer_c_gives_up_witness:
  "\<exists>i' c. run_machine ict_step example_ringing
      [(32000000000, IctEvent IctTimerB), (181000000000, IctEvent IctTimerC), (213000000000, IctEvent IctTimerC)]
    = (i', [StartTimer T_C 149000000000, SendCancel c, StartTimer T_C 32000000000, Timeout, Terminated])
    \<and> ict_over i'"
proof -
  have "case ict_build_cancel example_ringing [] of Inr _ \<Rightarrow> True | Inl _ \<Rightarrow> False" by code_simp
  then obtain c where c: "ict_build_cancel example_ringing [] = Inr c" by (auto split: sum.splits)
  have tc: "ict_timers example_ringing = timers_default" by (simp add: example_ringing_def ict_new_def)
  have b: "timer_b timers_default = 32000000000" and c3: "timer_c timers_default = 181000000000"
    by code_simp+
  show ?thesis
    using timer_c_gives_up [of example_ringing c 0 32000000000 181000000000 213000000000] c
    unfolding tc b c3 by (auto simp: example_ringing_def ict_new_def)
qed

end
