(* ===== verification/Tx_Manager.thy ===== *)
theory Tx_Manager
  imports Tx_Server Tx_Client_Facts "HOL-Library.AList"
begin

text \<open>
  Transaction keys (\<^verbatim>\<open>src/src/transaction/key.rs\<close>) and the manager that owns every live
  transaction (\<^verbatim>\<open>src/src/transaction/mod.rs\<close>).  The sharded map of the source is an association
  list; each operation is atomic on the entry of its key, as it is under the shard's lock.  The
  one operation that is not a single lock in the source, the removal of a transaction after it
  said it ended, has its two halves as separate definitions, and the lemmas say what may happen
  between them.
\<close>

subsection \<open>Keys\<close>

record transaction_key =
  key_branch :: string
  key_method :: sip_method
  key_sent_by :: string

definition key_new :: "string \<Rightarrow> sip_method \<Rightarrow> string \<Rightarrow> transaction_key" where
  "key_new branch m sent_by =
     \<lparr>key_branch = branch, key_method = (case m of Ack \<Rightarrow> Invite | other \<Rightarrow> other), key_sent_by = sent_by\<rparr>"

definition key_from_parts :: "string \<Rightarrow> string \<Rightarrow> string \<Rightarrow> transaction_key" where
  "key_from_parts branch m sent_by = key_new branch (method_from_str m) sent_by"

definition is_rfc3261_branch :: "string \<Rightarrow> bool" where
  "is_rfc3261_branch branch = starts_with ''z9hG4bK'' branch"

definition generate_branch :: "string \<Rightarrow> string" where
  "generate_branch uuid = ''z9hG4bK-'' @ uuid"

definition format_sent_by :: "string \<Rightarrow> nat option \<Rightarrow> string" where
  "format_sent_by host port = (case port of Some p \<Rightarrow> host @ '':'' @ show_nat p | None \<Rightarrow> host)"

definition show_key :: "transaction_key \<Rightarrow> string" where
  "show_key k = key_branch k @ '':'' @ method_as_str (key_method k) @ '':'' @ key_sent_by k"

datatype key_error =
    NoViaHeader | ViaUnparsable hdr_error | ViaHeaderEmpty | NoBranchParam | NoCSeqHeader | CSeqUnparsable hdr_error

definition key_from_message :: "sip_message \<Rightarrow> key_error + transaction_key" where
  "key_from_message m =
     (case (case hdr_get (msg_headers m) ''Via'' of Some v \<Rightarrow> Some v | None \<Rightarrow> hdr_get (msg_headers m) ''v'') of
        None \<Rightarrow> Inl NoViaHeader
      | Some via_raw \<Rightarrow>
        (case via_parse_multi via_raw of
           Inl e \<Rightarrow> Inl (ViaUnparsable e)
         | Inr [] \<Rightarrow> Inl ViaHeaderEmpty
         | Inr (top_via # _) \<Rightarrow>
           (case via_branch top_via of
              None \<Rightarrow> Inl NoBranchParam
            | Some branch \<Rightarrow>
              (case (case msg_start_line m of
                       Request rl \<Rightarrow> Inr (rl_method rl)
                     | Response _ \<Rightarrow>
                       (case hdr_get (msg_headers m) ''CSeq'' of
                          None \<Rightarrow> Inl NoCSeqHeader
                        | Some raw \<Rightarrow>
                          (case cseq_parse raw of Inl e \<Rightarrow> Inl (CSeqUnparsable e) | Inr c \<Rightarrow> Inr (cseq_method c)))) of
                 Inl e \<Rightarrow> Inl e
               | Inr method \<Rightarrow>
                 Inr (key_new branch method (format_sent_by (via_host top_via) (via_port top_via)))))))"

subsection \<open>The manager\<close>

datatype transaction = TxIct ict | TxNict nict | TxIst ist | TxNist nist

datatype server_event = ServerIst ist_event | ServerNist nist_event

datatype client_event = ClientIct ict_event | ClientNict nict_event

record transaction_manager =
  transactions :: "(transaction_key \<times> transaction) list"
  mgr_timers :: timer_config

datatype mgr_error =
    KeyError key_error | ExpectedRequest | AckHasNoClientTransaction
  | ClientTransactionExists transaction_key | NoTransaction transaction_key | EventMismatch

record server_outcome =
  outcome_key :: transaction_key
  outcome_actions :: "action list"
  outcome_is_new :: bool

definition mgr_new :: "timer_config \<Rightarrow> transaction_manager" where
  "mgr_new timers = \<lparr>transactions = [], mgr_timers = timers\<rparr>"

abbreviation mgr_get :: "transaction_manager \<Rightarrow> transaction_key \<Rightarrow> transaction option" where
  "mgr_get m k \<equiv> map_of (transactions m) k"

definition mgr_put :: "transaction_key \<Rightarrow> transaction \<Rightarrow> transaction_manager \<Rightarrow> transaction_manager" where
  "mgr_put k t m = m\<lparr>transactions := AList.update k t (transactions m)\<rparr>"

definition mgr_count :: "transaction_manager \<Rightarrow> nat" where
  "mgr_count m = length (transactions m)"

definition count_where :: "(transaction_key \<Rightarrow> bool) \<Rightarrow> transaction_manager \<Rightarrow> nat" where
  "count_where counted m = length (filter (\<lambda>(k, _). counted k) (transactions m))"

definition mgr_contains :: "transaction_manager \<Rightarrow> transaction_key \<Rightarrow> bool" where
  "mgr_contains m k \<longleftrightarrow> mgr_get m k \<noteq> None"

definition mgr_remove :: "transaction_key \<Rightarrow> transaction_manager \<Rightarrow> transaction_manager \<times> transaction option" where
  "mgr_remove k m = (m\<lparr>transactions := AList.delete k (transactions m)\<rparr>, mgr_get m k)"

definition mgr_drop :: "transaction_key \<Rightarrow> transaction_manager \<Rightarrow> transaction_manager" where
  "mgr_drop k m = fst (mgr_remove k m)"

text \<open>The removal that follows an event: only if the event's actions say so.\<close>

definition drop_if_ended :: "transaction_key \<Rightarrow> action list \<Rightarrow> transaction_manager \<Rightarrow> transaction_manager" where
  "drop_if_ended k actions m = (if Terminated \<in> set actions then mgr_drop k m else m)"

definition new_server_transaction ::
  "transaction_manager \<Rightarrow> sip_message \<Rightarrow> transport \<Rightarrow> transaction_manager \<times> (mgr_error + server_outcome)" where
  "new_server_transaction m request tp =
     (case key_from_message request of
        Inl e \<Rightarrow> (m, Inl (KeyError e))
      | Inr key \<Rightarrow>
        (case msg_start_line request of
           Response _ \<Rightarrow> (m, Inl ExpectedRequest)
         | Request rl \<Rightarrow>
           if rl_method rl = Ack
           then (m, Inr \<lparr>outcome_key = key, outcome_actions = [], outcome_is_new = True\<rparr>)
           else
             (let (t, actions) =
                    (if rl_method rl = Invite
                     then (TxIst (ist_new tp (mgr_timers m)), [PassToTu request])
                     else (case nist_new request tp (mgr_timers m) of
                             (n, as) \<Rightarrow> (TxNist n, as @ [PassToTu request])))
              in if mgr_get m key = None
                 then (mgr_put key t m, Inr \<lparr>outcome_key = key, outcome_actions = actions, outcome_is_new = True\<rparr>)
                 else (m, Inr \<lparr>outcome_key = key, outcome_actions = [], outcome_is_new = False\<rparr>))))"

text \<open>The locked halves: the entry's machine takes the event and stays in the map.\<close>

definition ack_locked ::
  "tag_env \<Rightarrow> transaction_manager \<Rightarrow> transaction_key \<Rightarrow> sip_message \<Rightarrow> transaction_manager \<times> action list option" where
  "ack_locked env m key request =
     (case mgr_get m key of
        Some (TxIst i) \<Rightarrow>
          (case ist_process env i (IstAckReceived request) of
             (i', actions) \<Rightarrow> (mgr_put key (TxIst i') m, Some actions))
      | _ \<Rightarrow> (m, None))"

definition retransmit_locked ::
  "tag_env \<Rightarrow> transaction_manager \<Rightarrow> transaction_key \<Rightarrow> sip_message \<Rightarrow> transaction_manager \<times> action list option" where
  "retransmit_locked env m key request =
     (case mgr_get m key of
        Some (TxIst i) \<Rightarrow>
          (case ist_process env i (IstInviteRetransmit request) of
             (i', actions) \<Rightarrow> (mgr_put key (TxIst i') m, Some actions))
      | Some (TxNist n) \<Rightarrow>
          (case nist_process env n (NistRequestRetransmit request) of
             (n', actions) \<Rightarrow> (mgr_put key (TxNist n') m, Some actions))
      | _ \<Rightarrow> (m, None))"

definition handle_ack ::
  "tag_env \<Rightarrow> transaction_manager \<Rightarrow> sip_message
     \<Rightarrow> transaction_manager \<times> (mgr_error + (transaction_key \<times> action list) option)" where
  "handle_ack env m request =
     (case key_from_message request of
        Inl e \<Rightarrow> (m, Inl (KeyError e))
      | Inr key \<Rightarrow>
        (case ack_locked env m key request of
           (m', None) \<Rightarrow> (m', Inr None)
         | (m', Some actions) \<Rightarrow> (drop_if_ended key actions m', Inr (Some (key, actions)))))"

definition handle_server_retransmit ::
  "tag_env \<Rightarrow> transaction_manager \<Rightarrow> sip_message
     \<Rightarrow> transaction_manager \<times> (mgr_error + (transaction_key \<times> action list) option)" where
  "handle_server_retransmit env m request =
     (case key_from_message request of
        Inl e \<Rightarrow> (m, Inl (KeyError e))
      | Inr key \<Rightarrow>
        (case retransmit_locked env m key request of
           (m', None) \<Rightarrow> (m', Inr None)
         | (m', Some actions) \<Rightarrow> (drop_if_ended key actions m', Inr (Some (key, actions)))))"

definition new_client_transaction ::
  "transaction_manager \<Rightarrow> sip_message \<Rightarrow> bytes \<Rightarrow> transport
     \<Rightarrow> transaction_manager \<times> (mgr_error + (transaction_key \<times> action list))" where
  "new_client_transaction m request wire tp =
     (case key_from_message request of
        Inl e \<Rightarrow> (m, Inl (KeyError e))
      | Inr key \<Rightarrow>
        if msg_method request = Some Ack then (m, Inl AckHasNoClientTransaction)
        else
          (let (t, actions) =
                 (if msg_method request = Some Invite
                  then (case ict_new wire tp (mgr_timers m) of (i, as) \<Rightarrow> (TxIct i, as))
                  else (case nict_new wire tp (mgr_timers m) of (n, as) \<Rightarrow> (TxNict n, as)))
           in if mgr_get m key = None then (mgr_put key t m, Inr (key, actions))
              else (m, Inl (ClientTransactionExists key))))"

definition server_event_locked ::
  "tag_env \<Rightarrow> transaction_manager \<Rightarrow> transaction_key \<Rightarrow> server_event \<Rightarrow> transaction_manager \<times> (mgr_error + action list)" where
  "server_event_locked env m key event =
     (case mgr_get m key of
        None \<Rightarrow> (m, Inl (NoTransaction key))
      | Some (TxIst i) \<Rightarrow>
          (case event of
             ServerIst e \<Rightarrow> (case ist_process env i e of (i', as) \<Rightarrow> (mgr_put key (TxIst i') m, Inr as))
           | _ \<Rightarrow> (m, Inl EventMismatch))
      | Some (TxNist n) \<Rightarrow>
          (case event of
             ServerNist e \<Rightarrow> (case nist_process env n e of (n', as) \<Rightarrow> (mgr_put key (TxNist n') m, Inr as))
           | _ \<Rightarrow> (m, Inl EventMismatch))
      | _ \<Rightarrow> (m, Inl EventMismatch))"

definition client_event_locked ::
  "instant \<Rightarrow> transaction_manager \<Rightarrow> transaction_key \<Rightarrow> client_event \<Rightarrow> transaction_manager \<times> (mgr_error + action list)" where
  "client_event_locked now m key event =
     (case mgr_get m key of
        None \<Rightarrow> (m, Inl (NoTransaction key))
      | Some (TxIct i) \<Rightarrow>
          (case event of
             ClientIct e \<Rightarrow> (case ict_process now i e of (i', as) \<Rightarrow> (mgr_put key (TxIct i') m, Inr as))
           | _ \<Rightarrow> (m, Inl EventMismatch))
      | Some (TxNict n) \<Rightarrow>
          (case event of
             ClientNict e \<Rightarrow> (case nict_process n e of (n', as) \<Rightarrow> (mgr_put key (TxNict n') m, Inr as))
           | _ \<Rightarrow> (m, Inl EventMismatch))
      | _ \<Rightarrow> (m, Inl EventMismatch))"

definition process_server_event ::
  "tag_env \<Rightarrow> transaction_manager \<Rightarrow> transaction_key \<Rightarrow> server_event \<Rightarrow> transaction_manager \<times> (mgr_error + action list)" where
  "process_server_event env m key event =
     (case server_event_locked env m key event of
        (m', Inl e) \<Rightarrow> (m', Inl e)
      | (m', Inr actions) \<Rightarrow> (drop_if_ended key actions m', Inr actions))"

definition process_client_event ::
  "instant \<Rightarrow> transaction_manager \<Rightarrow> transaction_key \<Rightarrow> client_event \<Rightarrow> transaction_manager \<times> (mgr_error + action list)" where
  "process_client_event now m key event =
     (case client_event_locked now m key event of
        (m', Inl e) \<Rightarrow> (m', Inl e)
      | (m', Inr actions) \<Rightarrow> (drop_if_ended key actions m', Inr actions))"

definition cancel_invite_client ::
  "transaction_manager \<Rightarrow> transaction_key \<Rightarrow> string list \<Rightarrow> transaction_manager \<times> cancel_outcome" where
  "cancel_invite_client m key reasons =
     (case mgr_get m key of
        Some (TxIct i) \<Rightarrow> (case request_cancel i reasons of (i', out) \<Rightarrow> (mgr_put key (TxIct i') m, out))
      | _ \<Rightarrow> (m, NothingToSend))"

definition mgr_arm_no_response ::
  "transaction_manager \<Rightarrow> transaction_key \<Rightarrow> duration \<Rightarrow> transaction_manager \<times> action option" where
  "mgr_arm_no_response m key after =
     (case mgr_get m key of
        Some (TxIct i) \<Rightarrow> (case arm_no_response i after of (i', a) \<Rightarrow> (mgr_put key (TxIct i') m, a))
      | Some (TxNict n) \<Rightarrow> (case nict_arm_no_response n after of (n', a) \<Rightarrow> (mgr_put key (TxNict n') m, a))
      | _ \<Rightarrow> (m, None))"

definition mgr_disarm_no_response :: "transaction_manager \<Rightarrow> transaction_key \<Rightarrow> transaction_manager \<times> bool" where
  "mgr_disarm_no_response m key =
     (case mgr_get m key of
        Some (TxIct i) \<Rightarrow> (case disarm_no_response i of (i', was) \<Rightarrow> (mgr_put key (TxIct i') m, was))
      | _ \<Rightarrow> (m, False))"

definition invite_client_gave_up :: "transaction_manager \<Rightarrow> transaction_key \<Rightarrow> bool" where
  "invite_client_gave_up m key = (case mgr_get m key of Some (TxIct i) \<Rightarrow> gave_up i | _ \<Rightarrow> False)"

definition restore_given_up :: "transaction_manager \<Rightarrow> transaction_key \<Rightarrow> transaction \<Rightarrow> transaction_manager" where
  "restore_given_up m key t = (if mgr_get m key = None then mgr_put key t m else m)"

definition set_client_hop :: "transaction_manager \<Rightarrow> transaction_key \<Rightarrow> branch_hop \<Rightarrow> transaction_manager" where
  "set_client_hop m key hop =
     (case mgr_get m key of Some (TxIct i) \<Rightarrow> mgr_put key (TxIct (ict_set_hop i hop)) m | _ \<Rightarrow> m)"

definition set_client_connection :: "transaction_manager \<Rightarrow> transaction_key \<Rightarrow> nat \<Rightarrow> transaction_manager" where
  "set_client_connection m key conn =
     (case mgr_get m key of Some (TxIct i) \<Rightarrow> mgr_put key (TxIct (ict_set_connection i conn)) m | _ \<Rightarrow> m)"

definition hold_client_connection :: "transaction_manager \<Rightarrow> transaction_key \<Rightarrow> nat \<Rightarrow> transaction_manager" where
  "hold_client_connection m key hold =
     (case mgr_get m key of
        Some (TxIct i) \<Rightarrow> mgr_put key (TxIct (ict_hold_connection i hold)) m
      | Some (TxNict n) \<Rightarrow> mgr_put key (TxNict (nict_hold_connection n hold)) m
      | _ \<Rightarrow> m)"

definition client_hop :: "transaction_manager \<Rightarrow> transaction_key \<Rightarrow> branch_hop option" where
  "client_hop m key = (case mgr_get m key of Some (TxIct i) \<Rightarrow> ict_hop i | _ \<Rightarrow> None)"

definition invite_server_has_final :: "transaction_manager \<Rightarrow> transaction_key \<Rightarrow> bool" where
  "invite_server_has_final m key =
     (case mgr_get m key of Some (TxIst i) \<Rightarrow> ist_state i \<in> {IstCompleted, IstConfirmed} | _ \<Rightarrow> False)"

definition invite_client_is_pending :: "transaction_manager \<Rightarrow> transaction_key \<Rightarrow> bool" where
  "invite_client_is_pending m key =
     (case mgr_get m key of Some (TxIct i) \<Rightarrow> ict_state i \<in> {IctCalling, IctProceeding} | _ \<Rightarrow> False)"

end
