(* ===== verification/Tx_Manager_Facts.thy ===== *)
theory Tx_Manager_Facts
  imports Tx_Manager
begin

text \<open>
  The manager as a family of independent slots, one per key: an abstract specification over the
  four machines, the refinement of it by the manager's operations, the invariant of every
  reachable manager, and what follows for requests that arrive twice, for the gap between the
  end of a transaction and its removal, and for the ACK of a failed INVITE.
\<close>

subsection \<open>Operations\<close>

datatype mgr_op =
    MNewServer sip_message transport | MAck sip_message | MRetransmit sip_message
  | MNewClient sip_message bytes transport
  | MServer transaction_key server_event | MClient transaction_key client_event
  | MCancel transaction_key "string list" | MArm transaction_key duration | MDisarm transaction_key
  | MRestore transaction_key transaction | MHop transaction_key branch_hop
  | MConnection transaction_key nat | MHold transaction_key nat | MRemove transaction_key

definition msg_key :: "sip_message \<Rightarrow> transaction_key option" where
  "msg_key m = (case key_from_message m of Inr k \<Rightarrow> Some k | Inl _ \<Rightarrow> None)"

fun op_key :: "mgr_op \<Rightarrow> transaction_key option" where
  "op_key (MNewServer r _) = msg_key r"
| "op_key (MAck r) = msg_key r"
| "op_key (MRetransmit r) = msg_key r"
| "op_key (MNewClient r _ _) = msg_key r"
| "op_key (MServer k _) = Some k"
| "op_key (MClient k _) = Some k"
| "op_key (MCancel k _) = Some k"
| "op_key (MArm k _) = Some k"
| "op_key (MDisarm k) = Some k"
| "op_key (MRestore k _) = Some k"
| "op_key (MHop k _) = Some k"
| "op_key (MConnection k _) = Some k"
| "op_key (MHold k _) = Some k"
| "op_key (MRemove k) = Some k"

definition of_option :: "action option \<Rightarrow> action list" where
  "of_option a = (case a of Some t \<Rightarrow> [t] | None \<Rightarrow> [])"

definition of_result :: "'a + action list \<Rightarrow> action list" where
  "of_result r = (case r of Inr as \<Rightarrow> as | Inl _ \<Rightarrow> [])"

definition of_cancel :: "cancel_outcome \<Rightarrow> action list" where
  "of_cancel c = (case c of SendNow b \<Rightarrow> [SendCancel b] | _ \<Rightarrow> [])"

text \<open>One operation, with what it asks to be done; a failed operation asks for nothing.\<close>

definition mgr_step :: "tag_env \<times> instant \<Rightarrow> transaction_manager \<Rightarrow> mgr_op \<Rightarrow> transaction_manager \<times> action list" where
  "mgr_step x m op =
     (case op of
        MNewServer r tp \<Rightarrow>
          map_prod id (\<lambda>res. case res of Inr out \<Rightarrow> outcome_actions out | Inl _ \<Rightarrow> []) (new_server_transaction m r tp)
      | MAck r \<Rightarrow>
          map_prod id (\<lambda>res. case res of Inr (Some (_, as)) \<Rightarrow> as | _ \<Rightarrow> []) (handle_ack (fst x) m r)
      | MRetransmit r \<Rightarrow>
          map_prod id (\<lambda>res. case res of Inr (Some (_, as)) \<Rightarrow> as | _ \<Rightarrow> []) (handle_server_retransmit (fst x) m r)
      | MNewClient r wire tp \<Rightarrow>
          map_prod id (\<lambda>res. case res of Inr (_, as) \<Rightarrow> as | Inl _ \<Rightarrow> []) (new_client_transaction m r wire tp)
      | MServer k e \<Rightarrow> map_prod id of_result (process_server_event (fst x) m k e)
      | MClient k e \<Rightarrow> map_prod id of_result (process_client_event (snd x) m k e)
      | MCancel k reasons \<Rightarrow> map_prod id of_cancel (cancel_invite_client m k reasons)
      | MArm k d \<Rightarrow> map_prod id of_option (mgr_arm_no_response m k d)
      | MDisarm k \<Rightarrow> map_prod id (\<lambda>was. if was then [CancelTimer T_NoResponse] else []) (mgr_disarm_no_response m k)
      | MRestore k t \<Rightarrow> (restore_given_up m k t, [])
      | MHop k hop \<Rightarrow> (set_client_hop m k hop, [])
      | MConnection k c \<Rightarrow> (set_client_connection m k c, [])
      | MHold k c \<Rightarrow> (hold_client_connection m k c, [])
      | MRemove k \<Rightarrow> (fst (mgr_remove k m), []))"

subsection \<open>The abstract slot\<close>

text \<open>What a live transaction does with an operation: the step of its machine, if it is one of its.\<close>

definition tx_step :: "tag_env \<times> instant \<Rightarrow> transaction \<Rightarrow> mgr_op \<Rightarrow> transaction \<times> action list" where
  "tx_step x t op =
     (case t of
        TxIst i \<Rightarrow>
          (case op of
             MAck r \<Rightarrow> map_prod TxIst id (ist_process (fst x) i (IstAckReceived r))
           | MRetransmit r \<Rightarrow> map_prod TxIst id (ist_process (fst x) i (IstInviteRetransmit r))
           | MServer _ (ServerIst e) \<Rightarrow> map_prod TxIst id (ist_process (fst x) i e)
           | _ \<Rightarrow> (t, []))
      | TxNist n \<Rightarrow>
          (case op of
             MRetransmit r \<Rightarrow> map_prod TxNist id (nist_process (fst x) n (NistRequestRetransmit r))
           | MServer _ (ServerNist e) \<Rightarrow> map_prod TxNist id (nist_process (fst x) n e)
           | _ \<Rightarrow> (t, []))
      | TxIct i \<Rightarrow>
          (case op of
             MClient _ (ClientIct e) \<Rightarrow> map_prod TxIct id (ict_step (snd x) i (IctEvent e))
           | MCancel _ reasons \<Rightarrow> map_prod TxIct id (ict_step (snd x) i (IctRequestCancel reasons))
           | MArm _ d \<Rightarrow> map_prod TxIct id (ict_step (snd x) i (IctArm d))
           | MDisarm _ \<Rightarrow> map_prod TxIct id (ict_step (snd x) i IctDisarm)
           | MHop _ hop \<Rightarrow> map_prod TxIct id (ict_step (snd x) i (IctSetHop hop))
           | MConnection _ c \<Rightarrow> map_prod TxIct id (ict_step (snd x) i (IctSetConnection c))
           | MHold _ c \<Rightarrow> map_prod TxIct id (ict_step (snd x) i (IctHold c))
           | _ \<Rightarrow> (t, []))
      | TxNict n \<Rightarrow>
          (case op of
             MClient _ (ClientNict e) \<Rightarrow> map_prod TxNict id (nict_step () n (NictEvent e))
           | MArm _ d \<Rightarrow> map_prod TxNict id (nict_step () n (NictArm d))
           | MHold _ c \<Rightarrow> map_prod TxNict id (nict_step () n (NictHold c))
           | _ \<Rightarrow> (t, [])))"

text \<open>The transaction a creating operation makes, with its first actions.\<close>

definition server_tx :: "timer_config \<Rightarrow> sip_message \<Rightarrow> transport \<Rightarrow> (transaction \<times> action list) option" where
  "server_tx tc r tp =
     (case msg_method r of
        None \<Rightarrow> None
      | Some Ack \<Rightarrow> None
      | Some Invite \<Rightarrow> Some (TxIst (ist_new tp tc), [PassToTu r])
      | Some _ \<Rightarrow> Some (TxNist (fst (nist_new r tp tc)), snd (nist_new r tp tc) @ [PassToTu r]))"

definition client_tx :: "timer_config \<Rightarrow> sip_message \<Rightarrow> bytes \<Rightarrow> transport \<Rightarrow> (transaction \<times> action list) option" where
  "client_tx tc r wire tp =
     (if msg_method r = Some Ack then None
      else if msg_method r = Some Invite then Some (map_prod TxIct id (ict_new wire tp tc))
      else Some (map_prod TxNict id (nict_new wire tp tc)))"

definition slot_step ::
  "timer_config \<Rightarrow> tag_env \<times> instant \<Rightarrow> transaction option \<Rightarrow> mgr_op \<Rightarrow> transaction option \<times> action list" where
  "slot_step tc x slot op =
     (case slot of
        None \<Rightarrow>
          (case (case op of MNewServer r tp \<Rightarrow> server_tx tc r tp
                 | MNewClient r wire tp \<Rightarrow> client_tx tc r wire tp
                 | MRestore _ t \<Rightarrow> Some (t, [])
                 | _ \<Rightarrow> None) of
             Some (t, as) \<Rightarrow> (Some t, as)
           | None \<Rightarrow> (None, []))
      | Some t \<Rightarrow>
          (case op of
             MRemove _ \<Rightarrow> (None, [])
           | _ \<Rightarrow> (case tx_step x t op of (t', as) \<Rightarrow> (if Terminated \<in> set as then None else Some t', as))))"

subsection \<open>Refinement\<close>

lemma mgr_get_put [simp]: "mgr_get (mgr_put k t m) k' = (if k' = k then Some t else mgr_get m k')"
  by (simp add: mgr_put_def update_conv')

lemma mgr_get_drop [simp]: "mgr_get (mgr_drop k m) k' = (if k' = k then None else mgr_get m k')"
  by (simp add: mgr_drop_def mgr_remove_def delete_conv')

lemma mgr_timers_kept [simp]: "mgr_timers (mgr_put k t m) = mgr_timers m" "mgr_timers (mgr_drop k m) = mgr_timers m"
  by (simp_all add: mgr_put_def mgr_drop_def mgr_remove_def)

lemmas mgr_ops = new_server_transaction_def handle_ack_def handle_server_retransmit_def
  new_client_transaction_def process_server_event_def process_client_event_def ack_locked_def
  retransmit_locked_def server_event_locked_def client_event_locked_def cancel_invite_client_def
  mgr_arm_no_response_def mgr_disarm_no_response_def restore_given_up_def set_client_hop_def
  set_client_connection_def hold_client_connection_def drop_if_ended_def

text \<open>
  What the operation \<open>op\<close> on key \<open>k\<close> does is what the slot of \<open>k\<close> does, and no other slot moves.
\<close>

definition refines :: "tag_env \<times> instant \<Rightarrow> transaction_manager \<Rightarrow> mgr_op \<Rightarrow> transaction_key \<Rightarrow> bool" where
  "refines x m op k \<longleftrightarrow>
     (let (m', as) = mgr_step x m op; (slot', bs) = slot_step (mgr_timers m) x (mgr_get m k) op
      in as = bs \<and> mgr_get m' k = slot' \<and> mgr_timers m' = mgr_timers m
         \<and> (\<forall>k'. k' \<noteq> k \<longrightarrow> mgr_get m' k' = mgr_get m k'))"

lemma refine_new_server:
  assumes "msg_key r = Some k"
  shows "refines x m (MNewServer r tp) k"
proof -
  have key: "key_from_message r = Inr k" using assms by (simp add: msg_key_def split: sum.splits)
  show ?thesis
  proof (cases "msg_start_line r")
    case (Request rl)
    then show ?thesis
      by (cases "mgr_get m k"; cases "rl_method rl")
        (auto simp: refines_def mgr_step_def new_server_transaction_def key slot_step_def server_tx_def
          msg_method_def tx_step_def Let_def split_beta split: transaction.splits)
  next
    case (Response sl)
    then show ?thesis
      by (cases "mgr_get m k")
        (auto simp: refines_def mgr_step_def new_server_transaction_def key slot_step_def server_tx_def
          msg_method_def tx_step_def split: transaction.splits)
  qed
qed

lemma refine_new_client:
  assumes "msg_key r = Some k"
  shows "refines x m (MNewClient r wire tp) k"
proof -
  have key: "key_from_message r = Inr k" using assms by (simp add: msg_key_def split: sum.splits)
  show ?thesis
    by (cases "mgr_get m k")
      (auto simp: refines_def mgr_step_def new_client_transaction_def key slot_step_def client_tx_def
        tx_step_def Let_def split_beta split: transaction.splits)
qed

lemma refine_ack:
  assumes "msg_key r = Some k"
  shows "refines x m (MAck r) k"
proof -
  have key: "key_from_message r = Inr k" using assms by (simp add: msg_key_def split: sum.splits)
  show ?thesis
  proof (cases "mgr_get m k")
    case (Some t)
    then show ?thesis
      by (cases t) (auto simp: refines_def mgr_step_def handle_ack_def ack_locked_def key slot_step_def
          tx_step_def drop_if_ended_def split_beta)
  qed (auto simp: refines_def mgr_step_def handle_ack_def ack_locked_def key slot_step_def)
qed

lemma refine_retransmit:
  assumes "msg_key r = Some k"
  shows "refines x m (MRetransmit r) k"
proof -
  have key: "key_from_message r = Inr k" using assms by (simp add: msg_key_def split: sum.splits)
  show ?thesis
  proof (cases "mgr_get m k")
    case (Some t)
    then show ?thesis
      by (cases t) (auto simp: refines_def mgr_step_def handle_server_retransmit_def retransmit_locked_def
          key slot_step_def tx_step_def drop_if_ended_def split_beta)
  qed (auto simp: refines_def mgr_step_def handle_server_retransmit_def retransmit_locked_def key slot_step_def)
qed

lemma refine_server_event: "refines x m (MServer k e) k"
proof (cases "mgr_get m k")
  case (Some t)
  then show ?thesis
    by (cases t; cases e) (auto simp: refines_def mgr_step_def process_server_event_def server_event_locked_def
        of_result_def slot_step_def tx_step_def drop_if_ended_def split_beta)
qed (auto simp: refines_def mgr_step_def process_server_event_def server_event_locked_def of_result_def slot_step_def)

lemma refine_client_event: "refines x m (MClient k e) k"
proof (cases "mgr_get m k")
  case (Some t)
  then show ?thesis
    by (cases t; cases e) (auto simp: refines_def mgr_step_def process_client_event_def client_event_locked_def
        of_result_def slot_step_def tx_step_def ict_step_def nict_step_def drop_if_ended_def split_beta)
qed (auto simp: refines_def mgr_step_def process_client_event_def client_event_locked_def of_result_def slot_step_def)

lemma refine_other:
  assumes "op = MCancel k reasons \<or> op = MArm k d \<or> op = MDisarm k \<or> op = MRestore k t \<or> op = MHop k hop
    \<or> op = MConnection k c \<or> op = MHold k c \<or> op = MRemove k"
  shows "refines x m op k"
proof (cases "mgr_get m k")
  case None
  then show ?thesis using assms
    by (auto simp: refines_def mgr_step_def mgr_ops slot_step_def mgr_drop_def [symmetric] of_cancel_def of_option_def)
next
  case (Some u)
  then show ?thesis using assms
    by (cases u) (auto simp: refines_def mgr_step_def mgr_ops slot_step_def tx_step_def ict_step_def nict_step_def
        mgr_drop_def [symmetric] of_cancel_def of_option_def arm_no_response_def nict_arm_no_response_def
        disarm_no_response_def split_beta split: cancel_outcome.splits option.splits if_splits)
qed
lemma mgr_step_no_key: "op_key op = None \<Longrightarrow> mgr_step x m op = (m, [])"
  by (cases op) (auto simp: msg_key_def mgr_step_def new_server_transaction_def handle_ack_def
      handle_server_retransmit_def new_client_transaction_def split: sum.splits)

lemma mgr_step_refines: "op_key op = Some k \<Longrightarrow> refines x m op k"
  by (cases op) (auto intro: refine_new_server refine_new_client refine_ack refine_retransmit
      refine_server_event refine_client_event refine_other)

lemma mgr_step_slot:
  assumes "op_key op = Some k" and "mgr_step x m op = (m', as)"
  shows "slot_step (mgr_timers m) x (mgr_get m k) op = (mgr_get m' k, as)"
  using mgr_step_refines [OF assms(1), of x m] assms(2) by (auto simp: refines_def)

lemma mgr_step_other_slot:
  assumes "op_key op \<noteq> Some k" and "mgr_step x m op = (m', as)"
  shows "mgr_get m' k = mgr_get m k"
proof (cases "op_key op")
  case None
  then show ?thesis using mgr_step_no_key assms(2) by simp
next
  case (Some j)
  then show ?thesis using mgr_step_refines [OF Some, of x m] assms by (auto simp: refines_def)
qed

lemma mgr_step_timers: "mgr_step x m op = (m', as) \<Longrightarrow> mgr_timers m' = mgr_timers m"
  using mgr_step_no_key [of op x m] mgr_step_refines [of op _ x m]
  by (cases "op_key op") (auto simp: refines_def)

subsection \<open>Live transactions\<close>

fun tx_over :: "transaction \<Rightarrow> bool" where
  "tx_over (TxIst i) = ist_over i"
| "tx_over (TxNist n) = nist_over n"
| "tx_over (TxIct i) = ict_over i"
| "tx_over (TxNict n) = nict_over n"

fun tx_inv :: "transaction \<Rightarrow> bool" where
  "tx_inv (TxIct i) = ict_inv i"
| "tx_inv (TxNict n) = nict_inv n"
| "tx_inv _ = True"

fun tx_kind :: "transaction_key \<Rightarrow> transaction \<Rightarrow> bool" where
  "tx_kind k (TxIst _) = (key_method k = Invite)"
| "tx_kind k (TxNist _) = (key_method k \<noteq> Invite)"
| "tx_kind _ _ = True"

lemma tx_step_contract:
  assumes "tx_inv t" and "tx_step x t op = (t', as)"
  shows "tx_inv t' \<and> (tx_over t \<longrightarrow> tx_over t' \<and> as = []) \<and> (\<not> tx_over t \<longrightarrow> (tx_over t' \<longleftrightarrow> Terminated \<in> set as))
    \<and> (tx_kind k t \<longrightarrow> tx_kind k t')"
proof (cases t)
  case (TxIst i)
  have one: "(ist_over i \<longrightarrow> ist_over i' \<and> bs = []) \<and> (\<not> ist_over i \<longrightarrow> (ist_over i' \<longleftrightarrow> Terminated \<in> set bs))"
    if "ist_process y i e = (i', bs)" for y e i' bs
    using ist.over_silent [OF TrueI _ that] ist.ends_iff [OF TrueI _ that] by blast
  show ?thesis using assms TxIst
    by (cases op) (auto simp: tx_step_def map_prod_def dest!: one split: prod.splits server_event.splits)
next
  case (TxNist n)
  have one: "(nist_over n \<longrightarrow> nist_over n' \<and> bs = []) \<and> (\<not> nist_over n \<longrightarrow> (nist_over n' \<longleftrightarrow> Terminated \<in> set bs))"
    if "nist_process y n e = (n', bs)" for y e n' bs
    using nist.over_silent [OF TrueI _ that] nist.ends_iff [OF TrueI _ that] by blast
  show ?thesis using assms TxNist
    by (cases op) (auto simp: tx_step_def map_prod_def dest!: one split: prod.splits server_event.splits)
next
  case (TxIct i)
  have one: "ict_inv i' \<and> (ict_over i \<longrightarrow> ict_over i' \<and> bs = []) \<and> (\<not> ict_over i \<longrightarrow> (ict_over i' \<longleftrightarrow> Terminated \<in> set bs))"
    if "ict_step y i e = (i', bs)" for y e i' bs
    using ict_step_contract [OF that] assms(1) TxIct by simp
  show ?thesis using assms TxIct
    by (cases op) (auto simp: tx_step_def map_prod_def dest!: one split: prod.splits client_event.splits)
next
  case (TxNict n)
  have inv: "nict_inv n" using assms(1) TxNict by simp
  have one: "nict_inv n' \<and> (nict_over n \<longrightarrow> nict_over n' \<and> bs = []) \<and> (\<not> nict_over n \<longrightarrow> (nict_over n' \<longleftrightarrow> Terminated \<in> set bs))"
    if "nict_step y n e = (n', bs)" for y e n' bs
    using nict.inv_step [OF inv that] nict.over_silent [OF inv _ that] nict.ends_iff [OF inv _ that] by blast
  show ?thesis using assms TxNict
    by (cases op) (auto simp: tx_step_def map_prod_def dest!: one split: prod.splits client_event.splits)
qed

definition slot_ok :: "transaction_key \<Rightarrow> transaction option \<Rightarrow> bool" where
  "slot_ok k slot = (case slot of None \<Rightarrow> True | Some t \<Rightarrow> tx_inv t \<and> \<not> tx_over t \<and> tx_kind k t)"







lemma distinct_put: "distinct (map fst (transactions m)) \<Longrightarrow> distinct (map fst (transactions (mgr_put k t m)))"
  by (simp add: mgr_put_def distinct_update)



interpretation mgrs: keyed_store "\<lambda>m. map_of (transactions m)" mgr_put mgr_drop "\<lambda>m. distinct (map fst (transactions m))" mgr_count
proof unfold_locales
  show "distinct (map fst (transactions m)) \<Longrightarrow>
      finite (dom (map_of (transactions m))) \<and> mgr_count m = card (dom (map_of (transactions m)))" for m
    unfolding mgr_count_def by (rule alist_count)
qed (simp_all add: mgr_put_def mgr_drop_def mgr_remove_def fun_eq_iff update_conv delete_conv distinct_update distinct_delete)

definition mgr_ok :: "transaction_manager \<Rightarrow> bool" where
  "mgr_ok m \<longleftrightarrow> distinct (map fst (transactions m)) \<and> (\<forall>k. slot_ok k (mgr_get m k))"


text \<open>An ended transaction that is still in its slot answers nothing and stays.\<close>

lemma ended_slot_step:
  assumes "mgr_get m k = Some t" and "tx_inv t" and "tx_over t" and "op \<noteq> MRemove k" and "mgr_step x m op = (m', as)"
  shows "(\<exists>t'. mgr_get m' k = Some t' \<and> tx_inv t' \<and> tx_over t') \<and> (op_key op = Some k \<longrightarrow> as = [])"
proof (cases "op_key op = Some k")
  case True
  obtain t' bs where step: "tx_step x t op = (t', bs)" by (cases "tx_step x t op")
  have end_t: "tx_inv t'" "tx_over t'" "bs = []" using tx_step_contract [OF assms(2) step] assms(3) by auto
  have "\<forall>j. op \<noteq> MRemove j" using assms(4) True by (cases op) auto
  then have "slot_step (mgr_timers m) x (Some t) op = (Some t', [])"
    using step end_t by (cases op) (simp_all add: slot_step_def)
  then have "mgr_get m' k = Some t'" "as = []" using mgr_step_slot [OF True assms(5)] assms(1) by simp_all
  with end_t show ?thesis by simp
next
  case False
  then show ?thesis using mgr_step_other_slot [OF False assms(5)] assms(1-3) by simp
qed

lemma ended_slot_trace:
  assumes "mgr_get m k = Some t" and "tx_inv t" and "tx_over t" and "\<forall>(x, op) \<in> set ops. op \<noteq> MRemove k"
  shows "\<forall>(x, op, as) \<in> set (trace_machine mgr_step m ops). op_key op = Some k \<longrightarrow> as = []"
  using assms
proof (induction ops arbitrary: m t)
  case (Cons xo ops)
  obtain x op where xo: "xo = (x, op)" by (cases xo)
  obtain m' as where step: "mgr_step x m op = (m', as)" by (cases "mgr_step x m op")
  have "op \<noteq> MRemove k" using Cons.prems(4) xo by simp
  from ended_slot_step [OF Cons.prems(1-3) this step] obtain t' where
    t': "mgr_get m' k = Some t'" "tx_inv t'" "tx_over t'" and silent: "op_key op = Some k \<longrightarrow> as = []" by blast
  have "\<forall>(x, op, as) \<in> set (trace_machine mgr_step m' ops). op_key op = Some k \<longrightarrow> as = []"
    by (rule Cons.IH [OF t']) (use Cons.prems(4) in simp)
  then show ?case using silent by (simp add: xo step)
qed simp

text \<open>What happens to a slot depends on that slot only.\<close>

lemma slots_independent:
  assumes "mgr_get m k = mgr_get n k" and "mgr_timers m = mgr_timers n"
  shows "mgr_get (fst (run_machine mgr_step m ops)) k = mgr_get (fst (run_machine mgr_step n ops)) k"
  using assms
proof (induction ops arbitrary: m n)
  case (Cons xo ops)
  obtain x op where xo: "xo = (x, op)" by (cases xo)
  obtain m' as where m: "mgr_step x m op = (m', as)" by (cases "mgr_step x m op")
  obtain n' bs where n: "mgr_step x n op = (n', bs)" by (cases "mgr_step x n op")
  have "mgr_get m' k = mgr_get n' k"
  proof (cases "op_key op = Some k")
    case True
    show ?thesis using mgr_step_slot [OF True m] mgr_step_slot [OF True n] Cons.prems by simp
  next
    case False
    show ?thesis using mgr_step_other_slot [OF False m] mgr_step_other_slot [OF False n] Cons.prems by simp
  qed
  moreover have "mgr_timers m' = mgr_timers n'" 
    using mgr_step_timers [OF m] mgr_step_timers [OF n] Cons.prems(2) by simp
  ultimately show ?case using Cons.IH [of m' n'] by (simp add: xo m n split_beta)
qed simp

lemma locked_end:
  assumes "mgr_ok m" and "Terminated \<in> set as"
    and "server_event_locked env m k e = (m', Inr as) \<or> client_event_locked now m k f = (m', Inr as)"
  shows "\<exists>t. mgr_get m' k = Some t \<and> tx_inv t \<and> tx_over t"
proof -
  have ok: "slot_ok k (mgr_get m k)" using assms(1) by (simp add: mgr_ok_def)
  obtain op t t' where t: "mgr_get m k = Some t" "tx_step (env, now) t op = (t', as)" "m' = mgr_put k t' m"
  proof (cases "mgr_get m k")
    case (Some t)
    consider "server_event_locked env m k e = (m', Inr as)" | "client_event_locked now m k f = (m', Inr as)"
      using assms(3) by blast
    then have "\<exists>op t'. tx_step (env, now) t op = (t', as) \<and> m' = mgr_put k t' m"
    proof cases
      case 1
      then show ?thesis using Some
        by (intro exI [of _ "MServer k e"]; cases t; cases e)
          (auto simp: server_event_locked_def tx_step_def split: prod.splits)
    next
      case 2
      then show ?thesis using Some
        by (intro exI [of _ "MClient k f"]; cases t; cases f)
          (auto simp: client_event_locked_def tx_step_def ict_step_def nict_step_def split: prod.splits)
    qed
    with Some that show ?thesis by blast
  qed (use assms(3) in \<open>auto simp: server_event_locked_def client_event_locked_def\<close>)
  have "tx_inv t" "\<not> tx_over t" using ok t(1) by (auto simp: slot_ok_def)
  with tx_step_contract [OF _ t(2)] assms(2) t(3) show ?thesis by auto
qed

text \<open>A small request, its key, and a manager with a client transaction under it.\<close>

definition example_options :: sip_message where
  "example_options =
     \<lparr>msg_start_line = Request \<lparr>rl_method = Options, request_uri = uri_new ''b'', rl_version = sip_2_0\<rparr>,
      msg_headers = foldl (\<lambda>h (n, v). hdr_add h n v) hdr_new
        [(''Via'', ''SIP/2.0/UDP a;branch=z1''), (''CSeq'', ''1 OPTIONS'')],
      msg_body = []\<rparr>"

definition example_key :: transaction_key where
  "example_key = key_new ''z1'' Options ''a''"

lemma example_options_key: "msg_key example_options = Some example_key"
  by code_simp

definition example_manager :: transaction_manager where
  "example_manager = mgr_put example_key (TxNict (fst (nict_new ''R'' Udp timers_default))) (mgr_new timers_default)"

lemma example_manager_ok: "mgr_ok example_manager"
proof -
  have "slot_ok k (mgr_get example_manager k)" for k
    using nict_new_inv [of "''R''" Udp timers_default]
    by (auto simp: example_manager_def slot_ok_def mgr_new_def)
  then show ?thesis by (simp add: mgr_ok_def example_manager_def distinct_put mgr_new_def)
qed

subsection \<open>Properties\<close>





text \<open>
  Between the end of a transaction and its removal the lock is released, and other workers
  may do anything but remove it themselves: whatever they do, no operation on its key produces
  an action in that gap (in particular no second copy of the request reaches the user), and
  every other transaction is as if the removal had come at once.
\<close>

theorem removal_gap_is_quiet:
  assumes "mgr_ok m" and "Terminated \<in> set as"
    and "server_event_locked env m k e = (m', Inr as) \<or> client_event_locked now m k f = (m', Inr as)"
    and "\<forall>(x, op) \<in> set ops. op \<noteq> MRemove k"
  shows "(\<forall>(x, op, bs) \<in> set (trace_machine mgr_step m' ops). op_key op = Some k \<longrightarrow> bs = [])
    \<and> mgr_get (mgr_drop k (fst (run_machine mgr_step m' ops))) k = None
    \<and> (\<forall>j. j \<noteq> k \<longrightarrow> mgr_get (mgr_drop k (fst (run_machine mgr_step m' ops))) j
                      = mgr_get (fst (run_machine mgr_step (mgr_drop k m') ops)) j)"
proof -
  obtain t where t: "mgr_get m' k = Some t" "tx_inv t" "tx_over t"
    using locked_end [OF assms(1-3)] by blast
  have "mgr_get (fst (run_machine mgr_step m' ops)) j = mgr_get (fst (run_machine mgr_step (mgr_drop k m') ops)) j"
    if "j \<noteq> k" for j
    by (rule slots_independent) (use that in simp_all)
  then show ?thesis using ended_slot_trace [OF t assms(4)] by simp
qed

theorem removal_gap_is_quiet_witness:
  "\<exists>m' as. client_event_locked 0 example_manager example_key (ClientNict NictTimerF) = (m', Inr as)
     \<and> Terminated \<in> set as
     \<and> (\<forall>(x, op, bs) \<in> set (trace_machine mgr_step m' [((example_env, 0), MNewServer example_options Udp)]).
          op_key op = Some example_key \<longrightarrow> bs = [])"
proof -
  have get: "mgr_get example_manager example_key = Some (TxNict (fst (nict_new ''R'' Udp timers_default)))"
    by (simp add: example_manager_def)
  obtain m' as where ev: "client_event_locked 0 example_manager example_key (ClientNict NictTimerF) = (m', Inr as)"
    and "Terminated \<in> set as"
    by (simp add: client_event_locked_def get nict_new_def nict_process_def nict_advance_def)
  moreover have "\<forall>(x, op, bs) \<in> set (trace_machine mgr_step m' [((example_env, 0), MNewServer example_options Udp)]).
      op_key op = Some example_key \<longrightarrow> bs = []"
    using removal_gap_is_quiet [OF example_manager_ok \<open>Terminated \<in> set as\<close> disjI2 [OF ev],
        of "[((example_env, 0), MNewServer example_options Udp)]"] by simp
  ultimately show ?thesis by blast
qed





text \<open>
  C36. A request sent to one's own address: once the client transaction of a request exists, the
  same request arriving at this element finds no server transaction to retransmit from and is
  then taken for a copy of a request already in hand: no transaction is made and nothing is
  passed to the user.  Client and server transactions share one map and one key.
\<close>

theorem own_request_is_absorbed:
  assumes "new_client_transaction m r wire tp = (m', Inr (k, as))" and "is_request r"
  shows "handle_server_retransmit env m' r = (m', Inr None)
    \<and> new_server_transaction m' r tp' =
        (m', Inr \<lparr>outcome_key = k, outcome_actions = [], outcome_is_new = False\<rparr>)"
proof -
  have key: "key_from_message r = Inr k" and ack: "msg_method r \<noteq> Some Ack"
    and slot: "\<exists>t. mgr_get m' k = Some t \<and> (\<exists>i. t = TxIct i) \<or> (\<exists>n. mgr_get m' k = Some (TxNict n))"
    using assms(1) by (auto simp: new_client_transaction_def Let_def split: sum.splits if_splits prod.splits)
  from slot show ?thesis using key ack assms(2)
    by (auto simp: handle_server_retransmit_def retransmit_locked_def new_server_transaction_def Let_def
        msg_method_def is_request_def split_beta split: start_line.splits if_splits)
qed

theorem own_request_is_absorbed_witness:
  "\<exists>m' k as. new_client_transaction (mgr_new timers_default) example_options ''R'' Udp = (m', Inr (k, as))
     \<and> new_server_transaction m' example_options Udp =
        (m', Inr \<lparr>outcome_key = k, outcome_actions = [], outcome_is_new = False\<rparr>)"
proof -
  have key: "key_from_message example_options = Inr example_key"
    using example_options_key by (simp add: msg_key_def split: sum.splits)
  have req: "is_request example_options" "msg_method example_options = Some Options"
    by (simp_all add: example_options_def is_request_def msg_method_def)
  obtain m' as where "new_client_transaction (mgr_new timers_default) example_options ''R'' Udp = (m', Inr (example_key, as))"
    by (simp add: new_client_transaction_def key req mgr_new_def split_beta)
  with own_request_is_absorbed [OF this req(1)] show ?thesis by blast
qed

text \<open>
  No transaction leaks: the number of transactions grows by one exactly when a request gets a
  transaction of its own, and shrinks by one exactly when an event ends one; nothing else that
  is fed to a transaction changes it.
\<close>

theorem manager_count:
  assumes "distinct (map fst (transactions m))"
  shows "(new_server_transaction m r tp = (m1, Inr out) \<longrightarrow>
      mgr_count m1 = mgr_count m + (if outcome_is_new out \<and> msg_method r \<noteq> Some Ack then 1 else 0))
    \<and> (new_client_transaction m r wire tp = (m2, res) \<longrightarrow>
      mgr_count m2 = mgr_count m + (case res of Inr _ \<Rightarrow> 1 | Inl _ \<Rightarrow> 0))
    \<and> (process_server_event env m k e = (m3, Inr as) \<longrightarrow>
      mgr_count m3 + (if Terminated \<in> set as then 1 else 0) = mgr_count m)
    \<and> (process_client_event now m k f = (m4, Inr bs) \<longrightarrow>
      mgr_count m4 + (if Terminated \<in> set bs then 1 else 0) = mgr_count m)"
proof -
  have pos: "0 < mgr_count m" if "mgr_get m k = Some t" for t
    using mgrs.count [OF assms] that by (auto simp: card_gt_0_iff)
  have ended: "mgr_count (drop_if_ended k as (mgr_put k t' m)) + (if Terminated \<in> set as then 1 else 0) = mgr_count m"
    if "mgr_get m k = Some t" for t t' as
    using that pos [OF that] assms
    by (simp add: drop_if_ended_def mgrs.count_del mgrs.count_put mgrs.wf_put mgrs.get_put)
  show ?thesis
  proof (intro conjI impI)
    assume "new_server_transaction m r tp = (m1, Inr out)"
    then show "mgr_count m1 = mgr_count m + (if outcome_is_new out \<and> msg_method r \<noteq> Some Ack then 1 else 0)"
      using assms
      by (auto simp: new_server_transaction_def msg_method_def Let_def mgrs.count_put split_beta
          split: sum.splits start_line.splits if_splits)
  next
    assume "new_client_transaction m r wire tp = (m2, res)"
    then show "mgr_count m2 = mgr_count m + (case res of Inr _ \<Rightarrow> 1 | Inl _ \<Rightarrow> 0)"
      using assms
      by (auto simp: new_client_transaction_def Let_def mgrs.count_put split_beta split: sum.splits if_splits)
  next
    assume "process_server_event env m k e = (m3, Inr as)"
    then obtain t t' where "mgr_get m k = Some t" "m3 = drop_if_ended k as (mgr_put k t' m)"
      by (auto simp: process_server_event_def server_event_locked_def
          split: option.splits transaction.splits server_event.splits prod.splits)
    then show "mgr_count m3 + (if Terminated \<in> set as then 1 else 0) = mgr_count m" by (simp only: ended)
  next
    assume "process_client_event now m k f = (m4, Inr bs)"
    then obtain t t' where "mgr_get m k = Some t" "m4 = drop_if_ended k bs (mgr_put k t' m)"
      by (auto simp: process_client_event_def client_event_locked_def
          split: option.splits transaction.splits client_event.splits prod.splits)
    then show "mgr_count m4 + (if Terminated \<in> set bs then 1 else 0) = mgr_count m" by (simp only: ended)
  qed
qed

theorem manager_count_witness:
  "mgr_count (fst (new_client_transaction (mgr_new timers_default) example_options ''R'' Udp)) = 1"
proof -
  have key: "key_from_message example_options = Inr example_key"
    using example_options_key by (simp add: msg_key_def split: sum.splits)
  have m: "msg_method example_options = Some Options" by (simp add: example_options_def msg_method_def)
  let ?r = "new_client_transaction (mgr_new timers_default) example_options ''R'' Udp"
  have "\<exists>y. snd ?r = Inr y" by (simp add: new_client_transaction_def key m mgr_new_def split_beta)
  moreover have "distinct (map fst (transactions (mgr_new timers_default)))" by (simp add: mgr_new_def)
  ultimately show ?thesis
    using manager_count [of "mgr_new timers_default" example_options Udp _ _ "''R''" "fst ?r" "snd ?r"]
    by (auto simp: mgr_new_def mgr_count_def)
qed

subsection \<open>The keys of the ACK and of the CANCEL\<close>

lemma build_ack_some:
  assumes "build_ack_for_non2xx i response = Inr ack" and "parse_sip_message_bytes (ict_request_bytes i) = Inr invite"
  shows "\<exists>rl v f t c n. msg_start_line invite = Request rl \<and> hdr_via (msg_headers invite) = Some v
    \<and> ack = \<lparr>msg_start_line = Request \<lparr>rl_method = Ack, request_uri = request_uri rl, rl_version = sip_2_0\<rparr>,
        msg_headers = hdr_set (hdr_add (foldl (\<lambda>h r. hdr_add h ''Route'' r)
          (hdr_add (hdr_add (hdr_add (hdr_add (hdr_add hdr_new ''Via'' v) ''From'' f) ''To'' t) ''Call-ID'' c)
             ''CSeq'' (n @ '' ACK''))
          (case hdr_get_all (msg_headers invite) ''Route'' of Some rs \<Rightarrow> rs | None \<Rightarrow> [])) ''Max-Forwards'' ''70'')
          ''Content-Length'' (show_nat 0), msg_body = []\<rparr>"
proof -
  let ?h = "msg_headers invite"
  note built = assms(1) [unfolded build_ack_for_non2xx_def assms(2) sum.case]
  obtain rl where rl: "msg_start_line invite = Request rl"
    using built by (cases "msg_start_line invite") simp_all
  note built = built [unfolded rl start_line.case Let_def]
  obtain v where v: "hdr_via ?h = Some v" using built by (cases "hdr_via ?h") simp_all
  note built = built [unfolded v option.case]
  obtain f where f: "hdr_from ?h = Some f" using built by (cases "hdr_from ?h") simp_all
  note built = built [unfolded f option.case]
  obtain t where t: "(case hdr_to (msg_headers response) of Some t \<Rightarrow> Some t | None \<Rightarrow> hdr_to ?h) = Some t"
    using built by (cases "case hdr_to (msg_headers response) of Some t \<Rightarrow> Some t | None \<Rightarrow> hdr_to ?h") simp_all
  note built = built [unfolded t option.case]
  obtain c where c: "hdr_call_id ?h = Some c" using built by (cases "hdr_call_id ?h") simp_all
  note built = built [unfolded c option.case]
  define n where "n = (case Option.bind (hdr_cseq ?h) first_word of Some s \<Rightarrow> s | None \<Rightarrow> ''1'')"
  from built [folded n_def] show ?thesis
    by (intro exI [of _ rl] exI [of _ v] exI [of _ f] exI [of _ t] exI [of _ c] exI [of _ n])
      (simp add: rl v b_build_def b_content_length_def b_set_header_def b_header_def [of "''Max-Forwards''"]
        b_header_def [of "''Via''"] b_header_def [of "''From''"] b_header_def [of "''To''"]
        b_header_def [of "''Call-ID''"] b_header_def [of "''CSeq''"] b_request_def builder_new_def
        foldl_b_headers foldl_b_start_line foldl_b_body)
qed

lemma build_ack_shape:
  assumes "build_ack_for_non2xx i response = Inr ack" and "parse_sip_message_bytes (ict_request_bytes i) = Inr invite"
  shows "\<exists>rl v. msg_start_line ack = Request rl \<and> rl_method rl = Ack
    \<and> hdr_get (msg_headers invite) ''Via'' = Some v \<and> hdr_get (msg_headers ack) ''Via'' = Some v"
  using build_ack_some [OF assms]
  by (auto simp: hdr_via_def hdr_get_get_all hdr_get_all_set hdr.get_add header_keys hdr.get_foldl_add)

lemma key_of_request:
  assumes "msg_start_line m = Request rl" and "hdr_get (msg_headers m) ''Via'' = Some v"
    and "msg_start_line m' = Request rl'" and "hdr_get (msg_headers m') ''Via'' = Some v"
    and "key_from_message m = Inr k"
  shows "key_from_message m' = Inr (k\<lparr>key_method := key_method (key_new [] (rl_method rl') [])\<rparr>)"
  using assms by (auto simp: key_from_message_def key_new_def split: sum.splits list.splits option.splits)

lemma build_cancel_via:
  assumes "build_cancel invite reasons = Some c" and "hdr_wf (msg_headers invite)"
  shows "hdr_get (msg_headers c) ''Via'' = hdr_get (msg_headers invite) ''Via''"
proof -
  from assms(1) obtain number where "Option.bind (hdr_cseq (msg_headers invite)) first_word = Some number"
    by (auto simp: build_cancel_some)
  from build_cancel_get_all [OF assms this, of "''Via''"] show ?thesis
    by (simp add: hdr_get_get_all header_keys split: option.splits list.splits)
qed

text \<open>
  C32. The ACK of a failed INVITE has the key of that INVITE at the next hop, its CANCEL has not:
  built from the INVITE as it was sent, the ACK finds the INVITE's server transaction and ends
  the retransmissions of the final response there without reaching the transaction user, while
  the CANCEL has the same branch and sent-by under a method of its own, so it makes a server
  transaction of its own.
\<close>

theorem ack_and_cancel_keys:
  assumes "parse_sip_message_bytes (ict_request_bytes i) = Inr invite" and "hdr_wf (msg_headers invite)"
    and "msg_method invite = Some Invite" and "key_from_message invite = Inr k"
    and "build_ack_for_non2xx i response = Inr ack" and "build_cancel invite reasons = Some c"
    and "mgr_get m k = Some (TxIst s)" and "ist_state s = IstCompleted"
  shows "key_from_message c = Inr (k\<lparr>key_method := Cancel\<rparr>) \<and> k\<lparr>key_method := Cancel\<rparr> \<noteq> k
    \<and> (\<exists>m' as. handle_ack env m ack = (m', Inr (Some (k, as)))
          \<and> {CancelTimer T_G, CancelTimer T_H} \<subseteq> set as \<and> sent as = [] \<and> PassToTu ack \<notin> set as
          \<and> (\<forall>s'. mgr_get m' k = Some (TxIst s') \<longrightarrow> ist_state s' = IstConfirmed))"
proof -
  obtain rl where rl: "msg_start_line invite = Request rl" "rl_method rl = Invite"
    using assms(3) by (auto simp: msg_method_def split: start_line.splits)
  obtain rla v where ack: "msg_start_line ack = Request rla" "rl_method rla = Ack"
    "hdr_get (msg_headers invite) ''Via'' = Some v" "hdr_get (msg_headers ack) ''Via'' = Some v"
    using build_ack_shape [OF assms(5,1)] by blast
  have k: "key_method k = Invite"
    using assms(4) rl ack(3) by (auto simp: key_from_message_def key_new_def split: sum.splits list.splits option.splits)
  have ka: "key_from_message ack = Inr k"
    using key_of_request [OF rl(1) ack(3) ack(1) ack(4) assms(4)] ack(2) k by (simp add: key_new_def)
  have c: "msg_start_line c = Request (rl\<lparr>rl_method := Cancel\<rparr>)"
    using assms(6) rl by (auto simp: build_cancel_some Let_def)
  have "key_from_message c = Inr (k\<lparr>key_method := Cancel\<rparr>)"
    using key_of_request [OF rl(1) ack(3) c _ assms(4)] build_cancel_via [OF assms(6,2)] ack(3)
    by (simp add: key_new_def)
  moreover have "k\<lparr>key_method := Cancel\<rparr> \<noteq> k"
    using k by (cases k) simp
  moreover have "\<exists>m' as. handle_ack env m ack = (m', Inr (Some (k, as)))
      \<and> {CancelTimer T_G, CancelTimer T_H} \<subseteq> set as \<and> sent as = [] \<and> PassToTu ack \<notin> set as
      \<and> (\<forall>s'. mgr_get m' k = Some (TxIst s') \<longrightarrow> ist_state s' = IstConfirmed)"
    by (simp add: handle_ack_def ka ack_locked_def assms(7,8) ist_process_def Let_def drop_if_ended_def
        mgr_drop_def mgr_remove_def mgr_put_def delete_conv update_conv)
  ultimately show ?thesis by blast
qed

definition example_sent_invite :: bytes where
  "example_sent_invite = ''INVITE sip:b SIP/2.0'' @ crlf @ ''v:SIP/2.0/UDP a;branch=z'' @ crlf
     @ ''f:a'' @ crlf @ ''t:b'' @ crlf @ ''i:c'' @ crlf @ ''CSeq:1 INVITE'' @ crlf @ crlf"

definition example_parsed :: sip_message where
  "example_parsed = (case parse_sip_message_bytes example_sent_invite of Inr m \<Rightarrow> m | Inl _ \<Rightarrow> example_options)"

lemma example_parsed_facts:
  "parse_sip_message_bytes example_sent_invite = Inr example_parsed
   \<and> hdr_wf (msg_headers example_parsed) \<and> msg_method example_parsed = Some Invite
   \<and> key_from_message example_parsed = Inr (key_new ''z'' Invite ''a'')
   \<and> Option.bind (hdr_cseq (msg_headers example_parsed)) first_word = Some ''1''"
  by code_simp

theorem ack_and_cancel_keys_witness:
  "\<exists>ack c m' as. build_ack_for_non2xx (fst (ict_new example_sent_invite Udp timers_default)) (example_reply 486 ''Busy'') = Inr ack
     \<and> build_cancel example_parsed [] = Some c
     \<and> key_from_message c = Inr (key_new ''z'' Cancel ''a'')
     \<and> handle_ack example_env (mgr_put (key_new ''z'' Invite ''a'')
           (TxIst ((ist_new Udp timers_default)\<lparr>ist_state := IstCompleted\<rparr>)) (mgr_new timers_default)) ack
         = (m', Inr (Some (key_new ''z'' Invite ''a'', as)))
     \<and> sent as = []"
proof -
  let ?i = "fst (ict_new example_sent_invite Udp timers_default)"
  let ?m = "mgr_put (key_new ''z'' Invite ''a'')
      (TxIst ((ist_new Udp timers_default)\<lparr>ist_state := IstCompleted\<rparr>)) (mgr_new timers_default)"
  have sent: "ict_request_bytes ?i = example_sent_invite" by (simp add: ict_new_def)
  have "case build_ack_for_non2xx ?i (example_reply 486 ''Busy'') of Inr _ \<Rightarrow> True | Inl _ \<Rightarrow> False" by code_simp
  then obtain ack where ack: "build_ack_for_non2xx ?i (example_reply 486 ''Busy'') = Inr ack"
    by (auto split: sum.splits)
  obtain c where c: "build_cancel example_parsed [] = Some c"
    using example_parsed_facts by (auto simp: build_cancel_def msg_method_def Let_def split: start_line.splits)
  have get: "mgr_get ?m (key_new ''z'' Invite ''a'') = Some (TxIst ((ist_new Udp timers_default)\<lparr>ist_state := IstCompleted\<rparr>))"
    by (simp add: mgr_put_def mgr_new_def)
  have "(key_new ''z'' Invite ''a'')\<lparr>key_method := Cancel\<rparr> = key_new ''z'' Cancel ''a''"
    by (simp add: key_new_def)
  with ack_and_cancel_keys [OF _ _ _ _ ack c get, of example_env] example_parsed_facts ack c show ?thesis
    by (fastforce simp: sent)
qed

end
