(* ===== verification/Proxy_Fork.thy ===== *)
theory Proxy_Fork
  imports Sip_Message "HOL-Library.Product_Lexorder"
begin

text \<open>
  Forking: the ranking of final failures (\<^verbatim>\<open>src/src/sip/best_response.rs\<close>) and the aggregator
  that decides what of the branches' responses goes upstream (\<^verbatim>\<open>src/src/proxy/fork/mod.rs\<close>).
  The definitions follow the two files; then come the choice of RFC 3261 section 16.7 step 6
  in terms of the codes themselves, and what a fork forwards over any sequence of operations.
\<close>

subsection \<open>The best response\<close>

datatype response_rank =
  Rank (rk_class: nat) (rk_standing: nat) (rk_preferred: bool) (rk_status_code: nat)

definition RESUBMISSION_HINTS :: "nat list" where
  "RESUBMISSION_HINTS = [401, 407, 415, 420, 484]"

definition SERVER_INTERNAL_ERROR :: string where
  "SERVER_INTERNAL_ERROR = ''Server Internal Error''"

definition rank_preferring :: "nat \<Rightarrow> bool \<Rightarrow> response_rank" where
  "rank_preferring code preferred =
     Rank (if 600 \<le> code \<and> code \<le> 699 then 4
           else if 300 \<le> code \<and> code \<le> 399 then 3
           else if 400 \<le> code \<and> code \<le> 499 then 2
           else if 500 \<le> code \<and> code \<le> 599 then 1
           else 0)
          (if code = 503 then 0 else if code \<in> set RESUBMISSION_HINTS then 2 else 1)
          preferred code"

definition rank_of :: "nat \<Rightarrow> response_rank" where
  "rank_of code = rank_preferring code False"

text \<open>The derived order compares the fields in the order of their declaration.\<close>

fun rank_key :: "response_rank \<Rightarrow> nat \<times> nat \<times> bool \<times> nat" where
  "rank_key (Rank c s p k) = (c, s, p, k)"

lemma rank_key_inject [simp]: "rank_key r = rank_key q \<longleftrightarrow> r = q"
  by (cases r; cases q) simp

instantiation response_rank :: linorder
begin

definition less_eq_response_rank :: "response_rank \<Rightarrow> response_rank \<Rightarrow> bool" where
  "r \<le> q \<longleftrightarrow> rank_key r \<le> rank_key q"

definition less_response_rank :: "response_rank \<Rightarrow> response_rank \<Rightarrow> bool" where
  "r < q \<longleftrightarrow> rank_key r < rank_key q"

instance
  by standard (auto simp: less_eq_response_rank_def less_response_rank_def less_le)

end

definition best_status :: "nat list \<Rightarrow> nat option" where
  "best_status codes = max_by_key rank_of codes"

definition upstream_status :: "nat \<Rightarrow> nat" where
  "upstream_status code = (if code = 503 then 500 else code)"

subsection \<open>The aggregator\<close>

datatype fork_strategy = Parallel | Sequential

datatype branch_state = Pending | Trying | Proceeding nat | Completed nat | Cancelled

datatype response_origin = Peer | Local

record fork_branch =
  target :: sip_uri
  br_state :: branch_state
  origin :: response_origin
  br_response :: "sip_message option"

datatype fork_action =
    Forward2xx | ForwardAnother2xx | Forward6xx | ContinueWaiting
  | ForwardBestError nat | TryNext nat | ForwardProvisional nat

record fork_aggregator =
  branches :: "fork_branch list"
  strategy :: fork_strategy
  sent_100 :: bool
  final_forwarded :: bool
  best_response :: "sip_message option"

definition fork_new :: "sip_uri list \<Rightarrow> fork_strategy \<Rightarrow> fork_aggregator" where
  "fork_new targets st =
     \<lparr>branches = map (\<lambda>t. \<lparr>target = t, br_state = Pending, origin = Peer, br_response = None\<rparr>) targets,
      strategy = st, sent_100 = False, final_forwarded = False, best_response = None\<rparr>"

definition has_settled :: "fork_aggregator \<Rightarrow> bool" where
  "has_settled f = final_forwarded f"

definition branch_count :: "fork_aggregator \<Rightarrow> nat" where
  "branch_count f = length (branches f)"

definition fork_is_complete :: "fork_aggregator \<Rightarrow> bool" where
  "fork_is_complete f =
     list_all (\<lambda>b. case br_state b of Completed _ \<Rightarrow> True | Cancelled \<Rightarrow> True | _ \<Rightarrow> False) (branches f)"

text \<open>The assignment to one branch, nothing when there is no such branch.\<close>

definition map_branch :: "nat \<Rightarrow> (fork_branch \<Rightarrow> fork_branch) \<Rightarrow> fork_aggregator \<Rightarrow> fork_aggregator" where
  "map_branch i g f = (if i < length (branches f) then f\<lparr>branches := (branches f)[i := g (branches f ! i)]\<rparr> else f)"

definition mark_trying :: "fork_aggregator \<Rightarrow> nat \<Rightarrow> fork_aggregator" where
  "mark_trying f i = map_branch i (\<lambda>b. b\<lparr>br_state := Trying\<rparr>) f"

definition mark_cancelled :: "fork_aggregator \<Rightarrow> nat \<Rightarrow> fork_aggregator" where
  "mark_cancelled f i = map_branch i (\<lambda>b. b\<lparr>br_state := Cancelled\<rparr>) f"

definition mark_local_failure :: "fork_aggregator \<Rightarrow> nat \<Rightarrow> fork_aggregator" where
  "mark_local_failure f i = map_branch i (\<lambda>b. b\<lparr>origin := Local\<rparr>) f"

definition fork_settle :: "fork_aggregator \<Rightarrow> fork_aggregator" where
  "fork_settle f = f\<lparr>final_forwarded := True, branches := map (\<lambda>b. b\<lparr>br_response := None\<rparr>) (branches f)\<rparr>"

definition failed_ranks :: "fork_branch list \<Rightarrow> (nat \<times> response_rank) list" where
  "failed_ranks bs =
     List.map_filter (\<lambda>(i, b). case br_state b of
         Completed code \<Rightarrow> if 300 \<le> code then Some (i, rank_preferring code (origin b = Peer)) else None
       | _ \<Rightarrow> None) (enumerate 0 bs)"

definition best_branch :: "fork_aggregator \<Rightarrow> nat option" where
  "best_branch f = map_option fst (max_by_key snd (failed_ranks (branches f)))"

definition challenge_names :: "string list" where
  "challenge_names = [''WWW-Authenticate'', ''Proxy-Authenticate'']"

definition add_challenges :: "sip_headers \<Rightarrow> sip_headers \<Rightarrow> sip_headers" where
  "add_challenges h other =
     foldl (\<lambda>h name. foldl (\<lambda>h v. hdr_add h name v) h
         (case hdr_get_all other name of Some vs \<Rightarrow> vs | None \<Rightarrow> [])) h challenge_names"

definition collect_challenges :: "fork_aggregator \<Rightarrow> nat \<Rightarrow> sip_message \<Rightarrow> sip_message" where
  "collect_challenges f chosen response =
     response\<lparr>msg_headers := foldl (\<lambda>h (i, b).
         if i = chosen \<or> br_state b \<notin> {Completed 401, Completed 407} then h
         else (case br_response b of None \<Rightarrow> h | Some other \<Rightarrow> add_challenges h (msg_headers other)))
       (msg_headers response) (enumerate 0 (branches f))\<rparr>"

definition settle_on_best_failure :: "fork_aggregator \<Rightarrow> fork_aggregator \<times> fork_action" where
  "settle_on_best_failure f =
     (let best = best_branch f;
          status = (case best of
              Some i \<Rightarrow> (case br_state (branches f ! i) of Completed code \<Rightarrow> code | _ \<Rightarrow> 500)
            | None \<Rightarrow> 500);
          taken = (case best of Some i \<Rightarrow> map_branch i (\<lambda>b. b\<lparr>br_response := None\<rparr>) f | None \<Rightarrow> f);
          chosen = (case best of
              None \<Rightarrow> None
            | Some i \<Rightarrow>
                map_option (\<lambda>r. if status \<in> {401, 407} then collect_challenges taken i r else r)
                  (br_response (branches f ! i)))
      in (fork_settle (taken\<lparr>best_response := chosen\<rparr>), ForwardBestError status))"

definition next_pending_branch :: "fork_aggregator \<Rightarrow> nat option" where
  "next_pending_branch f = position_of (\<lambda>b. br_state b = Pending) (branches f)"

definition on_branch_response :: "fork_aggregator \<Rightarrow> nat \<Rightarrow> nat \<Rightarrow> fork_aggregator \<times> fork_action" where
  "on_branch_response f i code =
     (if length (branches f) \<le> i then (f, ContinueWaiting)
      else if 100 \<le> code \<and> code < 200 then
        (let f1 = map_branch i (\<lambda>b. b\<lparr>br_state := Proceeding code\<rparr>) f
         in if final_forwarded f1 then (f1, ContinueWaiting)
            else if code = 100 then
              (if sent_100 f1 then (f1, ContinueWaiting)
               else (f1\<lparr>sent_100 := True\<rparr>, ForwardProvisional code))
            else (f1, ForwardProvisional code))
      else
        (let answered_before = (case br_state (branches f ! i) of Completed c \<Rightarrow> 200 \<le> c \<and> c \<le> 299 | _ \<Rightarrow> False);
             f1 = map_branch i (\<lambda>b. b\<lparr>br_state := Completed code\<rparr>) f
         in if 200 \<le> code \<and> code < 300 then
              (if answered_before then (f1, ContinueWaiting)
               else if final_forwarded f1 then (f1, ForwardAnother2xx)
               else (fork_settle f1, Forward2xx))
            else if 600 \<le> code then
              (if final_forwarded f1 then (f1, ContinueWaiting) else (fork_settle f1, Forward6xx))
            else if final_forwarded f1 then (f1, ContinueWaiting)
            else (case strategy f1 of
                Parallel \<Rightarrow> if fork_is_complete f1 then settle_on_best_failure f1 else (f1, ContinueWaiting)
              | Sequential \<Rightarrow>
                  (case next_pending_branch f1 of
                     Some next \<Rightarrow> (f1, TryNext next)
                   | None \<Rightarrow> settle_on_best_failure f1))))"

definition on_response :: "fork_aggregator \<Rightarrow> nat \<Rightarrow> nat \<Rightarrow> sip_message \<Rightarrow> fork_aggregator \<times> fork_action" where
  "on_response f i code response =
     (let f1 = (if 300 \<le> code \<and> \<not> final_forwarded f
                then map_branch i (\<lambda>b. b\<lparr>br_response := Some response\<rparr>) f else f)
      in on_branch_response f1 i code)"

definition take_best_response :: "fork_aggregator \<Rightarrow> fork_aggregator \<times> sip_message option" where
  "take_best_response f = (f\<lparr>best_response := None\<rparr>, best_response f)"

subsection \<open>The choice among failures\<close>

lemma rank_le:
  "Rank c s p k \<le> Rank c' s' p' k' \<longleftrightarrow>
     c < c' \<or> c = c' \<and> (s < s' \<or> s = s' \<and> (p < p' \<or> p = p' \<and> k \<le> k'))"
  by (auto simp: less_eq_response_rank_def)

text \<open>The final failures of some branches, each with whether a peer sent it.\<close>

fun failure_of :: "fork_branch \<Rightarrow> (nat \<times> bool) list" where
  "failure_of b = (case br_state b of Completed code \<Rightarrow> if 300 \<le> code then [(code, origin b = Peer)] else [] | _ \<Rightarrow> [])"

definition failures :: "fork_aggregator \<Rightarrow> (nat \<times> bool) list" where
  "failures f = concat (map failure_of (branches f))"

lemma set_map_filter_iff: "y \<in> set (List.map_filter g xs) \<longleftrightarrow> (\<exists>x \<in> set xs. g x = Some y)"
  by (induction xs) (auto simp: List.map_filter_simps split: option.split)

lemma failed_ranks_mem:
  "(i, r) \<in> set (failed_ranks bs) \<longleftrightarrow>
     i < length bs \<and> (\<exists>code. br_state (bs ! i) = Completed code \<and> 300 \<le> code
       \<and> r = rank_preferring code (origin (bs ! i) = Peer))"
  by (auto simp: failed_ranks_def set_map_filter_iff in_set_enumerate_eq intro!: bexI [of _ "(i, bs ! i)"]
      split: branch_state.splits if_splits)

lemma failures_mem:
  "(code, p) \<in> set (failures f) \<longleftrightarrow>
     (\<exists>b \<in> set (branches f). br_state b = Completed code \<and> 300 \<le> code \<and> p = (origin b = Peer))"
proof -
  have "(code, p) \<in> set (failure_of b) \<longleftrightarrow> br_state b = Completed code \<and> 300 \<le> code \<and> p = (origin b = Peer)" for b
    by (auto split: branch_state.splits if_splits)
  then show ?thesis by (simp add: failures_def del: failure_of.simps)
qed

lemma best_branch_Some:
  assumes "best_branch f = Some i"
  shows "\<exists>code. i < length (branches f) \<and> br_state (branches f ! i) = Completed code
    \<and> (code, origin (branches f ! i) = Peer) \<in> set (failures f)
    \<and> (\<forall>(d, q) \<in> set (failures f). rank_preferring d q \<le> rank_preferring code (origin (branches f ! i) = Peer))"
proof -
  obtain r where best: "max_by_key snd (failed_ranks (branches f)) = Some (i, r)"
    using assms by (auto simp: best_branch_def)
  from max_by_key_Some(1) [OF best] obtain code where code: "i < length (branches f)"
    "br_state (branches f ! i) = Completed code" "300 \<le> code"
    "r = rank_preferring code (origin (branches f ! i) = Peer)"
    by (auto simp: failed_ranks_mem)
  have "rank_preferring d q \<le> r" if dq: "(d, q) \<in> set (failures f)" for d q
  proof -
    from dq obtain j where "j < length (branches f)" "br_state (branches f ! j) = Completed d" "300 \<le> d"
      "q = (origin (branches f ! j) = Peer)"
      by (auto simp: failures_mem in_set_conv_nth [of _ "branches f"])
    then have "(j, rank_preferring d q) \<in> set (failed_ranks (branches f))" by (simp add: failed_ranks_mem)
    from max_by_key_Some(2) [OF best this] show ?thesis by simp
  qed
  with code show ?thesis by (auto simp: failures_mem)
qed

lemma best_branch_None: "best_branch f = None \<longleftrightarrow> failures f = []"
proof -
  have "failed_ranks (branches f) \<noteq> [] \<longleftrightarrow> (\<exists>i r. (i, r) \<in> set (failed_ranks (branches f)))"
    by (cases "failed_ranks (branches f)") auto
  also have "\<dots> \<longleftrightarrow> (\<exists>i < length (branches f). \<exists>code. br_state (branches f ! i) = Completed code \<and> 300 \<le> code)"
    by (simp only: failed_ranks_mem) blast
  also have "\<dots> \<longleftrightarrow> (\<exists>b \<in> set (branches f). \<exists>code. br_state b = Completed code \<and> 300 \<le> code)"
    by (simp only: Bex_def in_set_conv_nth) blast
  also have "\<dots> \<longleftrightarrow> (\<exists>code p. (code, p) \<in> set (failures f))"
    by (simp only: failures_mem) blast
  also have "\<dots> \<longleftrightarrow> failures f \<noteq> []" by (cases "failures f") auto
  finally show ?thesis by (simp add: best_branch_def)
qed

text \<open>Section 16.7 step 6 in terms of the codes: what the chosen failure is among all of them.\<close>

definition step6_choice :: "(nat \<times> bool) set \<Rightarrow> nat \<times> bool \<Rightarrow> bool" where
  "step6_choice F = (\<lambda>(c, p).
     (c, p) \<in> F
     \<and> ((\<exists>(d, _) \<in> F. 600 \<le> d) \<longrightarrow> 600 \<le> c)
     \<and> ((\<forall>(d, _) \<in> F. d < 600) \<longrightarrow> (\<forall>(d, _) \<in> F. c div 100 \<le> d div 100))
     \<and> (c div 100 = 4 \<and> (\<exists>(d, _) \<in> F. d \<in> {401, 407, 415, 420, 484}) \<longrightarrow> c \<in> {401, 407, 415, 420, 484})
     \<and> (c = 503 \<longrightarrow> (\<forall>(d, _) \<in> F. d = 503))
     \<and> (\<forall>(d, q) \<in> F. d div 100 = c div 100
           \<and> (d \<in> {401, 407, 415, 420, 484} \<longleftrightarrow> c \<in> {401, 407, 415, 420, 484}) \<and> (d = 503 \<longleftrightarrow> c = 503)
         \<longrightarrow> (q \<longrightarrow> p) \<and> (q = p \<longrightarrow> d \<le> c)))"

lemma rank_class: "300 \<le> d \<Longrightarrow> d < 700 \<Longrightarrow>
    rk_class (rank_preferring d q) = (if d div 100 = 6 then 4 else 6 - d div 100)"
proof -
  assume "300 \<le> d" "d < 700"
  then consider "300 \<le> d \<and> d < 400" | "400 \<le> d \<and> d < 500" | "500 \<le> d \<and> d < 600" | "600 \<le> d \<and> d < 700" by linarith
  then show ?thesis
  proof cases
    case 1 then have "d div 100 = 3" by auto with 1 show ?thesis by (simp add: rank_preferring_def)
  next
    case 2 then have "d div 100 = 4" by auto with 2 show ?thesis by (simp add: rank_preferring_def)
  next
    case 3 then have "d div 100 = 5" by auto with 3 show ?thesis by (simp add: rank_preferring_def)
  next
    case 4 then have "d div 100 = 6" by auto with 4 show ?thesis by (simp add: rank_preferring_def)
  qed
qed

lemma step6_of_rank:
  assumes "(c, p) \<in> F" and "\<And>d q. (d, q) \<in> F \<Longrightarrow> 300 \<le> d \<and> d < 700"
    and "\<And>d q. (d, q) \<in> F \<Longrightarrow> rank_preferring d q \<le> rank_preferring c p"
  shows "step6_choice F (c, p)"
proof -
  have c: "300 \<le> c" "c < 700" using assms(1,2) by auto
  have standing: "rk_standing (rank_preferring d q) =
      (if d = 503 then 0 else if d \<in> {401, 407, 415, 420, 484} then 2 else 1)" for d q
    by (simp add: rank_preferring_def RESUBMISSION_HINTS_def)
  have best: "d div 100 = 6 \<and> c div 100 = 6 \<or> d div 100 \<noteq> 6 \<and> (c div 100 = 6 \<or> c div 100 \<le> d div 100)"
    and level: "d div 100 = c div 100 \<Longrightarrow> rk_standing (rank_preferring d q) < rk_standing (rank_preferring c p)
      \<or> rk_standing (rank_preferring d q) = rk_standing (rank_preferring c p) \<and> (q \<longrightarrow> p) \<and> (q = p \<longrightarrow> d \<le> c)"
    if dq: "(d, q) \<in> F" for d q
  proof -
    have d: "300 \<le> d" "d < 700" using assms(2) [OF dq] by auto
    have le: "rk_class (rank_preferring d q) < rk_class (rank_preferring c p) \<or>
      rk_class (rank_preferring d q) = rk_class (rank_preferring c p)
      \<and> (rk_standing (rank_preferring d q) < rk_standing (rank_preferring c p)
        \<or> rk_standing (rank_preferring d q) = rk_standing (rank_preferring c p) \<and> (q < p \<or> q = p \<and> d \<le> c))"
      using assms(3) [OF dq] by (auto simp: rank_preferring_def rank_le)
    from le have "rk_class (rank_preferring d q) \<le> rk_class (rank_preferring c p)" by auto
    moreover have "3 \<le> d div 100" "d div 100 \<le> 6" "3 \<le> c div 100" "c div 100 \<le> 6" using d c by auto
    ultimately show "d div 100 = 6 \<and> c div 100 = 6 \<or> d div 100 \<noteq> 6 \<and> (c div 100 = 6 \<or> c div 100 \<le> d div 100)"
      unfolding rank_class [OF d] rank_class [OF c] by (auto simp: le_diff_iff' split: if_splits)
    assume "d div 100 = c div 100"
    with le show "rk_standing (rank_preferring d q) < rk_standing (rank_preferring c p)
      \<or> rk_standing (rank_preferring d q) = rk_standing (rank_preferring c p) \<and> (q \<longrightarrow> p) \<and> (q = p \<longrightarrow> d \<le> c)"
      unfolding rank_class [OF d] rank_class [OF c] by (simp split: if_splits) auto
  qed
  have "600 \<le> c" if "(d, q) \<in> F" "600 \<le> d" for d q
  proof -
    have "d div 100 = 6" using that assms(2) [OF that(1)] by auto
    with best [OF that(1)] show ?thesis by auto
  qed
  moreover have "c div 100 \<le> d div 100" if "\<forall>(d, _) \<in> F. d < 600" "(d, q) \<in> F" for d q
  proof -
    have "c < 600" using that(1) assms(1) by auto
    then have "c div 100 \<noteq> 6" by auto
    with best [OF that(2)] show ?thesis by auto
  qed
  moreover have "c \<in> {401, 407, 415, 420, 484}"
    if "c div 100 = 4" "(d, q) \<in> F" "d \<in> {401, 407, 415, 420, 484}" for d q
  proof -
    have "d div 100 = 4" using that(3) by auto
    with level [OF that(2)] that(1,3) show ?thesis unfolding standing by (auto split: if_splits)
  qed
  moreover have "d = 503" if "c = 503" "(d, q) \<in> F" for d q
  proof -
    have "d div 100 = 5 \<or> d div 100 = 6" using best [OF that(2)] that(1) assms(2) [OF that(2)] by auto
    with best [OF that(2)] level [OF that(2)] that(1) show ?thesis unfolding standing by (auto split: if_splits)
  qed
  moreover have "(q \<longrightarrow> p) \<and> (q = p \<longrightarrow> d \<le> c)"
    if "(d, q) \<in> F" "d div 100 = c div 100"
      "d \<in> {401, 407, 415, 420, 484} \<longleftrightarrow> c \<in> {401, 407, 415, 420, 484}" "d = 503 \<longleftrightarrow> c = 503" for d q
  proof -
    have "rk_standing (rank_preferring d q) = rk_standing (rank_preferring c p)"
      unfolding standing using that(3,4) by simp
    with level [OF that(1,2)] show ?thesis by simp
  qed
  ultimately show ?thesis using assms(1) unfolding step6_choice_def by blast
qed

subsection \<open>What a fork forwards\<close>

datatype fork_op =
    FTrying nat | FCancelled nat | FLocal nat | FStatus nat nat | FResponse nat nat sip_message | FTake

definition fork_step :: "fork_aggregator \<Rightarrow> fork_op \<Rightarrow> fork_aggregator \<times> fork_action list" where
  "fork_step f op = (case op of
     FTrying i \<Rightarrow> (mark_trying f i, [])
   | FCancelled i \<Rightarrow> (mark_cancelled f i, [])
   | FLocal i \<Rightarrow> (mark_local_failure f i, [])
   | FStatus i code \<Rightarrow> (case on_branch_response f i code of (f', a) \<Rightarrow> (f', [a]))
   | FResponse i code m \<Rightarrow> (case on_response f i code m of (f', a) \<Rightarrow> (f', [a]))
   | FTake \<Rightarrow> (fst (take_best_response f), []))"

fun fork_run :: "fork_aggregator \<Rightarrow> fork_op list \<Rightarrow> fork_aggregator \<times> fork_action list" where
  "fork_run f [] = (f, [])"
| "fork_run f (op # ops) = (let (f', as) = fork_step f op; (f'', bs) = fork_run f' ops in (f'', as @ bs))"

text \<open>The actions that send a final response for the first time.\<close>

fun is_final :: "fork_action \<Rightarrow> bool" where
  "is_final Forward2xx = True"
| "is_final Forward6xx = True"
| "is_final (ForwardBestError _) = True"
| "is_final _ = False"

lemma map_branch_simps [simp]:
  "final_forwarded (map_branch i g f) = final_forwarded f"
  "sent_100 (map_branch i g f) = sent_100 f"
  "strategy (map_branch i g f) = strategy f"
  "length (branches (map_branch i g f)) = length (branches f)"
  "best_response (map_branch i g f) = best_response f"
  by (simp_all add: map_branch_def)

lemma settle_simps [simp]:
  "final_forwarded (fork_settle f)" "sent_100 (fork_settle f) = sent_100 f"
  "strategy (fork_settle f) = strategy f"
  "length (branches (fork_settle f)) = length (branches f)"
  by (simp_all add: fork_settle_def)

lemma settle_on_best_simps [simp]:
  "final_forwarded (fst (settle_on_best_failure f))"
  "sent_100 (fst (settle_on_best_failure f)) = sent_100 f"
  "strategy (fst (settle_on_best_failure f)) = strategy f"
  "length (branches (fst (settle_on_best_failure f))) = length (branches f)"
  "is_final (snd (settle_on_best_failure f))"
  by (simp_all add: settle_on_best_failure_def Let_def split: option.split)

text \<open>One response: what may go upstream before and after the fork has settled.\<close>

lemma response_final:
  assumes "on_branch_response f i code = (f', a)"
  shows "final_forwarded f \<Longrightarrow> final_forwarded f' \<and> a \<in> {ContinueWaiting, ForwardAnother2xx}"
    and "\<not> final_forwarded f \<Longrightarrow> (final_forwarded f' \<longleftrightarrow> is_final a) \<and> a \<noteq> ForwardAnother2xx"
    and "sent_100 f' \<longleftrightarrow> sent_100 f \<or> a = ForwardProvisional 100"
    and "sent_100 f \<Longrightarrow> a \<noteq> ForwardProvisional 100"
proof -
  have settle: "(final_forwarded f1 \<longleftrightarrow> is_final b) \<and> b \<noteq> ForwardAnother2xx \<and> sent_100 f1 = sent_100 g \<and> b \<noteq> ForwardProvisional 100"
    if "settle_on_best_failure g = (f1, b)" for f1 b g
    using that settle_on_best_simps [of g] by (cases b) auto
  show "final_forwarded f \<Longrightarrow> final_forwarded f' \<and> a \<in> {ContinueWaiting, ForwardAnother2xx}"
    using assms by (auto simp: on_branch_response_def Let_def split: if_splits)
  show "\<not> final_forwarded f \<Longrightarrow> (final_forwarded f' \<longleftrightarrow> is_final a) \<and> a \<noteq> ForwardAnother2xx"
    using assms by (auto simp: on_branch_response_def Let_def dest!: settle
        split: if_splits fork_strategy.splits option.splits)
  show "sent_100 f' \<longleftrightarrow> sent_100 f \<or> a = ForwardProvisional 100"
    using assms by (auto simp: on_branch_response_def Let_def dest!: settle
        split: if_splits fork_strategy.splits option.splits)
  show "sent_100 f \<Longrightarrow> a \<noteq> ForwardProvisional 100"
    using assms by (auto simp: on_branch_response_def Let_def dest!: settle
        split: if_splits fork_strategy.splits option.splits)
qed

text \<open>An operation marks a branch or takes the response, or it is one response for a branch.\<close>

lemma fork_step_cases:
  assumes "fork_step f op = (f', as)"
  obtains (mark) "as = []" "final_forwarded f' = final_forwarded f" "sent_100 f' = sent_100 f"
  | (response) f0 i code a where "final_forwarded f0 = final_forwarded f" "sent_100 f0 = sent_100 f"
      "as = [a]" "on_branch_response f0 i code = (f', a)"
proof (cases op)
  case (FTrying i)
  with assms show ?thesis by (intro mark) (auto simp: fork_step_def mark_trying_def)
next
  case (FCancelled i)
  with assms show ?thesis by (intro mark) (auto simp: fork_step_def mark_cancelled_def)
next
  case (FLocal i)
  with assms show ?thesis by (intro mark) (auto simp: fork_step_def mark_local_failure_def)
next
  case (FStatus i code)
  with assms show ?thesis by (intro response [of f "snd (on_branch_response f i code)" i code])
      (auto simp: fork_step_def split_beta)
next
  case (FResponse i code m)
  let ?f0 = "if 300 \<le> code \<and> \<not> final_forwarded f then map_branch i (\<lambda>b. b\<lparr>br_response := Some m\<rparr>) f else f"
  from FResponse assms show ?thesis
    by (intro response [of ?f0 "snd (on_branch_response ?f0 i code)" i code])
      (auto simp: fork_step_def on_response_def Let_def split_beta)
next
  case FTake
  with assms show ?thesis by (intro mark) (auto simp: fork_step_def take_best_response_def)
qed

lemma fork_step_final:
  assumes "fork_step f op = (f', as)"
  shows "final_forwarded f \<Longrightarrow> final_forwarded f' \<and> set as \<subseteq> {ContinueWaiting, ForwardAnother2xx}"
    and "\<not> final_forwarded f \<Longrightarrow> final_forwarded f' \<Longrightarrow> \<exists>a. as = [a] \<and> is_final a"
    and "\<not> final_forwarded f \<Longrightarrow> \<not> final_forwarded f' \<Longrightarrow> \<forall>a \<in> set as. \<not> is_final a \<and> a \<noteq> ForwardAnother2xx"
    and "count_list as (ForwardProvisional 100) = (if sent_100 f' \<and> \<not> sent_100 f then 1 else 0) \<and> (sent_100 f \<longrightarrow> sent_100 f')"
proof -
  show "final_forwarded f \<Longrightarrow> final_forwarded f' \<and> set as \<subseteq> {ContinueWaiting, ForwardAnother2xx}"
    using assms by (cases rule: fork_step_cases) (auto dest: response_final(1))
  show "\<not> final_forwarded f \<Longrightarrow> final_forwarded f' \<Longrightarrow> \<exists>a. as = [a] \<and> is_final a"
    using assms by (cases rule: fork_step_cases) (auto dest: response_final(2))
  show "\<not> final_forwarded f \<Longrightarrow> \<not> final_forwarded f' \<Longrightarrow> \<forall>a \<in> set as. \<not> is_final a \<and> a \<noteq> ForwardAnother2xx"
    using assms by (cases rule: fork_step_cases) (auto dest: response_final(2))
  show "count_list as (ForwardProvisional 100) = (if sent_100 f' \<and> \<not> sent_100 f then 1 else 0) \<and> (sent_100 f \<longrightarrow> sent_100 f')"
    using assms by (cases rule: fork_step_cases) (auto dest: response_final(3,4))
qed

lemma fork_run_settled:
  assumes "fork_run f ops = (f', as)" and "final_forwarded f"
  shows "final_forwarded f' \<and> set as \<subseteq> {ContinueWaiting, ForwardAnother2xx}"
  using assms
proof (induction ops arbitrary: f as)
  case (Cons op ops)
  obtain f1 bs cs where "fork_step f op = (f1, bs)" "fork_run f1 ops = (f', cs)" "as = bs @ cs"
    using Cons.prems(1) by (auto split: prod.splits)
  with Cons.IH [of f1 cs] fork_step_final(1) [of f op f1 bs] Cons.prems(2) show ?case by auto
qed simp

lemma fork_run_split:
  assumes "fork_run f ops = (f', as)" and "\<not> final_forwarded f"
  shows "\<exists>pre post. as = pre @ post \<and> (\<forall>a \<in> set pre. \<not> is_final a \<and> a \<noteq> ForwardAnother2xx)
    \<and> (final_forwarded f' \<longleftrightarrow> post \<noteq> [])
    \<and> (post \<noteq> [] \<longrightarrow> is_final (hd post) \<and> set (tl post) \<subseteq> {ContinueWaiting, ForwardAnother2xx})"
  using assms
proof (induction ops arbitrary: f as)
  case (Cons op ops)
  obtain f1 bs cs where step: "fork_step f op = (f1, bs)" "fork_run f1 ops = (f', cs)" "as = bs @ cs"
    using Cons.prems(1) by (auto split: prod.splits)
  show ?case
  proof (cases "final_forwarded f1")
    case True
    with fork_step_final(2) [OF step(1) Cons.prems(2)] obtain a where "bs = [a]" "is_final a" by auto
    with fork_run_settled [OF step(2) True] step(3) show ?thesis
      by - (rule exI [of _ "[]"], rule exI [of _ as], auto)
  next
    case False
    from Cons.IH [OF step(2) False] obtain pre post where "cs = pre @ post"
      "\<forall>a \<in> set pre. \<not> is_final a \<and> a \<noteq> ForwardAnother2xx" "final_forwarded f' \<longleftrightarrow> post \<noteq> []"
      "post \<noteq> [] \<longrightarrow> is_final (hd post) \<and> set (tl post) \<subseteq> {ContinueWaiting, ForwardAnother2xx}" by blast
    with fork_step_final(3) [OF step(1) Cons.prems(2) False] step(3) show ?thesis
      by - (rule exI [of _ "bs @ pre"], rule exI [of _ post], auto)
  qed
qed simp

lemma fork_run_one_100:
  assumes "fork_run f ops = (f', as)"
  shows "count_list as (ForwardProvisional 100) = (if sent_100 f' \<and> \<not> sent_100 f then 1 else 0) \<and> (sent_100 f \<longrightarrow> sent_100 f')"
  using assms
proof (induction ops arbitrary: f as)
  case (Cons op ops)
  obtain f1 bs cs where step: "fork_step f op = (f1, bs)" "fork_run f1 ops = (f', cs)" "as = bs @ cs"
    using Cons.prems(1) by (auto split: prod.splits)
  from Cons.IH [OF step(2)] fork_step_final(4) [OF step(1)] show ?case
    by (cases "sent_100 f"; cases "sent_100 f1") (simp_all add: step(3) count_list_append)
qed simp

subsection \<open>Every branch has answered\<close>

definition all_completed :: "fork_aggregator \<Rightarrow> bool" where
  "all_completed f = list_all (\<lambda>b. case br_state b of Completed _ \<Rightarrow> True | _ \<Rightarrow> False) (branches f)"

definition answered :: "fork_aggregator \<Rightarrow> bool" where
  "answered f = list_ex (\<lambda>b. case br_state b of Completed c \<Rightarrow> 200 \<le> c \<and> c \<le> 299 | _ \<Rightarrow> False) (branches f)"

text \<open>A fork has settled once a branch has answered, and once all of its branches have a final response.\<close>

definition fork_inv :: "fork_aggregator \<Rightarrow> bool" where
  "fork_inv f \<longleftrightarrow> branches f \<noteq> [] \<and> (all_completed f \<or> answered f \<longrightarrow> final_forwarded f)"

lemma completed_iff: "(case s of Completed _ \<Rightarrow> True | _ \<Rightarrow> False) \<longleftrightarrow> (\<exists>c. s = Completed c)"
  by (cases s) auto

lemma all_completed_nth:
  "all_completed f \<longleftrightarrow> (\<forall>i < length (branches f). \<exists>c. br_state (branches f ! i) = Completed c)"
  by (simp add: all_completed_def list_all_length completed_iff)

lemma answered_nth:
  "answered f \<longleftrightarrow> (\<exists>i < length (branches f). \<exists>c. br_state (branches f ! i) = Completed c \<and> 200 \<le> c \<and> c \<le> 299)"
proof -
  have "(case s of Completed c \<Rightarrow> 200 \<le> c \<and> c \<le> 299 | _ \<Rightarrow> False)
      \<longleftrightarrow> (\<exists>c. s = Completed c \<and> 200 \<le> c \<and> c \<le> 299)" for s
    by (cases s) auto
  then show ?thesis by (simp add: answered_def list_ex_length)
qed

lemma all_completed_complete: "all_completed f \<Longrightarrow> fork_is_complete f"
  by (auto simp: all_completed_def fork_is_complete_def list_all_iff split: branch_state.splits)

lemma all_completed_no_pending: "all_completed f \<Longrightarrow> next_pending_branch f = None"
  by (auto simp: all_completed_def next_pending_branch_def position_of_None list_all_iff split: branch_state.splits)

lemma map_branch_nth:
  "j < length (branches f) \<Longrightarrow>
     branches (map_branch i g f) ! j = (if i = j then g (branches f ! j) else branches f ! j)"
  by (simp add: map_branch_def)

lemma map_branch_inv:
  assumes "fork_inv f" and "\<And>b. br_state (g b) = br_state b \<or> (\<forall>c. br_state (g b) \<noteq> Completed c)"
  shows "fork_inv (map_branch i g f)"
proof -
  have kept: "br_state (branches f ! j) = Completed c"
    if "j < length (branches f)" "br_state (branches (map_branch i g f) ! j) = Completed c" for j c
    using that assms(2) [of "branches f ! j"] by (auto simp: map_branch_nth split: if_splits)
  have "all_completed f" if "all_completed (map_branch i g f)"
    using that kept unfolding all_completed_nth map_branch_simps by blast
  moreover have "answered f" if "answered (map_branch i g f)"
    using that kept unfolding answered_nth map_branch_simps by blast
  moreover have "branches (map_branch i g f) \<noteq> []" using assms(1) by (simp add: fork_inv_def map_branch_def)
  ultimately show ?thesis using assms(1) by (auto simp: fork_inv_def)
qed

lemma settled_inv: "branches f \<noteq> [] \<Longrightarrow> final_forwarded f \<Longrightarrow> fork_inv f"
  by (simp add: fork_inv_def)

lemma response_length:
  assumes "on_branch_response f i code = (f', a)"
  shows "length (branches f') = length (branches f)"
proof -
  have settle: "length (branches f1) = length (branches g)" if "settle_on_best_failure g = (f1, b)" for f1 b g
    using that settle_on_best_simps(4) [of g] by simp
  from assms show ?thesis
    by (auto simp: on_branch_response_def Let_def dest!: settle
        split: if_splits fork_strategy.splits option.splits)
qed

lemma response_state:
  assumes "on_branch_response f i code = (f', a)" and "\<not> final_forwarded f'" and "i < length (branches f)"
  shows "branches f' = branches (map_branch i (\<lambda>b. b\<lparr>br_state :=
      if 100 \<le> code \<and> code < 200 then Proceeding code else Completed code\<rparr>) f)"
proof -
  have settle: "final_forwarded f1" if "settle_on_best_failure g = (f1, b)" for f1 b g
    using that settle_on_best_simps(1) [of g] by simp
  from assms show ?thesis
    by (auto simp: on_branch_response_def Let_def dest!: settle
        split: if_splits fork_strategy.splits option.splits)
qed

lemma response_completes:
  assumes "on_branch_response f i code = (f', a)" and "i < length (branches f)"
    and "\<not> (100 \<le> code \<and> code < 200)" and "\<not> answered f"
    and "all_completed (map_branch i (\<lambda>b. b\<lparr>br_state := Completed code\<rparr>) f)" (is "all_completed ?f1")
  shows "final_forwarded f'"
proof -
  have "\<not> (case br_state (branches f ! i) of Completed c \<Rightarrow> 200 \<le> c \<and> c \<le> 299 | _ \<Rightarrow> False)"
    using assms(2,4) by (auto simp: answered_nth split: branch_state.splits)
  then have "on_branch_response f i code =
     (if 200 \<le> code \<and> code < 300 then
        (if final_forwarded f then (?f1, ForwardAnother2xx) else (fork_settle ?f1, Forward2xx))
      else if 600 \<le> code then
        (if final_forwarded f then (?f1, ContinueWaiting) else (fork_settle ?f1, Forward6xx))
      else if final_forwarded f then (?f1, ContinueWaiting) else settle_on_best_failure ?f1)"
    unfolding on_branch_response_def Let_def if_not_P [OF assms(3)]
    using assms(2) all_completed_complete [OF assms(5)] all_completed_no_pending [OF assms(5)]
    by (simp split: fork_strategy.split)
  then have "final_forwarded (fst (on_branch_response f i code))" by simp
  then show ?thesis by (simp add: assms(1))
qed

lemma response_inv:
  assumes res: "on_branch_response f i code = (f', a)" and inv: "fork_inv f"
  shows "fork_inv f'"
proof (cases "i < length (branches f) \<and> \<not> final_forwarded f'")
  case True
  then have i: "i < length (branches f)" and open': "\<not> final_forwarded f'" by auto
  have "\<not> final_forwarded f" using open' response_final(1) [OF res] by auto
  with inv have answered: "\<not> answered f" by (auto simp: fork_inv_def)
  note state = response_state [OF res open' i]
  have "\<not> all_completed f'"
  proof (cases "100 \<le> code \<and> code < 200")
    case True
    with i state have "br_state (branches f' ! i) = Proceeding code" "i < length (branches f')"
      by (simp_all add: map_branch_nth)
    then show ?thesis unfolding all_completed_nth by (auto dest!: spec [of _ i])
  next
    case False
    with response_completes [OF res i False answered] open' state show ?thesis
      unfolding all_completed_def by auto
  qed
  moreover have "\<not> answered f'"
  proof
    assume "answered f'"
    then obtain j c where j: "j < length (branches f')" "br_state (branches f' ! j) = Completed c" "200 \<le> c" "c \<le> 299"
      by (auto simp: answered_nth)
    show False
    proof (cases "j = i")
      case True
      with j i state have "c = code" by (auto simp: map_branch_nth split: if_splits)
      with j res i answered open' \<open>\<not> final_forwarded f\<close> show False
        by (auto simp: on_branch_response_def Let_def answered_nth split: if_splits branch_state.splits)
    next
      case False
      with j state have "j < length (branches f)" "br_state (branches f ! j) = Completed c"
        by (simp_all add: map_branch_nth)
      with answered j(3,4) show False by (auto simp: answered_nth)
    qed
  qed
  ultimately show ?thesis using response_length [OF res] inv by (auto simp: fork_inv_def)
next
  case False
  then show ?thesis
    using inv res response_length [OF res] by (auto simp: fork_inv_def on_branch_response_def)
qed

lemma fork_step_inv:
  assumes "fork_step f op = (f', as)" and "fork_inv f"
  shows "fork_inv f'"
proof (cases op)
  case (FStatus i code)
  with assms show ?thesis by (auto simp: fork_step_def split: prod.splits intro: response_inv)
next
  case (FResponse i code m)
  let ?f0 = "if 300 \<le> code \<and> \<not> final_forwarded f then map_branch i (\<lambda>b. b\<lparr>br_response := Some m\<rparr>) f else f"
  have "fork_inv ?f0" using assms(2) by (auto intro: map_branch_inv)
  moreover obtain a where "on_branch_response ?f0 i code = (f', a)"
    using FResponse assms(1) by (auto simp: fork_step_def on_response_def Let_def split: prod.splits)
  ultimately show ?thesis by (rule response_inv [rotated])
next
  case FTake
  with assms show ?thesis by (auto simp: fork_step_def take_best_response_def fork_inv_def all_completed_def answered_def)
qed (use assms in \<open>auto simp: fork_step_def mark_trying_def mark_cancelled_def mark_local_failure_def
    intro!: map_branch_inv\<close>)

lemma fork_run_inv: "fork_run f ops = (f', as) \<Longrightarrow> fork_inv f \<Longrightarrow> fork_inv f'"
proof (induction ops arbitrary: f as)
  case (Cons op ops)
  then show ?case by (auto split: prod.splits dest: fork_step_inv)
qed simp

lemma fork_new_inv: "targets \<noteq> [] \<Longrightarrow> fork_inv (fork_new targets st)"
  by (cases targets) (auto simp: fork_inv_def fork_new_def all_completed_def answered_def list_ex_iff)

text \<open>Settling and taking the chosen response leave the failures as they are.\<close>

lemma failures_map:
  assumes "map br_state bs = map br_state (branches f)" and "map origin bs = map origin (branches f)"
  shows "failures (f\<lparr>branches := bs\<rparr>) = failures f"
proof -
  have len: "length bs = length (branches f)" using assms(1) by (rule map_eq_imp_length_eq)
  have "failure_of (bs ! i) = failure_of (branches f ! i)" if "i < length bs" for i
  proof -
    have "br_state (bs ! i) = br_state (branches f ! i)" using that len assms(1) by (metis nth_map)
    moreover have "origin (bs ! i) = origin (branches f ! i)" using that len assms(2) by (metis nth_map)
    ultimately show ?thesis by (simp only: failure_of.simps)
  qed
  with len have "map failure_of bs = map failure_of (branches f)"
    by (simp add: list_eq_iff_nth_eq del: failure_of.simps)
  then show ?thesis by (simp add: failures_def)
qed

lemma failures_settle: "failures (fork_settle f) = failures f"
  using failures_map [of "map (\<lambda>b. b\<lparr>br_response := None\<rparr>) (branches f)" "f\<lparr>final_forwarded := True\<rparr>"]
  by (simp add: fork_settle_def failures_def comp_def)

lemma failures_taken: "failures (map_branch i (\<lambda>b. b\<lparr>br_response := None\<rparr>) f) = failures f"
  using failures_map [of "(branches f)[i := (branches f ! i)\<lparr>br_response := None\<rparr>]" f]
  by (simp add: map_branch_def failures_def list_eq_iff_nth_eq nth_list_update)

lemma failures_best: "failures (f\<lparr>best_response := r\<rparr>) = failures f"
  by (simp add: failures_def)

subsection \<open>Properties\<close>

text \<open>
  C4. A fork sends one final response: over any sequence of operations on the aggregator, what goes
  upstream is provisional responses, at most one of them a 100, then one final response (the
  first 2xx, a 6xx, or the best failure), and after it nothing but further 2xx.  The final
  response has gone as soon as every branch has one.
\<close>

theorem fork_one_final:
  assumes "fork_run (fork_new targets st) ops = (f, as)"
  shows "\<exists>pre post. as = pre @ post
    \<and> (\<forall>a \<in> set pre. \<not> is_final a \<and> a \<noteq> ForwardAnother2xx)
    \<and> (post \<noteq> [] \<longrightarrow> is_final (hd post) \<and> set (tl post) \<subseteq> {ContinueWaiting, ForwardAnother2xx})
    \<and> count_list as (ForwardProvisional 100) \<le> 1
    \<and> (has_settled f \<longleftrightarrow> post \<noteq> [])
    \<and> (targets \<noteq> [] \<and> all_completed f \<longrightarrow> post \<noteq> [])"
proof -
  have new: "\<not> final_forwarded (fork_new targets st)" "\<not> sent_100 (fork_new targets st)"
    by (simp_all add: fork_new_def)
  have fin: "final_forwarded f" if "targets \<noteq> []" "all_completed f"
    using fork_run_inv [OF assms fork_new_inv [OF that(1)]] that(2) by (simp add: fork_inv_def)
  from fork_run_split [OF assms new(1)] obtain pre post where "as = pre @ post"
    "\<forall>a \<in> set pre. \<not> is_final a \<and> a \<noteq> ForwardAnother2xx" "final_forwarded f \<longleftrightarrow> post \<noteq> []"
    "post \<noteq> [] \<longrightarrow> is_final (hd post) \<and> set (tl post) \<subseteq> {ContinueWaiting, ForwardAnother2xx}" by blast
  moreover have "count_list as (ForwardProvisional 100) \<le> 1" using fork_run_one_100 [OF assms] by simp
  ultimately show ?thesis using fin unfolding has_settled_def by blast
qed

theorem fork_one_final_witness:
  "\<exists>pre post. snd (fork_run (fork_new [uri_new ''a'', uri_new ''b''] Parallel)
      [FStatus 0 180, FStatus 1 200, FStatus 0 200, FStatus 0 486]) = pre @ post
    \<and> is_final (hd post) \<and> set (tl post) \<subseteq> {ContinueWaiting, ForwardAnother2xx} \<and> post \<noteq> []"
proof -
  let ?r = "fork_run (fork_new [uri_new ''a'', uri_new ''b''] Parallel)
      [FStatus 0 180, FStatus 1 200, FStatus 0 200, FStatus 0 486]"
  have "all_completed (fst ?r)" by code_simp
  with fork_one_final [of "[uri_new ''a'', uri_new ''b'']" Parallel _ "fst ?r" "snd ?r"] show ?thesis
    by (simp only: prod.collapse) blast
qed

text \<open>
  C22. The failure a fork forwards is the one RFC 3261 section 16.7 step 6 asks for, over the final
  failures of all its branches: a 6xx if there is one, otherwise one of the lowest class; within
  4xx one that tells how to resubmit if there is any; a 503 only when all are 503; and between
  responses these rules leave level a peer's before one made up by the proxy, then the highest code.
\<close>

theorem fork_best_failure:
  assumes "on_branch_response f i code = (f', ForwardBestError c)" and "300 \<le> code"
    and "\<forall>(d, _) \<in> set (failures f'). d < 700"
  shows "\<exists>p. step6_choice (set (failures f')) (c, p)"
proof -
  let ?f1 = "map_branch i (\<lambda>b. b\<lparr>br_state := Completed code\<rparr>) f"
  have i: "i < length (branches f)" and settle: "settle_on_best_failure ?f1 = (f', ForwardBestError c)"
    using assms(1,2) by (auto simp: on_branch_response_def Let_def split: if_splits fork_strategy.splits option.splits)
  from settle have failures: "failures f' = failures ?f1"
    by (auto simp: settle_on_best_failure_def Let_def failures_settle failures_taken failures_best split: option.splits)
  have "(code, origin (branches f ! i) = Peer) \<in> set (failures ?f1)"
    unfolding failures_mem using i assms(2)
    by (intro bexI [of _ "(branches f ! i)\<lparr>br_state := Completed code\<rparr>"])
      (auto simp: map_branch_def intro: set_update_memI)
  then obtain j where j: "best_branch ?f1 = Some j"
    using best_branch_None [of ?f1] by (cases "best_branch ?f1") auto
  from best_branch_Some [OF j] obtain d where d: "br_state (branches ?f1 ! j) = Completed d"
    "(d, origin (branches ?f1 ! j) = Peer) \<in> set (failures ?f1)"
    "\<forall>(e, q) \<in> set (failures ?f1). rank_preferring e q \<le> rank_preferring d (origin (branches ?f1 ! j) = Peer)"
    by blast
  have "c = d" using settle j d(1) by (simp add: settle_on_best_failure_def Let_def)
  moreover have "step6_choice (set (failures f')) (d, origin (branches ?f1 ! j) = Peer)"
    unfolding failures
  proof (rule step6_of_rank [OF d(2)])
    fix e q assume e: "(e, q) \<in> set (failures ?f1)"
    from d(3) e show "rank_preferring e q \<le> rank_preferring d (origin (branches ?f1 ! j) = Peer)" by blast
    have "300 \<le> e" using e by (simp only: failures_mem) blast
    moreover have "e < 700" using assms(3) e unfolding failures by blast
    ultimately show "300 \<le> e \<and> e < 700" ..
  qed
  ultimately show ?thesis by blast
qed

definition example_failing :: fork_aggregator where
  "example_failing = fst (fork_run (fork_new [uri_new ''a'', uri_new ''b'', uri_new ''c''] Parallel)
     [FStatus 0 486, FStatus 1 503])"

theorem fork_best_failure_witness:
  "\<exists>f' c p. on_branch_response example_failing 2 401 = (f', ForwardBestError c)
     \<and> step6_choice {(486, True), (503, True), (401, True)} (c, p) \<and> c = 401"
proof -
  let ?f = "fst (on_branch_response example_failing 2 401)"
  have r: "snd (on_branch_response example_failing 2 401) = ForwardBestError 401" by code_simp
  have f: "failures ?f = [(486, True), (503, True), (401, True)]" by code_simp
  from r have "on_branch_response example_failing 2 401 = (?f, ForwardBestError 401)" by (simp add: prod_eq_iff)
  with fork_best_failure [OF this] show ?thesis by (auto simp: f)
qed

text \<open>The values a header has once some more are added.\<close>

definition append_values :: "string list option \<Rightarrow> string list \<Rightarrow> string list option" where
  "append_values own added = (if added = [] then own else Some ((case own of None \<Rightarrow> [] | Some vs \<Rightarrow> vs) @ added))"

lemma append_values_append: "append_values (append_values own xs) ys = append_values own (xs @ ys)"
  by (simp add: append_values_def)

lemma append_values_Nil [simp]: "append_values own [] = own"
  by (simp add: append_values_def)

definition is_challenge :: "string \<Rightarrow> bool" where
  "is_challenge n \<longleftrightarrow> canonical_key n \<in> {''www-authenticate'', ''proxy-authenticate''}"

text \<open>What the other challenging branches have for a header, in the order of the branches.\<close>

definition branch_challenges :: "nat \<Rightarrow> string \<Rightarrow> nat \<times> fork_branch \<Rightarrow> string list" where
  "branch_challenges chosen n = (\<lambda>(i, b).
     if i = chosen \<or> br_state b \<notin> {Completed 401, Completed 407} then []
     else (case br_response b of None \<Rightarrow> []
           | Some other \<Rightarrow> (case hdr_get_all (msg_headers other) n of None \<Rightarrow> [] | Some vs \<Rightarrow> vs)))"

definition challenges_of :: "string \<Rightarrow> fork_aggregator \<Rightarrow> nat \<Rightarrow> string list" where
  "challenges_of n f chosen = concat (map (branch_challenges chosen n) (enumerate 0 (branches f)))"

lemma add_challenges_get:
  "hdr_get_all (add_challenges h other) n =
     (if is_challenge n
      then append_values (hdr_get_all h n) (case hdr_get_all other n of None \<Rightarrow> [] | Some vs \<Rightarrow> vs)
      else hdr_get_all h n)"
proof -
  have keys: "canonical_key ''WWW-Authenticate'' = ''www-authenticate''"
    "canonical_key ''Proxy-Authenticate'' = ''proxy-authenticate''" by code_simp+
  let ?vs = "\<lambda>name. case hdr_get_all other name of Some vs \<Rightarrow> vs | None \<Rightarrow> []"
  have added: "hdr_get_all (foldl (\<lambda>h v. hdr_add h m v) g vs) n =
      (if canonical_key n = canonical_key m then append_values (hdr_get_all g n) vs else hdr_get_all g n)" for g m vs
    using hdr.get_key [of n m g] by (simp add: hdr.get_foldl_add append_values_def)
  have same: "?vs n = ?vs m" if "canonical_key n = canonical_key m" for m
    using hdr.get_key [OF that] by simp
  show ?thesis
    using same [of "''WWW-Authenticate''"] same [of "''Proxy-Authenticate''"]
    by (simp add: add_challenges_def challenge_names_def added keys is_challenge_def)
qed

lemma collect_challenges_get:
  "hdr_get_all (msg_headers (collect_challenges f chosen r)) n =
     (if is_challenge n then append_values (hdr_get_all (msg_headers r) n) (challenges_of n f chosen)
      else hdr_get_all (msg_headers r) n)"
proof -
  let ?step = "\<lambda>h (i, b). if i = chosen \<or> br_state b \<notin> {Completed 401, Completed 407} then h
      else (case br_response b of None \<Rightarrow> h | Some other \<Rightarrow> add_challenges h (msg_headers other))"
  have step: "hdr_get_all (?step h ib) n =
      (if is_challenge n then append_values (hdr_get_all h n) (branch_challenges chosen n ib)
       else hdr_get_all h n)" for h ib
    by (cases ib) (auto simp: branch_challenges_def add_challenges_get split: option.splits)
  have "hdr_get_all (foldl ?step h ibs) n =
      (if is_challenge n then append_values (hdr_get_all h n) (concat (map (branch_challenges chosen n) ibs))
       else hdr_get_all h n)" for h ibs
  proof (induction ibs arbitrary: h)
    case (Cons ib ibs)
    show ?case unfolding foldl_Cons Cons.IH step by (simp add: append_values_append)
  qed simp
  then show ?thesis by (simp add: collect_challenges_def challenges_of_def)
qed

lemma challenges_of_taken:
  "challenges_of n (map_branch i (\<lambda>b. b\<lparr>br_response := None\<rparr>) f) i = challenges_of n f i"
proof -
  have "map (branch_challenges i n) (enumerate 0 (branches (map_branch i (\<lambda>b. b\<lparr>br_response := None\<rparr>) f)))
      = map (branch_challenges i n) (enumerate 0 (branches f))"
    by (rule nth_equalityI) (auto simp: nth_enumerate_eq map_branch_nth branch_challenges_def)
  then show ?thesis by (simp add: challenges_of_def)
qed

text \<open>
  C23. A failure that goes upstream is the chosen branch's own response, start line, body and headers
  unchanged, except that a 401 or 407 also carries, after its own, every challenge of the other
  401 and 407 responses in the order of the branches (RFC 3261 section 16.7 step 7).
\<close>

theorem fork_forwards_chosen:
  assumes "best_branch f = Some i" and "br_response (branches f ! i) = Some r"
    and "settle_on_best_failure f = (f', ForwardBestError c)"
  shows "\<exists>r'. best_response f' = Some r' \<and> msg_start_line r' = msg_start_line r \<and> msg_body r' = msg_body r
    \<and> (\<forall>n. hdr_get_all (msg_headers r') n =
         (if c \<in> {401, 407} \<and> is_challenge n
          then append_values (hdr_get_all (msg_headers r) n) (challenges_of n f i)
          else hdr_get_all (msg_headers r) n))
    \<and> (\<forall>b \<in> set (branches f'). br_response b = None)"
proof -
  let ?taken = "map_branch i (\<lambda>b. b\<lparr>br_response := None\<rparr>) f"
  define r' where "r' = (if c \<in> {401, 407} then collect_challenges ?taken i r else r)"
  have "f' = fork_settle (?taken\<lparr>best_response := Some r'\<rparr>)"
    using assms by (auto simp: settle_on_best_failure_def Let_def r'_def)
  then have "best_response f' = Some r'" and "\<forall>b \<in> set (branches f'). br_response b = None"
    by (auto simp: fork_settle_def)
  moreover have "msg_start_line r' = msg_start_line r" "msg_body r' = msg_body r"
    by (simp_all add: r'_def collect_challenges_def)
  moreover have "hdr_get_all (msg_headers r') n =
      (if c \<in> {401, 407} \<and> is_challenge n
       then append_values (hdr_get_all (msg_headers r) n) (challenges_of n f i)
       else hdr_get_all (msg_headers r) n)" for n
    by (simp add: r'_def collect_challenges_get challenges_of_taken)
  ultimately show ?thesis by blast
qed

text \<open>A reply with a challenge.\<close>

definition example_challenge :: "nat \<Rightarrow> string \<Rightarrow> sip_message" where
  "example_challenge code realm =
     \<lparr>msg_start_line = Response \<lparr>sl_version = sip_2_0, status_code = code, reason_phrase = [], generated_locally = False\<rparr>,
      msg_headers = hdr_add hdr_new ''WWW-Authenticate'' realm, msg_body = []\<rparr>"

definition example_fork :: fork_aggregator where
  "example_fork = (fork_new [uri_new ''a'', uri_new ''b''] Parallel)\<lparr>branches :=
     [\<lparr>target = uri_new ''a'', br_state = Completed 401, origin = Peer, br_response = Some (example_challenge 401 ''x'')\<rparr>,
      \<lparr>target = uri_new ''b'', br_state = Completed 407, origin = Peer, br_response = Some (example_challenge 407 ''y'')\<rparr>]\<rparr>"

theorem fork_forwards_chosen_witness:
  "\<exists>r'. best_response (fst (settle_on_best_failure example_fork)) = Some r'
     \<and> hdr_get_all (msg_headers r') ''WWW-Authenticate'' = Some [''y'', ''x'']"
proof -
  have best: "best_branch example_fork = Some (Suc 0)" by code_simp
  have r: "br_response (branches example_fork ! Suc 0) = Some (example_challenge 407 ''y'')" by (simp add: example_fork_def)
  have c: "snd (settle_on_best_failure example_fork) = ForwardBestError 407" by code_simp
  have more: "challenges_of ''WWW-Authenticate'' example_fork (Suc 0) = [''x'']" by code_simp
  have own: "hdr_get_all (msg_headers (example_challenge 407 ''y'')) ''WWW-Authenticate'' = Some [''y'']" by code_simp
  have name: "is_challenge ''WWW-Authenticate''" by code_simp
  from fork_forwards_chosen [OF best r, of "fst (settle_on_best_failure example_fork)" 407] c
  show ?thesis by (auto simp: prod_eq_iff more own name append_values_def)
qed

end
