(* ===== verification/Machine_Words.thy ===== *)
theory Machine_Words
  imports Siphon_Prelude
begin

text \<open>
  Octets and machine integers for the binary protocols: the big-endian byte orders of Rust's
  \<^verbatim>\<open>to_be_bytes\<close> and \<^verbatim>\<open>from_be_bytes\<close>, the 24-bit fields of Diameter, rounding up to a multiple
  of four, and the binary search of Rust's slices.  The lemmas are the round trips and bounds
  the codecs rest on, and that the search agrees with a linear one.
\<close>

unbundle bit_operations_syntax

named_theorems octet_simps \<open>round trips and lengths of fixed-width encodings\<close>

type_synonym u8 = "8 word"
type_synonym u16 = "16 word"
type_synonym u32 = "32 word"
type_synonym u64 = "64 word"
type_synonym octets = "u8 list"

definition octets_of :: "string \<Rightarrow> octets" where
  "octets_of s = map (\<lambda>c. word_of_nat (of_char c)) s"

subsection \<open>Big-endian integers\<close>

definition be_bytes32 :: "u32 \<Rightarrow> octets" where
  "be_bytes32 w = [ucast (drop_bit 24 w), ucast (drop_bit 16 w), ucast (drop_bit 8 w), ucast w]"

definition from_be32 :: "u8 \<Rightarrow> u8 \<Rightarrow> u8 \<Rightarrow> u8 \<Rightarrow> u32" where
  "from_be32 a b c d =
     push_bit 24 (ucast a) OR push_bit 16 (ucast b) OR push_bit 8 (ucast c) OR ucast d"

definition be_bytes24 :: "nat \<Rightarrow> octets" where
  "be_bytes24 n = [word_of_nat (drop_bit 16 n AND 255), word_of_nat (drop_bit 8 n AND 255), word_of_nat (n AND 255)]"

definition from_be24 :: "u8 \<Rightarrow> u8 \<Rightarrow> u8 \<Rightarrow> nat" where
  "from_be24 a b c = push_bit 16 (unat a) OR push_bit 8 (unat b) OR unat c"

definition pad4 :: "nat \<Rightarrow> nat" where
  "pad4 n = (n + 3) div 4 * 4"

lemma length_be_bytes [octet_simps, simp]:
  "length (be_bytes32 w) = 4" "length (be_bytes24 n) = 3"
  by (simp_all add: be_bytes32_def be_bytes24_def)

lemma bit_u8: "\<not> bit (x :: u8) n" if "8 \<le> n"
  using that bit_imp_le_length [of x n] by auto

lemma bit_from_be32:
  "n < 32 \<Longrightarrow> bit (from_be32 a b c d) n \<longleftrightarrow>
     (if n < 8 then bit d n else if n < 16 then bit c (n - 8) else if n < 24 then bit b (n - 16) else bit a (n - 24))"
  by (auto simp: from_be32_def bit_simps bit_u8)

lemma from_be32_be_bytes [octet_simps]:
  assumes "be_bytes32 w = [a, b, c, d]"
  shows "from_be32 a b c d = w"
proof (rule bit_word_eqI)
  fix n assume "n < LENGTH(32)"
  moreover have "a = ucast (drop_bit 24 w)" "b = ucast (drop_bit 16 w)" "c = ucast (drop_bit 8 w)" "d = ucast w"
    using assms by (simp_all add: be_bytes32_def)
  ultimately show "bit (from_be32 a b c d) n = bit w n"
    by (auto simp: bit_from_be32 bit_simps)
qed

lemma be_bytes32_from [octet_simps]: "be_bytes32 (from_be32 a b c d) = [a, b, c, d]"
proof -
  let ?w = "from_be32 a b c d"
  have "ucast (drop_bit 24 ?w) = a" "ucast (drop_bit 16 ?w) = b" "ucast (drop_bit 8 ?w) = c" "ucast ?w = d"
    by (rule bit_word_eqI; simp add: bit_from_be32 bit_simps)+
  then show ?thesis by (simp add: be_bytes32_def)
qed

lemma or_below: "m < 2 ^ k \<Longrightarrow> push_bit k n OR m = n * 2 ^ k + (m::nat)"
proof -
  assume "m < 2 ^ k"
  then have m: "take_bit k m = m" by (simp add: take_bit_nat_eq_self)
  have "\<not> bit (push_bit k n) j \<or> \<not> bit m j" for j
    by (subst m [symmetric]) (auto simp: bit_simps)
  from disjunctive_add [OF this] show ?thesis by (simp add: push_bit_eq_mult)
qed

lemma u8_less: "unat (x :: u8) < 256"
  using unsigned_less [of x, where 'a = nat] by simp

lemma from_be24_sum: "from_be24 a b c = unat a * 65536 + unat b * 256 + unat c"
proof -
  have "push_bit 8 (unat b) OR unat c = unat b * 256 + unat c"
    using or_below [of "unat c" 8 "unat b"] u8_less by simp
  moreover have "unat b * 256 + unat c < 2 ^ 16"
    using u8_less [of b] u8_less [of c] by simp
  ultimately show ?thesis
    using or_below [of "unat b * 256 + unat c" 16 "unat a"] by (simp add: from_be24_def)
qed

lemma from_be24_be_bytes [octet_simps]:
  assumes "n < 2 ^ 24" and "be_bytes24 n = [a, b, c]"
  shows "from_be24 a b c = n"
proof -
  have byte: "unat (word_of_nat (m AND 255) :: u8) = m mod 256" for m
  proof -
    have "m AND 255 = m mod 256"
      using take_bit_eq_mask [of 8 m] by (simp add: mask_eq_exp_minus_1 take_bit_eq_mod)
    then show ?thesis by (simp add: unat_of_nat take_bit_eq_mod)
  qed
  have "unat a = n div 65536" "unat b = n div 256 mod 256" "unat c = n mod 256"
    using assms by (auto simp: be_bytes24_def byte drop_bit_eq_div)
  moreover have "n div 65536 = n div 256 div 256" by (simp flip: div_mult2_eq)
  moreover have "n div 256 = n div 256 div 256 * 256 + n div 256 mod 256" "n = n div 256 * 256 + n mod 256"
    by simp_all
  ultimately show ?thesis unfolding from_be24_sum by linarith
qed

lemma from_be24_less: "from_be24 a b c < 2 ^ 24"
  using u8_less [of a] u8_less [of b] u8_less [of c] by (simp add: from_be24_sum)

lemma pad4_ge: "n \<le> pad4 n" "pad4 n \<le> n + 3"
  by (auto simp: pad4_def)

lemma pad4_mult: "pad4 (4 * k) = 4 * k"
  unfolding pad4_def by presburger

lemma pad4_dvd: "4 dvd pad4 n"
  by (simp add: pad4_def)

subsection \<open>Binary search\<close>

datatype ordering = Less | Equal | Greater

definition compare_to :: "'a::linorder \<Rightarrow> 'a \<Rightarrow> ordering" where
  "compare_to k x = (if x < k then Less else if x = k then Equal else Greater)"

text \<open>
  The loop of \<^verbatim>\<open>slice::binary_search_by\<close>: the candidates are the \<open>sz\<close> elements from \<open>base\<close> on,
  and each round keeps one half.
\<close>

function bsearch_from :: "('a \<Rightarrow> ordering) \<Rightarrow> 'a list \<Rightarrow> nat \<Rightarrow> nat \<Rightarrow> nat" where
  "bsearch_from f xs base sz =
     (if sz \<le> 1 then base
      else let half = sz div 2; mid = base + half
           in bsearch_from f xs (if f (xs ! mid) = Greater then base else mid) (sz - half))"
  by pat_completeness auto
termination by (relation "measure (\<lambda>(f, xs, base, sz). sz)") auto

declare bsearch_from.simps [simp del]

definition binary_search_by :: "('a \<Rightarrow> ordering) \<Rightarrow> 'a list \<Rightarrow> nat option" where
  "binary_search_by f xs =
     (if xs = [] then None
      else let base = bsearch_from f xs 0 (length xs)
           in if f (xs ! base) = Equal then Some base else None)"

lemma bsearch_from_finds:
  assumes "sorted_wrt (<) (map key xs)" and "0 < sz" and "base + sz \<le> length xs"
  shows "let r = bsearch_from (\<lambda>x. compare_to k (key x)) xs base sz
    in r < length xs \<and> (\<forall>j. base \<le> j \<and> j < base + sz \<and> key (xs ! j) = k \<longrightarrow> r = j)"
  using assms(2,3)
proof (induction sz arbitrary: base rule: less_induct)
  case (less sz)
  show ?case
  proof (cases "sz \<le> 1")
    case True
    with less.prems show ?thesis by (subst bsearch_from.simps) auto
  next
    case False
    let ?mid = "base + sz div 2"
    have mid: "?mid < length xs" using False less.prems by linarith
    have before: "key (xs ! i) < key (xs ! j)" if "i < j" "j < length xs" for i j
      using sorted_wrt_nth_less [OF assms(1)] that by simp
    have smaller: "sz - sz div 2 < sz" "0 < sz - sz div 2" using False by auto
    show ?thesis
    proof (cases "k < key (xs ! ?mid)")
      case True
      then have "compare_to k (key (xs ! ?mid)) = Greater" by (auto simp: compare_to_def)
      then have step: "bsearch_from (\<lambda>x. compare_to k (key x)) xs base sz =
          bsearch_from (\<lambda>x. compare_to k (key x)) xs base (sz - sz div 2)"
        using False by (subst bsearch_from.simps) (simp add: Let_def)
      have "j < base + (sz - sz div 2)" if "j < base + sz" "key (xs ! j) = k" for j
      proof -
        have "j < ?mid" using before [of ?mid j] that True less.prems mid by (cases j ?mid rule: linorder_cases) auto
        then show ?thesis by linarith
      qed
      moreover have "base + (sz - sz div 2) \<le> length xs" using less.prems by linarith
      note less.IH [OF smaller this]
      ultimately show ?thesis unfolding step Let_def by blast
    next
      case False
      then have "compare_to k (key (xs ! ?mid)) \<noteq> Greater" by (auto simp: compare_to_def)
      then have step: "bsearch_from (\<lambda>x. compare_to k (key x)) xs base sz =
          bsearch_from (\<lambda>x. compare_to k (key x)) xs ?mid (sz - sz div 2)"
        using \<open>\<not> sz \<le> 1\<close> by (subst bsearch_from.simps) (simp add: Let_def)
      have "?mid \<le> j" if "key (xs ! j) = k" for j
        using before [of j ?mid] that False mid by (cases j ?mid rule: linorder_cases) auto
      moreover have "?mid + (sz - sz div 2) = base + sz" by simp
      with less.prems have "?mid + (sz - sz div 2) \<le> length xs" by simp
      note less.IH [OF smaller this, unfolded \<open>?mid + (sz - sz div 2) = base + sz\<close>]
      ultimately show ?thesis unfolding step Let_def by blast
    qed
  qed
qed

lemma binary_search_find:
  assumes "sorted_wrt (<) (map key xs)"
  shows "map_option (\<lambda>i. xs ! i) (binary_search_by (\<lambda>x. compare_to k (key x)) xs) = find (\<lambda>x. key x = k) xs"
proof (cases "xs = []")
  case False
  let ?r = "bsearch_from (\<lambda>x. compare_to k (key x)) xs 0 (length xs)"
  have r: "?r < length xs" "\<And>j. j < length xs \<Longrightarrow> key (xs ! j) = k \<Longrightarrow> ?r = j"
    using bsearch_from_finds [OF assms, of "length xs" 0 k] False by (auto simp: Let_def)
  show ?thesis
  proof (cases "find (\<lambda>x. key x = k) xs")
    case None
    then have "key (xs ! ?r) \<noteq> k" using r(1) by (simp add: find_None_iff)
    then show ?thesis using None False by (simp add: binary_search_by_def Let_def compare_to_def)
  next
    case (Some x)
    then obtain j where "j < length xs" "key (xs ! j) = k" "x = xs ! j"
      by (auto simp: find_Some_iff)
    with r(2) have "key (xs ! ?r) = k" "x = xs ! ?r" by auto
    then show ?thesis using Some False by (simp add: binary_search_by_def Let_def compare_to_def)
  qed
qed (simp add: binary_search_by_def)

lemma find_key:
  assumes "sorted_wrt (<) (map key xs)"
  shows "find (\<lambda>x. key x = k) xs = Some x \<longleftrightarrow> x \<in> set xs \<and> key x = (k :: 'b :: linorder)"
  using assms
proof (induction xs)
  case (Cons y ys)
  then show ?case by (cases "key y = k") (auto dest: bspec)
qed simp

end
