(* ===== verification/Sip_Dialog.thy ===== *)
theory Sip_Dialog
  imports Sip_Typed_Headers Machine_Words "HOL-Library.AList"
begin

text \<open>
  Dialogs and their store (\<^verbatim>\<open>src/src/dialog/mod.rs\<close>).  The sequence numbers are kept at the width
  of the source, 32 bits, where an increment wraps; the concurrent map of the store is an
  association list.  The lemmas are about the numbers a dialog gives out and accepts, and about
  the store as a map from identifiers to dialogs.
\<close>

subsection \<open>Dialogs\<close>

record dialog_id =
  did_call_id :: string
  local_tag :: string
  remote_tag :: string

definition dialog_id_new :: "string \<Rightarrow> string \<Rightarrow> string \<Rightarrow> dialog_id" where
  "dialog_id_new c l r = \<lparr>did_call_id = c, local_tag = l, remote_tag = r\<rparr>"

definition reversed :: "dialog_id \<Rightarrow> dialog_id" where
  "reversed i = \<lparr>did_call_id = did_call_id i, local_tag = remote_tag i, remote_tag = local_tag i\<rparr>"

definition show_dialog_id :: "dialog_id \<Rightarrow> string" where
  "show_dialog_id i = did_call_id i @ '':'' @ local_tag i @ '':'' @ remote_tag i"

datatype dialog_state = Early | Confirmed | DTerminated

record dialog =
  dlg_id :: dialog_id
  dlg_state :: dialog_state
  local_cseq :: u32
  remote_cseq :: "u32 option"
  route_set :: "route_entry list"
  remote_target :: "sip_uri option"
  local_uri :: "sip_uri option"
  remote_uri :: "sip_uri option"
  created_at :: int
  is_uac :: bool
  pending_reinvite :: bool

definition new_uac ::
  "int \<Rightarrow> string \<Rightarrow> string \<Rightarrow> string \<Rightarrow> u32 \<Rightarrow> route_entry list \<Rightarrow> sip_uri option
     \<Rightarrow> sip_uri option \<Rightarrow> sip_uri option \<Rightarrow> dialog" where
  "new_uac now c l r cseq routes rt lu ru =
     \<lparr>dlg_id = dialog_id_new c l r, dlg_state = Early, local_cseq = cseq, remote_cseq = None,
      route_set = routes, remote_target = rt, local_uri = lu, remote_uri = ru, created_at = now,
      is_uac = True, pending_reinvite = False\<rparr>"

definition new_uas ::
  "int \<Rightarrow> string \<Rightarrow> string \<Rightarrow> string \<Rightarrow> u32 \<Rightarrow> route_entry list \<Rightarrow> sip_uri option
     \<Rightarrow> sip_uri option \<Rightarrow> sip_uri option \<Rightarrow> dialog" where
  "new_uas now c l r cseq routes rt lu ru =
     \<lparr>dlg_id = dialog_id_new c l r, dlg_state = Early, local_cseq = 0, remote_cseq = Some cseq,
      route_set = routes, remote_target = rt, local_uri = lu, remote_uri = ru, created_at = now,
      is_uac = False, pending_reinvite = False\<rparr>"

definition dlg_confirm :: "dialog \<Rightarrow> dialog" where
  "dlg_confirm d = d\<lparr>dlg_state := Confirmed\<rparr>"

definition dlg_terminate :: "dialog \<Rightarrow> dialog" where
  "dlg_terminate d = d\<lparr>dlg_state := DTerminated\<rparr>"

definition next_cseq :: "dialog \<Rightarrow> dialog \<times> u32" where
  "next_cseq d = (d\<lparr>local_cseq := local_cseq d + 1\<rparr>, local_cseq d + 1)"

definition check_remote_cseq :: "dialog \<Rightarrow> u32 \<Rightarrow> dialog \<times> bool" where
  "check_remote_cseq d cseq =
     (case remote_cseq d of
        Some last_seen \<Rightarrow> if cseq \<le> last_seen then (d, False) else (d\<lparr>remote_cseq := Some cseq\<rparr>, True)
      | None \<Rightarrow> (d\<lparr>remote_cseq := Some cseq\<rparr>, True))"

definition update_remote_target :: "dialog \<Rightarrow> sip_uri \<Rightarrow> dialog" where
  "update_remote_target d t = d\<lparr>remote_target := Some t\<rparr>"

definition begin_reinvite :: "dialog \<Rightarrow> dialog \<times> bool" where
  "begin_reinvite d = (if pending_reinvite d then (d, False) else (d\<lparr>pending_reinvite := True\<rparr>, True))"

definition end_reinvite :: "dialog \<Rightarrow> dialog" where
  "end_reinvite d = d\<lparr>pending_reinvite := False\<rparr>"

subsection \<open>The store\<close>

type_synonym dialog_store = "(dialog_id \<times> dialog) list"

definition dlgs_new :: dialog_store where
  "dlgs_new = []"

definition dlgs_insert :: "dialog_store \<Rightarrow> dialog \<Rightarrow> dialog_store" where
  "dlgs_insert s d = AList.update (dlg_id d) d s"

definition dlgs_get :: "dialog_store \<Rightarrow> dialog_id \<Rightarrow> dialog option" where
  "dlgs_get s i = map_of s i"

definition dlgs_contains :: "dialog_store \<Rightarrow> dialog_id \<Rightarrow> bool" where
  "dlgs_contains s i \<longleftrightarrow> map_of s i \<noteq> None"

definition dlgs_remove :: "dialog_store \<Rightarrow> dialog_id \<Rightarrow> dialog_store \<times> dialog option" where
  "dlgs_remove s i = (AList.delete i s, map_of s i)"

definition dlgs_confirm :: "dialog_store \<Rightarrow> dialog_id \<Rightarrow> dialog_store \<times> bool" where
  "dlgs_confirm s i = (case map_of s i of Some d \<Rightarrow> (AList.update i (dlg_confirm d) s, True) | None \<Rightarrow> (s, False))"

definition dlgs_terminate :: "dialog_store \<Rightarrow> dialog_id \<Rightarrow> dialog_store \<times> dialog option" where
  "dlgs_terminate s i =
     (let s1 = (case map_of s i of Some d \<Rightarrow> AList.update i (dlg_terminate d) s | None \<Rightarrow> s)
      in (AList.delete i s1, map_of s1 i))"

definition dlgs_count :: "dialog_store \<Rightarrow> nat" where
  "dlgs_count s = length s"

definition confirmed_count :: "dialog_store \<Rightarrow> nat" where
  "confirmed_count s = length (filter (\<lambda>(_, d). dlg_state d = Confirmed) s)"

definition cleanup_terminated :: "dialog_store \<Rightarrow> dialog_store" where
  "cleanup_terminated s = filter (\<lambda>(_, d). dlg_state d \<noteq> DTerminated) s"

subsection \<open>Sequence numbers\<close>

text \<open>The numbers given out by successive calls, and those accepted of a sequence of arrivals.\<close>

fun cseqs_given :: "nat \<Rightarrow> dialog \<Rightarrow> u32 list" where
  "cseqs_given 0 d = []"
| "cseqs_given (Suc n) d = (let (d', c) = next_cseq d in c # cseqs_given n d')"

fun cseqs_accepted :: "dialog \<Rightarrow> u32 list \<Rightarrow> dialog \<times> u32 list" where
  "cseqs_accepted d [] = (d, [])"
| "cseqs_accepted d (c # cs) =
     (let (d', ok) = check_remote_cseq d c; (d'', as) = cseqs_accepted d' cs
      in (d'', if ok then c # as else as))"

lemma cseqs_given_eq: "cseqs_given n d = map (\<lambda>i. local_cseq d + of_nat (Suc i)) [0..<n]"
proof (induction n arbitrary: d)
  case (Suc n)
  have "cseqs_given (Suc n) d = (local_cseq d + 1) # map (\<lambda>i. local_cseq d + 1 + of_nat (Suc i)) [0..<n]"
    using Suc.IH by (simp add: next_cseq_def)
  also have "\<dots> = map (\<lambda>i. local_cseq d + of_nat (Suc i)) (0 # map Suc [0..<n])"
    by (simp add: algebra_simps)
  also have "0 # map Suc [0..<n] = [0..<Suc n]" by (simp add: map_Suc_upt upt_conv_Cons)
  finally show ?case .
qed simp

text \<open>
  The sequence numbers a dialog gives out are consecutive, and as long as they stay below
  2^32 they are strictly increasing as numbers; the one after 2^32 - 1 is 0.
\<close>

theorem next_cseq_bounds:
  assumes "unat (local_cseq d) + n < 2 ^ 32"
  shows "map unat (cseqs_given n d) = [Suc (unat (local_cseq d))..<Suc (unat (local_cseq d) + n)]
    \<and> (local_cseq e = 2 ^ 32 - 1 \<longrightarrow> cseqs_given 1 e = [0])"
proof -
  have "unat (local_cseq d + of_nat (Suc i)) = unat (local_cseq d) + Suc i" if "i < n" for i
    using that assms by (simp add: unat_word_ariths unat_of_nat take_bit_eq_mod)
  then have "map unat (cseqs_given n d) = map (\<lambda>i. unat (local_cseq d) + Suc i) [0..<n]"
    by (simp add: cseqs_given_eq)
  also have "\<dots> = [Suc (unat (local_cseq d))..<Suc (unat (local_cseq d) + n)]"
    by (rule nth_equalityI) (simp_all del: upt_Suc)
  finally show ?thesis by (simp add: cseqs_given_eq)
qed

theorem next_cseq_bounds_witness:
  "map unat (cseqs_given 3 (new_uac 0 ''c'' ''l'' ''r'' 7 [] None None None)) = [8, 9, 10]"
proof -
  let ?d = "new_uac 0 ''c'' ''l'' ''r'' 7 [] None None None"
  have "unat (local_cseq ?d) = 7" by (simp add: new_uac_def)
  with next_cseq_bounds [of ?d 3 ?d] show ?thesis by (simp add: upt_rec)
qed

lemma check_accepts:
  "check_remote_cseq d c = (d', ok) \<Longrightarrow>
     (ok \<longleftrightarrow> (\<forall>l. remote_cseq d = Some l \<longrightarrow> l < c)) \<and> (remote_cseq d' = (if ok then Some c else remote_cseq d))"
  by (auto simp: check_remote_cseq_def not_le split: option.splits if_splits)

lemma cseqs_accepted_inv:
  assumes "cseqs_accepted d cs = (d', as)"
  shows "sorted_wrt (<) as \<and> (\<forall>l a. remote_cseq d = Some l \<and> a \<in> set as \<longrightarrow> l < a)
    \<and> remote_cseq d' = (if as = [] then remote_cseq d else Some (last as))
    \<and> (\<forall>c \<in> set cs. \<exists>l. remote_cseq d' = Some l \<and> c \<le> l) \<and> set as \<subseteq> set cs"
  using assms
proof (induction cs arbitrary: d as)
  case (Cons c cs)
  obtain d1 ok bs where step: "check_remote_cseq d c = (d1, ok)" "cseqs_accepted d1 cs = (d', bs)"
    "as = (if ok then c # bs else bs)"
    using Cons.prems by (auto split: prod.splits)
  note ih = Cons.IH [OF step(2)] and check = check_accepts [OF step(1)]
  have seen: "\<exists>l. remote_cseq d1 = Some l \<and> c \<le> l"
    using check by (cases ok) (auto simp: not_less)
  have "\<exists>l. remote_cseq d' = Some l \<and> c \<le> l"
  proof (cases "bs = []")
    case True
    with ih seen show ?thesis by auto
  next
    case False
    with ih have "remote_cseq d' = Some (last bs)" "last bs \<in> set bs" by auto
    moreover obtain l where "remote_cseq d1 = Some l" "c \<le> l" using seen by blast
    ultimately show ?thesis using ih by (meson less_imp_le order_trans)
  qed
  then have "\<forall>e \<in> set (c # cs). \<exists>l. remote_cseq d' = Some l \<and> e \<le> l" using ih unfolding set_simps by blast
  moreover have "sorted_wrt (<) as \<and> (\<forall>l a. remote_cseq d = Some l \<and> a \<in> set as \<longrightarrow> l < a)
    \<and> remote_cseq d' = (if as = [] then remote_cseq d else Some (last as)) \<and> set as \<subseteq> set (c # cs)"
  proof (cases ok)
    case True
    with check have rc: "remote_cseq d1 = Some c" "\<forall>l. remote_cseq d = Some l \<longrightarrow> l < c" by auto
    with ih have "\<forall>a \<in> set bs. c < a" by simp
    with ih rc True step(3) show ?thesis by (auto intro: less_trans)
  next
    case False
    with check ih step(3) show ?thesis by auto
  qed
  ultimately show ?case by blast
qed simp

text \<open>
  C31. In-dialog requests are taken in order: of any sequence of arriving numbers the accepted ones
  are strictly increasing and above the number the dialog started from, so none is accepted
  twice; the number kept is at least every number that arrived.
\<close>

theorem remote_cseq_order:
  assumes "cseqs_accepted d cs = (d', as)"
  shows "sorted_wrt (<) as \<and> distinct as \<and> (\<forall>l a. remote_cseq d = Some l \<and> a \<in> set as \<longrightarrow> l < a)
    \<and> (\<forall>c \<in> set cs. \<exists>l. remote_cseq d' = Some l \<and> c \<le> l)"
  using cseqs_accepted_inv [OF assms] strict_sorted_iff [of as] by blast

theorem remote_cseq_order_witness:
  "snd (cseqs_accepted (new_uas 0 ''c'' ''l'' ''r'' 5 [] None None None) [6, 6, 4, 9]) = [6, 9]
   \<and> distinct (snd (cseqs_accepted (new_uas 0 ''c'' ''l'' ''r'' 5 [] None None None) [6, 6, 4, 9]))"
  using remote_cseq_order [of "new_uas 0 ''c'' ''l'' ''r'' 5 [] None None None" "[6, 6, 4, 9]"
      "fst (cseqs_accepted (new_uas 0 ''c'' ''l'' ''r'' 5 [] None None None) [6, 6, 4, 9])"
      "snd (cseqs_accepted (new_uas 0 ''c'' ''l'' ''r'' 5 [] None None None) [6, 6, 4, 9])"]
  by (simp add: check_remote_cseq_def new_uas_def)

subsection \<open>The store as a map\<close>

definition dlgs_put :: "dialog_id \<Rightarrow> dialog \<Rightarrow> dialog_store \<Rightarrow> dialog_store" where
  "dlgs_put i d s = AList.update i d s"

definition dlgs_drop :: "dialog_id \<Rightarrow> dialog_store \<Rightarrow> dialog_store" where
  "dlgs_drop i s = fst (dlgs_remove s i)"

interpretation dlgs: keyed_store dlgs_get dlgs_put dlgs_drop "\<lambda>s. distinct (map fst s)" dlgs_count
proof unfold_locales
  have get: "dlgs_get s = map_of s" for s by (simp add: fun_eq_iff dlgs_get_def)
  show "distinct (map fst s) \<Longrightarrow> finite (dom (dlgs_get s)) \<and> dlgs_count s = card (dom (dlgs_get s))" for s
    unfolding get dlgs_count_def by (rule alist_count)
qed (simp_all add: dlgs_get_def dlgs_put_def dlgs_drop_def dlgs_remove_def fun_eq_iff update_conv delete_conv
    distinct_update distinct_delete)

text \<open>
  The life of a dialog leaves no trace in the store: one that is inserted under a new
  identifier, confirmed and terminated is handed back in its final state, the store answers as
  before for every identifier, its size is as before, and in between it is found under its
  identifier and counted.
\<close>

theorem dialog_lifecycle:
  assumes "distinct (map fst s)" and "dlgs_get s (dlg_id d) = None"
    and "s1 = dlgs_insert s d" and "dlgs_confirm s1 (dlg_id d) = (s2, ok)"
    and "dlgs_terminate s2 (dlg_id d) = (s3, r)"
  shows "dlgs_get s1 (dlg_id d) = Some d \<and> dlgs_count s1 = Suc (dlgs_count s) \<and> ok
    \<and> dlgs_get s2 (dlg_id d) = Some (dlg_confirm d) \<and> dlgs_count s2 = dlgs_count s1
    \<and> r = Some (dlg_terminate (dlg_confirm d))
    \<and> dlgs_get s3 = dlgs_get s \<and> dlgs_count s3 = dlgs_count s \<and> distinct (map fst s3)"
proof -
  let ?i = "dlg_id d"
  have s1: "s1 = dlgs_put ?i d s" using assms(3) by (simp add: dlgs_insert_def dlgs_put_def)
  have g1: "dlgs_get s1 ?i = Some d" by (simp add: s1 dlgs.get_put)
  then have s2: "s2 = dlgs_put ?i (dlg_confirm d) s1" "ok"
    using assms(4) by (auto simp: dlgs_confirm_def dlgs_get_def dlgs_put_def)
  have g2: "dlgs_get s2 ?i = Some (dlg_confirm d)" by (simp add: s2 dlgs.get_put)
  then have s3: "s3 = dlgs_drop ?i (dlgs_put ?i (dlg_terminate (dlg_confirm d)) s2)"
    "r = Some (dlg_terminate (dlg_confirm d))"
    using assms(5) by (auto simp: dlgs_terminate_def Let_def dlgs_get_def dlgs_put_def dlgs_drop_def dlgs_remove_def update_conv)
  have wf: "distinct (map fst s1)" "distinct (map fst s2)" unfolding s1 s2 by (intro dlgs.wf_put assms(1))+
  have "dlgs_get s3 = dlgs_get s"
    using assms(2) by (simp add: s3 s2 s1 dlgs.get_put dlgs.get_del fun_eq_iff)
  moreover have "dlgs_count s1 = Suc (dlgs_count s)" "dlgs_count s2 = dlgs_count s1"
    using assms(1,2) wf g1 by (simp_all add: s1 s2(1) dlgs.count_put)
  moreover have "dlgs_count s3 = dlgs_count s"
    using calculation wf g2 unfolding s3
    by (simp add: dlgs.count_del dlgs.count_put dlgs.wf_put dlgs.get_put)
  moreover have "distinct (map fst s3)" unfolding s3 by (intro dlgs.wf_del dlgs.wf_put wf)
  ultimately show ?thesis using g1 g2 s2(2) s3(2) by simp
qed

theorem dialog_lifecycle_witness:
  "dlgs_get (fst (dlgs_terminate (fst (dlgs_confirm (dlgs_insert dlgs_new
       (new_uac 0 ''c'' ''l'' ''r'' 1 [] None None None)) (dialog_id_new ''c'' ''l'' ''r'')))
     (dialog_id_new ''c'' ''l'' ''r''))) = dlgs_get dlgs_new"
proof -
  let ?d = "new_uac 0 ''c'' ''l'' ''r'' 1 [] None None None"
  have i: "dlg_id ?d = dialog_id_new ''c'' ''l'' ''r''" by (simp add: new_uac_def)
  from dialog_lifecycle [of dlgs_new ?d "dlgs_insert dlgs_new ?d"] show ?thesis
    unfolding i by (simp add: dlgs_new_def dlgs_get_def prod_eq_iff)
qed

end
