(* ===== verification/Sip_Roundtrips.thy ===== *)
theory Sip_Roundtrips
  imports Sip_Typed_Headers
begin

text \<open>
  Printing and parsing are inverse on the typed headers: a CSeq and a Via that are printed parse
  back to themselves.  The conditions say which values the printed form can carry.
\<close>

subsection \<open>Pieces of a printed value\<close>

lemma split_on_prefixed:
  "list_all (\<lambda>p. d \<notin> set p) ps \<Longrightarrow> split_on d (concat (map (\<lambda>p. d # p) ps)) = [] # ps"
proof (induction ps)
  case (Cons p ps)
  show ?case
  proof (cases ps)
    case Nil
    with Cons.prems show ?thesis by (simp add: split_on_no_sep)
  next
    case (Cons q qs)
    with Cons.IH Cons.prems have ih: "split_on d (concat (map (\<lambda>p. d # p) ps)) = [] # ps" by simp
    obtain r where r: "concat (map (\<lambda>p. d # p) ps) = d # r" using Cons by simp
    with ih have "split_on d r = ps" by simp
    with r Cons.prems show ?thesis by (simp add: split_on_append)
  qed
qed simp

lemma takeWhile_append_stop: "\<forall>c \<in> set a. P c \<Longrightarrow> \<not> P d \<Longrightarrow> takeWhile P (a @ d # b) = a"
  by (simp add: takeWhile_append)

lemma dropWhile_append_stop: "\<forall>c \<in> set a. P c \<Longrightarrow> \<not> P d \<Longrightarrow> dropWhile P (a @ d # b) = d # b"
  by (simp add: dropWhile_append)

lemma split_once_by_append: "\<forall>c \<in> set a. \<not> p c \<Longrightarrow> p d \<Longrightarrow> split_once_by p (a @ d # b) = Some (a, b)"
  by (auto simp: split_once_by_Some)

definition no_ws :: "string \<Rightarrow> bool" where
  "no_ws s = list_all (\<lambda>c. \<not> is_ws c) s"

lemma no_ws_trim [simp]: "no_ws s \<Longrightarrow> trim s = s"
  by (rule trim_id) (auto simp: no_ws_def trimmed_def list_all_iff)

lemma ascii_ws_ws: "is_ascii_ws c \<Longrightarrow> is_ws c"
  by (auto simp: is_ws_def is_ascii_ws_def in_range_def)

lemma no_ws_ascii: "no_ws s \<Longrightarrow> c \<in> set s \<Longrightarrow> \<not> is_ascii_ws c"
  by (auto simp: no_ws_def list_all_iff dest: ascii_ws_ws)

lemma no_ws_show_nat [simp]: "no_ws (show_nat n)"
  unfolding no_ws_def list_all_iff using digits_no_ws [OF show_nat_digits [of n]] by blast

lemma no_ws_simps [simp]:
  "no_ws []" "no_ws (c # s) \<longleftrightarrow> \<not> is_ws c \<and> no_ws s" "no_ws (s @ t) \<longleftrightarrow> no_ws s \<and> no_ws t"
  by (auto simp: no_ws_def)

subsection \<open>CSeq\<close>

text \<open>The extension methods that are their own upper-case form and are no known method.\<close>

definition method_wf :: "sip_method \<Rightarrow> bool" where
  "method_wf m \<longleftrightarrow> method_from_str (method_as_str m) = m \<and> no_ws (method_as_str m) \<and> method_as_str m \<noteq> []"

lemma cseq_parse_show:
  assumes "sequence c \<le> u32_max" and "method_wf (cseq_method c)"
  shows "cseq_parse (show_cseq c) = Inr c"
proof -
  let ?m = "method_as_str (cseq_method c)"
  have tr: "trim (show_cseq c) = show_cseq c"
  proof (rule trim_id)
    have "show_nat (sequence c) \<noteq> []" "\<not> is_ws (hd (show_nat (sequence c)))"
      using show_nat_digits [of "sequence c"] trimmed_show_nat [of "sequence c"]
      by (auto simp: trimmed_def)
    moreover have "?m \<noteq> []" "\<not> is_ws (last ?m)"
      using assms(2) by (auto simp: method_wf_def no_ws_def list_all_iff)
    ultimately show "trimmed (show_cseq c)" by (simp add: trimmed_def show_cseq_def)
  qed
  have "split_once_by is_ascii_ws (show_cseq c) = Some (show_nat (sequence c), ?m)"
    unfolding show_cseq_def append_Cons append_Nil
  proof (rule split_once_by_append)
    show "\<forall>c' \<in> set (show_nat (sequence c)). \<not> is_ascii_ws c'" by (blast dest: no_ws_ascii [OF no_ws_show_nat])
    show "is_ascii_ws SP" by (simp add: is_ascii_ws_def)
  qed
  then show ?thesis
    using assms by (simp add: cseq_parse_def tr method_wf_def parse_uint_show_nat)
qed

subsection \<open>Via\<close>

definition param_text :: "param \<Rightarrow> string" where
  "param_text = (\<lambda>(n, v). n @ show_eq_value v)"

definition param_wf :: "param \<Rightarrow> bool" where
  "param_wf = (\<lambda>(n, v). n \<noteq> [] \<and> trimmed n \<and> to_lower n = n \<and> CHR ''='' \<notin> set n \<and> CHR '';'' \<notin> set n
     \<and> (\<forall>s. v = Some s \<longrightarrow> trimmed s \<and> CHR '';'' \<notin> set s))"

lemma show_params_text: "show_params ps = concat (map (\<lambda>p. CHR '';'' # p) (map param_text ps))"
  by (induction ps) (auto simp: show_params_def param_text_def)

lemma lower_param_text: "param_wf p \<Longrightarrow> lower_param (param_text p) = p"
proof -
  assume wf: "param_wf p"
  obtain n v where p: "p = (n, v)" by (cases p)
  show ?thesis
  proof (cases v)
    case None
    have "split_once CHR ''='' n = None" using wf p by (auto simp: split_once_by_None param_wf_def)
    with None wf p show ?thesis
      by (simp add: param_wf_def param_text_def show_eq_value_def lower_param_def trim_id)
  next
    case (Some s)
    have "split_once CHR ''='' (n @ CHR ''='' # s) = Some (n, s)"
      using wf p by (intro split_once_by_append) (auto simp: param_wf_def)
    with wf p Some show ?thesis
      by (simp add: param_wf_def param_text_def show_eq_value_def lower_param_def trim_id)
  qed
qed

lemma param_text_nonblank: "param_wf p \<Longrightarrow> nonblank (param_text p)"
proof -
  assume wf: "param_wf p"
  obtain n v where p: "p = (n, v)" by (cases p)
  have n: "n \<noteq> []" "\<not> is_ws (hd n)" using wf p by (auto simp: param_wf_def trimmed_def)
  then have "trim_start (param_text p) = param_text p"
    using p by (intro trim_start_id) (simp add: param_text_def)
  moreover have "trim_end (n @ w) \<noteq> []" for w
    using n unfolding trim_end_def by (auto simp: dropWhile_eq_Nil_conv)
  ultimately show ?thesis using p by (simp add: nonblank_def trim_def param_text_def)
qed

lemma param_text_no_semi: "param_wf p \<Longrightarrow> CHR '';'' \<notin> set (param_text p)"
  by (auto simp: param_wf_def param_text_def show_eq_value_def split: option.splits)

text \<open>The parameters of a Via in the order they are printed.\<close>

definition via_all_params :: "via \<Rightarrow> param list" where
  "via_all_params v =
     (case via_branch v of Some b \<Rightarrow> [(''branch'', Some b)] | None \<Rightarrow> [])
     @ (case via_received v of Some r \<Rightarrow> [(''received'', Some r)] | None \<Rightarrow> [])
     @ (case via_rport v of Some (Some p) \<Rightarrow> [(''rport'', Some (show_nat p))] | Some None \<Rightarrow> [(''rport'', None)] | None \<Rightarrow> [])
     @ via_other_params v"

definition via_host_wf :: "string \<Rightarrow> nat option \<Rightarrow> bool" where
  "via_host_wf host port \<longleftrightarrow>
     host \<noteq> [] \<and> no_ws host \<and> CHR '';'' \<notin> set host
     \<and> (if hd host = CHR ''['' then \<exists>h. host = h @ '']'' \<and> CHR '']'' \<notin> set h
        else port = None \<longrightarrow> CHR '':'' \<notin> set host)"

definition via_wf :: "via \<Rightarrow> bool" where
  "via_wf v \<longleftrightarrow>
     no_ws (via_transport v) \<and> to_upper (via_transport v) = via_transport v
     \<and> via_host_wf (via_host v) (via_port v)
     \<and> (\<forall>p. via_port v = Some p \<longrightarrow> p \<le> u16_max)
     \<and> (\<forall>p. via_rport v = Some (Some p) \<longrightarrow> p \<le> u16_max)
     \<and> list_all param_wf (via_all_params v)
     \<and> list_all (\<lambda>(n, _). n \<notin> {''branch'', ''received'', ''rport''}) (via_other_params v)"

lemma show_via_text:
  "show_via v = ''SIP/2.0/'' @ via_transport v @ SP # via_host v @ show_port (via_port v)
     @ concat (map (\<lambda>p. CHR '';'' # p) (map param_text (via_all_params v)))"
  by (simp add: show_via_def via_all_params_def show_params_text param_text_def show_eq_value_def
      split: option.splits)

lemma via_params_others:
  "list_all param_wf ps \<Longrightarrow> list_all (\<lambda>(n, _). n \<notin> {''branch'', ''received'', ''rport''}) ps \<Longrightarrow>
     via_params v (map param_text ps) = Inr (v\<lparr>via_other_params := via_other_params v @ ps\<rparr>)"
proof (induction ps arbitrary: v)
  case (Cons p ps)
  then show ?case by (auto simp: lower_param_text via_param_def Let_def split: prod.splits)
qed simp

lemma via_params_append:
  "via_params v (ps @ qs) = (case via_params v ps of Inl e \<Rightarrow> Inl e | Inr w \<Rightarrow> via_params w qs)"
  by (induction ps arbitrary: v) (auto split: sum.splits)

lemma via_params_all:
  assumes "via_wf v" and "via_branch w = None" "via_received w = None" "via_rport w = None" "via_other_params w = []"
  shows "via_params w (map param_text (via_all_params v)) =
    Inr (w\<lparr>via_branch := via_branch v, via_received := via_received v, via_rport := via_rport v,
          via_other_params := via_other_params v\<rparr>)"
proof -
  have others: "via_params u (map param_text (via_other_params v)) =
      Inr (u\<lparr>via_other_params := via_other_params u @ via_other_params v\<rparr>)" for u
    using assms(1) by (intro via_params_others) (simp_all add: via_wf_def via_all_params_def)
  have lower: "lower_param (param_text p) = p" if "p \<in> set (via_all_params v)" for p
    using assms(1) that by (intro lower_param_text) (simp add: via_wf_def list_all_iff)
  have port: "parse_uint u16_max (show_nat p) = Some p" if "via_rport v = Some (Some p)" for p
    using assms(1) that by (simp add: via_wf_def parse_uint_show_nat)
  show ?thesis
    using lower port assms(2-) others unfolding via_all_params_def
    by (cases "via_branch v"; cases "via_received v"; cases "via_rport v"; cases "the (via_rport v)")
      (simp_all add: via_param_def)
qed

lemma via_sent_by_show:
  assumes "via_host_wf host port" and "\<forall>p. port = Some p \<longrightarrow> p \<le> u16_max"
  shows "via_sent_by (host @ show_port port) = Inr (host, port)"
proof (cases "hd host = CHR ''[''")
  case True
  then obtain h where h: "host = h @ '']''" "CHR '']'' \<notin> set h" "host \<noteq> []"
    using assms(1) by (auto simp: via_host_wf_def)
  have br: "starts_with ''['' (host @ show_port port)"
    using True h(3) by (cases host) (simp_all add: starts_with_def)
  have "split_once CHR '']'' (h @ CHR '']'' # show_port port) = Some (h, show_port port)"
    using h(2) by (intro split_once_by_append) auto
  then have once: "split_once CHR '']'' (host @ show_port port) = Some (h, show_port port)"
    using h(1) by simp
  show ?thesis
  proof (cases port)
    case None
    with br once h show ?thesis by (simp add: via_sent_by_def show_port_def)
  next
    case (Some p)
    with br once h assms(2) show ?thesis by (simp add: via_sent_by_def show_port_def parse_uint_show_nat)
  qed
next
  case False
  have host: "host \<noteq> []" "port = None \<longrightarrow> CHR '':'' \<notin> set host"
    using assms(1) False by (auto simp: via_host_wf_def)
  with False have br: "\<not> starts_with ''['' (host @ show_port port)"
    by (cases host) (auto simp: starts_with_def)
  show ?thesis
  proof (cases port)
    case None
    with host(2) have "split_once CHR '':'' (rev host) = None" by (auto simp: split_once_by_None)
    with None br show ?thesis by (simp add: via_sent_by_def show_port_def rsplit_once_def)
  next
    case (Some p)
    have "CHR '':'' \<notin> set (show_nat p)"
      using show_nat_digits [of p] by (auto simp: list_all_iff is_digit_def in_range_def)
    then have "split_once CHR '':'' (rev (show_nat p) @ CHR '':'' # rev host) = Some (rev (show_nat p), rev host)"
      by (intro split_once_by_append) auto
    then have "rsplit_once CHR '':'' (host @ show_port port) = Some (host, show_nat p)"
      using Some by (simp add: rsplit_once_def show_port_def)
    with Some br assms(2) show ?thesis by (simp add: via_sent_by_def parse_uint_show_nat)
  qed
qed

lemma show_port_chars: "no_ws (show_port p) \<and> CHR '';'' \<notin> set (show_port p)"
proof (cases p)
  case (Some n)
  have "CHR '';'' \<notin> set (show_nat n)"
    using show_nat_digits [of n] by (auto simp: list_all_iff is_digit_def in_range_def)
  with Some show ?thesis by (simp add: show_port_def is_ws_def in_range_def)
qed (simp add: show_port_def)

lemma trimmed_last_param:
  assumes "list_all param_wf ps" and "ps \<noteq> []"
  shows "\<not> is_ws (last (concat (map (\<lambda>p. CHR '';'' # p) (map param_text ps))))"
proof -
  obtain qs p where ps: "ps = qs @ [p]" using assms(2) by (cases ps rule: rev_cases) auto
  obtain n v where p: "p = (n, v)" by (cases p)
  have wf: "param_wf (n, v)" using assms(1) ps p by simp
  have "param_text p \<noteq> []" using wf p by (auto simp: param_wf_def param_text_def)
  moreover have "\<not> is_ws (last (param_text p))"
    using wf p by (auto simp: param_wf_def param_text_def show_eq_value_def trimmed_def is_ws_def in_range_def
        split: option.splits)
  ultimately show ?thesis by (simp add: ps)
qed

text \<open>The sent-by of a well-formed Via is a non-empty text without white space or \<^verbatim>\<open>;\<close>.\<close>

lemma via_sent_chars:
  assumes "via_wf v"
  shows "no_ws (via_host v @ show_port (via_port v))" and "CHR '';'' \<notin> set (via_host v @ show_port (via_port v))"
    and "via_host v @ show_port (via_port v) \<noteq> []"
  using assms show_port_chars [of "via_port v"] by (auto simp: via_wf_def via_host_wf_def)

lemma via_shown_trimmed:
  assumes "via_wf v"
  shows "trimmed (show_via v) \<and> show_via v \<noteq> []"
proof -
  let ?params = "concat (map (\<lambda>p. CHR '';'' # p) (map param_text (via_all_params v)))"
  let ?sent = "via_host v @ show_port (via_port v)"
  note sent = via_sent_chars [OF assms]
  have wf: "list_all param_wf (via_all_params v)" using assms by (simp add: via_wf_def)
  have last: "\<not> is_ws (last (?sent @ ?params))"
  proof (cases "via_all_params v = []")
    case True
    have "last ?sent \<in> set ?sent" using sent(3) by (rule last_in_set)
    with sent(1) have "\<not> is_ws (last ?sent)" unfolding no_ws_def list_all_iff by blast
    then show ?thesis by (simp only: True list.map concat.simps append_Nil2 not_False_eq_True)
  next
    case False
    then have "?params \<noteq> []" by (cases "via_all_params v") auto
    with trimmed_last_param [OF wf False] show ?thesis by (simp only: last_append if_False not_False_eq_True)
  qed
  have "trimmed (''SIP/2.0/'' @ t @ SP # r)" if "r \<noteq> []" "\<not> is_ws (last r)" for t r
    using that by (simp add: trimmed_def is_ws_def in_range_def)
  from this [OF _ last] sent(3) have "trimmed (''SIP/2.0/'' @ via_transport v @ SP # ?sent @ ?params)" by blast
  then have "trimmed (show_via v)" by (simp only: show_via_text append_assoc)
  then show ?thesis by (simp add: show_via_def)
qed

lemma via_parse_show:
  assumes "via_wf v"
  shows "via_parse (show_via v) = Inr v"
proof -
  let ?ps = "map param_text (via_all_params v)"
  let ?params = "concat (map (\<lambda>p. CHR '';'' # p) ?ps)"
  let ?sent = "via_host v @ show_port (via_port v)"
  have host: "via_host_wf (via_host v) (via_port v)" and tr: "no_ws (via_transport v)"
    and wf: "list_all param_wf (via_all_params v)"
    using assms by (auto simp: via_wf_def)
  note sent = via_sent_chars [OF assms]
  have shown: "show_via v = ''SIP/2.0/'' @ via_transport v @ SP # ?sent @ ?params"
    by (simp add: show_via_text)
  have "trimmed (show_via v)" using via_shown_trimmed [OF assms] ..
  then have trim: "trim (show_via v) = ''SIP/2.0/'' @ via_transport v @ SP # ?sent @ ?params"
    by (simp only: trim_id shown)
  have once: "split_once_by is_ascii_ws (via_transport v @ SP # ?sent @ ?params) = Some (via_transport v, ?sent @ ?params)"
    using no_ws_ascii [OF tr] by (intro split_once_by_append) (auto simp: is_ascii_ws_def)
  have start: "trim_start (?sent @ ?params) = ?sent @ ?params"
    using sent by (intro trim_start_id) (auto simp: no_ws_def list_all_iff hd_append)
  have parts: "takeWhile (\<lambda>c. c \<noteq> CHR '';'') (?sent @ ?params) = ?sent"
    "dropWhile (\<lambda>c. c \<noteq> CHR '';'') (?sent @ ?params) = ?params"
    using sent(2) by (cases "via_all_params v"; fastforce simp: takeWhile_append dropWhile_append)+
  have pieces: "filter nonblank (split_on CHR '';'' ?params) = ?ps"
  proof -
    have "split_on CHR '';'' ?params = [] # ?ps"
      using wf by (intro split_on_prefixed) (auto simp: list_all_iff dest: param_text_no_semi)
    moreover have "filter nonblank ?ps = ?ps"
      using wf by (intro filter_True) (auto simp: list_all_iff dest: param_text_nonblank)
    moreover have "\<not> nonblank []" by (simp add: nonblank_def trim_def trim_start_def trim_end_def)
    ultimately show ?thesis by simp
  qed
  have sent_by: "via_sent_by ?sent = Inr (via_host v, via_port v)"
    using assms host by (intro via_sent_by_show) (simp_all add: via_wf_def)
  show ?thesis
    unfolding via_parse_def trim strip_prefix_append option.case once prod.case Let_def start parts
      no_ws_trim [OF sent(1)] sent_by sum.case pieces
    using assms by (simp add: via_params_all via_wf_def)
qed

subsection \<open>Comma-separated values\<close>

lemma split_comma_join:
  assumes "list_all (\<lambda>x. x \<noteq> [] \<and> trimmed x \<and> CHR '','' \<notin> set x) xs"
  shows "split_comma_values (join '', '' xs) = xs"
proof -
  have pieces: "map trim (split_on CHR '','' (join '', '' (x # ys))) = x # ys \<and>
      map trim (split_on CHR '','' (SP # join '', '' (x # ys))) = x # ys"
    if "list_all (\<lambda>x. x \<noteq> [] \<and> trimmed x \<and> CHR '','' \<notin> set x) (x # ys)" for x ys
    using that
  proof (induction ys arbitrary: x)
    case Nil
    have "trim (SP # x) = trim x" by (simp add: trim_def trim_start_def is_ws_def)
    with Nil show ?case by (simp add: split_on_no_sep trim_id)
  next
    case (Cons y ys)
    have "trim (SP # x) = x" using Cons.prems trim_id [of x] by (simp add: trim_def trim_start_def is_ws_def)
    moreover have "split_on CHR '','' (w @ '', '' @ join '', '' (y # ys)) = w # split_on CHR '','' (SP # join '', '' (y # ys))"
      if "CHR '','' \<notin> set w" for w
      using split_on_append [OF that, of "SP # join '', '' (y # ys)"] by simp
    note this [of x] this [of "SP # x"]
    ultimately show ?case using Cons.IH [of y] Cons.prems by (simp add: trim_id)
  qed
  show ?thesis
  proof (cases xs)
    case Nil
    then show ?thesis by (simp add: split_comma_values_def trim_def trim_start_def trim_end_def)
  next
    case (Cons x ys)
    with pieces [of x ys] assms have "map trim (split_on CHR '','' (join '', '' xs)) = xs" by simp
    moreover have "filter (\<lambda>s. s \<noteq> []) xs = xs" using assms by (intro filter_True) (auto simp: list_all_iff)
    ultimately show ?thesis by (simp add: split_comma_values_def)
  qed
qed

lemma parse_each_show: "\<forall>x \<in> set xs. p (f x) = Inr x \<Longrightarrow> parse_each p (map f xs) = Inr xs"
  by (induction xs) auto

text \<open>
  C26. Printing and parsing are inverse on CSeq and Via: a CSeq with a 32-bit number, and any
  non-empty list of Via values joined with commas, parse back to exactly what was printed.
\<close>

theorem header_roundtrips:
  "(\<forall>c. sequence c \<le> u32_max \<and> method_wf (cseq_method c) \<longrightarrow> cseq_parse (show_cseq c) = Inr c)
   \<and> (\<forall>vs. vs \<noteq> [] \<and> list_all (\<lambda>v. via_wf v \<and> CHR '','' \<notin> set (show_via v)) vs \<longrightarrow>
        via_parse_multi (join '', '' (map show_via vs)) = Inr vs)"
proof (intro conjI allI impI)
  fix vs assume vs: "vs \<noteq> [] \<and> list_all (\<lambda>v. via_wf v \<and> CHR '','' \<notin> set (show_via v)) vs"
  then have "split_comma_values (join '', '' (map show_via vs)) = map show_via vs"
    by (intro split_comma_join) (auto simp: list_all_iff dest: via_shown_trimmed)
  moreover have "parse_each via_parse (map show_via vs) = Inr vs"
    using vs by (intro parse_each_show) (auto simp: list_all_iff via_parse_show)
  ultimately show "via_parse_multi (join '', '' (map show_via vs)) = Inr vs"
    using vs by (cases vs) (simp_all add: via_parse_multi_def)
qed (simp add: cseq_parse_show)

definition example_via :: via where
  "example_via = \<lparr>via_transport = ''UDP'', via_host = ''p.example'', via_port = Some 5060, via_branch = Some ''z9hG4bK-1'',
     via_received = None, via_rport = Some None, via_other_params = [(''alias'', None)]\<rparr>"

theorem header_roundtrips_witness:
  "cseq_parse (show_cseq \<lparr>sequence = 7, cseq_method = Invite\<rparr>) = Inr \<lparr>sequence = 7, cseq_method = Invite\<rparr>
   \<and> via_parse_multi (join '', '' (map show_via [example_via, example_via])) = Inr [example_via, example_via]"
proof -
  have "method_wf Invite" unfolding method_wf_def by code_simp
  moreover have "via_wf example_via"
    by (simp add: via_wf_def example_via_def via_host_wf_def via_all_params_def param_wf_def trimmed_def
        is_ws_def in_range_def lower_char_def upper_char_def is_upper_def is_lower_def)
  moreover have "CHR '','' \<notin> set (show_via example_via)" by code_simp
  ultimately show ?thesis
    using header_roundtrips [THEN conjunct1, rule_format, of "\<lparr>sequence = 7, cseq_method = Invite\<rparr>"]
      header_roundtrips [THEN conjunct2, rule_format, of "[example_via, example_via]"]
    by (simp del: join.simps list.map)
qed

end
