(* ===== verification/Ip_Addr.thy ===== *)
theory Ip_Addr
  imports Sip_Message
begin

text \<open>
  IP addresses in text: the parser of \<^verbatim>\<open>std::net\<close> that the code calls through
  \<^verbatim>\<open>str::parse::<IpAddr>()\<close> and \<^verbatim>\<open>::<Ipv6Addr>()\<close>, and the check of a bare URI host that rests on
  it (\<^verbatim>\<open>checked_uri_host\<close> in \<^verbatim>\<open>src/src/sip/uri.rs\<close>).  A reader takes the rest of the text and
  gives back its value with what is left, or fails and leaves the text alone.
\<close>

datatype ip_addr = V4 "nat list" | V6 "nat list"

subsection \<open>The parser of the standard library\<close>

definition hex_digit :: "nat \<Rightarrow> char \<Rightarrow> nat option" where
  "hex_digit radix c =
     (let v = (if is_digit c then Some (of_char c - 48)
               else if in_range 97 102 c then Some (of_char c - 87)
               else if in_range 65 70 c then Some (of_char c - 55)
               else None)
      in case v of Some d \<Rightarrow> if d < radix then Some d else None | None \<Rightarrow> None)"

text \<open>\<^verbatim>\<open>read_number\<close>: every digit that follows, at most \<open>max_digits\<close> of them.\<close>

fun read_digits :: "nat \<Rightarrow> nat \<Rightarrow> nat \<Rightarrow> string \<Rightarrow> nat \<times> nat \<times> string" where
  "read_digits radix acc n [] = (acc, n, [])"
| "read_digits radix acc n (c # s) =
     (case hex_digit radix c of
        Some d \<Rightarrow> read_digits radix (acc * radix + d) (Suc n) s
      | None \<Rightarrow> (acc, n, c # s))"

definition read_number :: "nat \<Rightarrow> nat \<Rightarrow> bool \<Rightarrow> nat \<Rightarrow> string \<Rightarrow> (nat \<times> string) option" where
  "read_number radix max_digits allow_zero_prefix limit s =
     (let (val, n, rest) = read_digits radix 0 0 s;
          leading_zero = (case s of c # _ \<Rightarrow> c = CHR ''0'' | [] \<Rightarrow> False)
      in if n = 0 \<or> n > max_digits then None
         else if \<not> allow_zero_prefix \<and> leading_zero \<and> n > 1 then None
         else if val > limit then None
         else Some (val, rest))"

definition read_separator :: "char \<Rightarrow> nat \<Rightarrow> (string \<Rightarrow> ('a \<times> string) option) \<Rightarrow> string \<Rightarrow> ('a \<times> string) option" where
  "read_separator sep index inner s =
     (if index = 0 then inner s
      else (case s of c # r \<Rightarrow> if c = sep then inner r else None | [] \<Rightarrow> None))"

fun read_ipv4_groups :: "nat \<Rightarrow> nat \<Rightarrow> string \<Rightarrow> (nat list \<times> string) option" where
  "read_ipv4_groups i 0 s = Some ([], s)"
| "read_ipv4_groups i (Suc k) s =
     (case read_separator CHR ''.'' i (read_number 10 3 False 255) s of
        None \<Rightarrow> None
      | Some (g, r) \<Rightarrow> map_option (\<lambda>(gs, r'). (g # gs, r')) (read_ipv4_groups (Suc i) k r))"

definition read_ipv4_addr :: "string \<Rightarrow> (nat list \<times> string) option" where
  "read_ipv4_addr s = read_ipv4_groups 0 4 s"

text \<open>
  \<^verbatim>\<open>read_groups\<close>: up to \<open>limit\<close> groups from index \<open>i\<close> on, the last two of which may be written as
  an IPv4 address; what is read, whether it ended in one, and the rest.
\<close>

function read_groups :: "nat \<Rightarrow> nat \<Rightarrow> string \<Rightarrow> nat list \<times> bool \<times> string" where
  "read_groups limit i s =
     (if limit \<le> i then ([], False, s)
      else (case (if i < limit - 1 then read_separator CHR '':'' i read_ipv4_addr s else None) of
              Some ([a, b, c, d], r) \<Rightarrow> ([a * 256 + b, c * 256 + d], True, r)
            | _ \<Rightarrow>
              (case read_separator CHR '':'' i (read_number 16 4 True 65535) s of
                 None \<Rightarrow> ([], False, s)
               | Some (g, r) \<Rightarrow> (let (gs, v4, r') = read_groups limit (Suc i) r in (g # gs, v4, r')))))"
  by pat_completeness auto
termination by (relation "measure (\<lambda>(limit, i, _). limit - i)") auto

declare read_groups.simps [simp del]

definition read_ipv6_addr :: "string \<Rightarrow> (nat list \<times> string) option" where
  "read_ipv6_addr s =
     (let (head, head_ipv4, r) = read_groups 8 0 s
      in if length head = 8 then Some (head, r)
         else if head_ipv4 then None
         else (case strip_prefix ''::'' r of
                 None \<Rightarrow> None
               | Some r1 \<Rightarrow>
                 (let (tail, _, r2) = read_groups (8 - (length head + 1)) 0 r1
                  in Some (head @ replicate (8 - length head - length tail) 0 @ tail, r2))))"

definition parse_ip_addr :: "string \<Rightarrow> ip_addr option" where
  "parse_ip_addr s =
     (case (case read_ipv4_addr s of
              Some (o4, r) \<Rightarrow> Some (V4 o4, r)
            | None \<Rightarrow> map_option (\<lambda>(g6, r). (V6 g6, r)) (read_ipv6_addr s)) of
        Some (ip, []) \<Rightarrow> Some ip
      | _ \<Rightarrow> None)"

definition parse_ipv6_addr :: "string \<Rightarrow> nat list option" where
  "parse_ipv6_addr s = (case read_ipv6_addr s of Some (g6, []) \<Rightarrow> Some g6 | _ \<Rightarrow> None)"

subsection \<open>A bare URI host\<close>

definition is_hostname_char :: "char \<Rightarrow> bool" where
  "is_hostname_char c \<longleftrightarrow> is_alnum c \<or> c = CHR ''-'' \<or> c = CHR ''.''"

definition checked_uri_host :: "string \<Rightarrow> string option" where
  "checked_uri_host val =
     (if list_all (\<lambda>c. c \<noteq> CHR ''['' \<and> c \<noteq> CHR '':'') val
      then (if val \<noteq> [] \<and> list_all is_hostname_char val then Some val else None)
      else (let unbracketed = strip_ipv6_brackets val
            in map_option (\<lambda>_. format_sip_host unbracketed) (parse_ipv6_addr unbracketed)))"

subsection \<open>What a reader consumes\<close>

definition is_ip_char :: "char \<Rightarrow> bool" where
  "is_ip_char c \<longleftrightarrow> is_hex c \<or> c = CHR ''.'' \<or> c = CHR '':''"

lemma hex_digit_char: "hex_digit radix c = Some d \<Longrightarrow> is_ip_char c"
  by (auto simp: hex_digit_def Let_def is_ip_char_def is_hex_def split: if_splits option.splits)

lemma read_digits_takes: "read_digits radix acc n s = (v, k, r) \<Longrightarrow> \<exists>t. s = t @ r \<and> list_all is_ip_char t"
proof (induction radix acc n s rule: read_digits.induct)
  case (2 radix acc n c s)
  show ?case
  proof (cases "hex_digit radix c")
    case None
    with 2 show ?thesis by (intro exI [of _ "[]"]) simp
  next
    case (Some d)
    with 2 obtain t where "s = t @ r" "list_all is_ip_char t" by auto
    with hex_digit_char [OF Some] show ?thesis by (intro exI [of _ "c # t"]) simp
  qed
qed simp

text \<open>A reader that takes a run of address characters off the front.\<close>

definition takes_ip :: "(string \<Rightarrow> ('a \<times> string) option) \<Rightarrow> bool" where
  "takes_ip p \<longleftrightarrow> (\<forall>s x r. p s = Some (x, r) \<longrightarrow> (\<exists>t. s = t @ r \<and> list_all is_ip_char t))"

lemma takes_number: "takes_ip (read_number radix m z limit)"
  unfolding takes_ip_def
proof (intro allI impI)
  fix s x r assume num: "read_number radix m z limit s = Some (x, r)"
  obtain v k q where d: "read_digits radix 0 0 s = (v, k, q)" by (cases "read_digits radix 0 0 s")
  with num have "q = r" by (auto simp: read_number_def Let_def split: if_splits)
  with read_digits_takes [OF d] show "\<exists>t. s = t @ r \<and> list_all is_ip_char t" by simp
qed

lemma takes_separator:
  assumes "takes_ip p" and "is_ip_char sep"
    and "read_separator sep i p s = Some (x, r)"
  shows "\<exists>t. s = t @ r \<and> list_all is_ip_char t \<and> (0 < i \<longrightarrow> sep \<in> set t)"
proof (cases "i = 0")
  case True
  with assms show ?thesis by (auto simp: read_separator_def takes_ip_def)
next
  case False
  with assms(3) obtain q where q: "s = sep # q" "p q = Some (x, r)"
    by (auto simp: read_separator_def split: list.splits if_splits)
  with assms(1) obtain t where "q = t @ r" "list_all is_ip_char t" unfolding takes_ip_def by blast
  with q assms(2) show ?thesis by (intro exI [of _ "sep # t"]) simp
qed

lemma ip_separators [simp]: "is_ip_char CHR ''.''" "is_ip_char CHR '':''"
  by (simp_all add: is_ip_char_def)

lemma takes_ipv4: "takes_ip read_ipv4_addr"
proof -
  have "\<exists>t. s = t @ r \<and> list_all is_ip_char t" if "read_ipv4_groups i k s = Some (gs, r)" for i k s gs r
    using that
  proof (induction i k s arbitrary: gs r rule: read_ipv4_groups.induct)
    case (2 i k s)
    then obtain g q gs' where g: "read_separator CHR ''.'' i (read_number 10 3 False 255) s = Some (g, q)"
      "read_ipv4_groups (Suc i) k q = Some (gs', r)"
      by (auto split: option.splits)
    obtain t where t: "s = t @ q" "list_all is_ip_char t"
      using takes_separator [OF takes_number _ g(1)] by auto
    obtain u where "q = u @ r" "list_all is_ip_char u" using 2(1) [OF g(1) refl g(2)] by blast
    with t show ?case by (intro exI [of _ "t @ u"]) simp
  qed simp
  then show ?thesis by (auto simp: takes_ip_def read_ipv4_addr_def)
qed

lemma read_groups_takes:
  "read_groups limit i s = (gs, v4, r) \<Longrightarrow>
     \<exists>t. s = t @ r \<and> list_all is_ip_char t \<and> (gs \<noteq> [] \<and> (0 < i \<or> 2 < length gs) \<longrightarrow> CHR '':'' \<in> set t)"
proof (induction "limit - i" arbitrary: i s gs v4 r rule: less_induct)
  case less
  let ?v4 = "if i < limit - 1 then read_separator CHR '':'' i read_ipv4_addr s else None"
  show ?case
  proof (cases "limit \<le> i")
    case True
    with less.prems show ?thesis by (simp add: read_groups.simps)
  next
    case False
    note eq = less.prems [unfolded read_groups.simps [of limit i s] if_not_P [OF False]]
    show ?thesis
    proof (cases "\<exists>a b c d q. ?v4 = Some ([a, b, c, d], q)")
      case True
      then obtain a b c d q where q: "?v4 = Some ([a, b, c, d], q)" by blast
      then have "read_separator CHR '':'' i read_ipv4_addr s = Some ([a, b, c, d], q)" by (simp split: if_splits)
      from takes_separator [OF takes_ipv4 _ this] eq q show ?thesis by auto
    next
      case no_v4: False
      have eq': "(case read_separator CHR '':'' i (read_number 16 4 True 65535) s of
                 None \<Rightarrow> ([], False, s)
               | Some (g, r) \<Rightarrow> (let (gs, v4, r') = read_groups limit (Suc i) r in (g # gs, v4, r'))) = (gs, v4, r)"
        using eq no_v4 by (auto split: option.splits list.splits prod.splits)
      show ?thesis
      proof (cases "read_separator CHR '':'' i (read_number 16 4 True 65535) s")
        case None
        with eq' show ?thesis by simp
      next
        case (Some gq)
        obtain g q where gq: "gq = (g, q)" by (cases gq)
        obtain hs w u where rec: "read_groups limit (Suc i) q = (hs, w, u)" by (cases "read_groups limit (Suc i) q")
        have res: "gs = g # hs" "r = u" using eq' Some gq rec by auto
        obtain t where t: "s = t @ q" "list_all is_ip_char t" "0 < i \<longrightarrow> CHR '':'' \<in> set t"
          using takes_separator [OF takes_number _ Some [unfolded gq]] by auto
        have "limit - Suc i < limit - i" using False by simp
        then obtain t' where t': "q = t' @ u" "list_all is_ip_char t'" "hs \<noteq> [] \<longrightarrow> CHR '':'' \<in> set t'"
          using less.hyps [OF _ rec] by auto
        show ?thesis using t t' res by (intro exI [of _ "t @ t'"]) auto
      qed
    qed
  qed
qed

lemma read_ipv6_takes:
  assumes "read_ipv6_addr s = Some (g, r)"
  shows "\<exists>t. s = t @ r \<and> list_all is_ip_char t \<and> CHR '':'' \<in> set t"
proof -
  obtain h v q where h: "read_groups 8 0 s = (h, v, q)" by (cases "read_groups 8 0 s")
  obtain t where t: "s = t @ q" "list_all is_ip_char t" "h \<noteq> [] \<and> 2 < length h \<longrightarrow> CHR '':'' \<in> set t"
    using read_groups_takes [OF h] by auto
  show ?thesis
  proof (cases "length h = 8")
    case True
    with assms h t show ?thesis by (auto simp: read_ipv6_addr_def)
  next
    case False
    then obtain q1 where q1: "q = ''::'' @ q1"
      using assms h by (auto simp: read_ipv6_addr_def strip_prefix_Some_iff split: option.splits if_splits prod.splits)
    obtain k w u where k: "read_groups (8 - (length h + 1)) 0 q1 = (k, w, u)"
      by (cases "read_groups (8 - (length h + 1)) 0 q1")
    with assms h False q1 have "u = r" by (auto simp: read_ipv6_addr_def Let_def split: if_splits)
    with read_groups_takes [OF k] obtain t' where "q1 = t' @ r" "list_all is_ip_char t'" by auto
    with t q1 show ?thesis by (intro exI [of _ "t @ ''::'' @ t'"]) simp
  qed
qed

lemma parse_ipv6_chars:
  assumes "parse_ipv6_addr s = Some g"
  shows "list_all is_ip_char s" and "CHR '':'' \<in> set s"
proof -
  have "read_ipv6_addr s = Some (g, [])"
    using assms by (auto simp: parse_ipv6_addr_def split: option.splits list.splits prod.splits)
  from read_ipv6_takes [OF this] show "list_all is_ip_char s" and "CHR '':'' \<in> set s" by auto
qed

text \<open>
  A host taken from configuration or from a script cannot smuggle anything else into a URI: what
  \<open>checked_uri_host\<close> accepts is a non-empty hostname, or an address of hexadecimal digits, dots
  and colons in brackets, so it holds no white space, line end, separator or angle bracket; and
  it is a fixed point, checking it again gives the same host.
\<close>

theorem checked_host_safe:
  assumes "checked_uri_host val = Some h"
  shows "(h \<noteq> [] \<and> list_all is_hostname_char h
       \<or> (\<exists>a. h = ''['' @ a @ '']'' \<and> list_all is_ip_char a \<and> parse_ipv6_addr a \<noteq> None))
    \<and> checked_uri_host h = Some h"
proof (cases "list_all (\<lambda>c. c \<noteq> CHR ''['' \<and> c \<noteq> CHR '':'') val")
  case True
  with assms show ?thesis by (auto simp: checked_uri_host_def split: if_splits)
next
  case False
  let ?a = "strip_ipv6_brackets val"
  obtain g where g: "parse_ipv6_addr ?a = Some g" "h = format_sip_host ?a"
    using assms False by (auto simp: checked_uri_host_def Let_def)
  note chars = parse_ipv6_chars [OF g(1)]
  have "\<not> is_ip_char CHR ''[''" by (simp add: is_ip_char_def is_hex_def is_digit_def in_range_def)
  with chars(1) have "\<not> starts_with ''['' ?a"
    by (cases ?a) (auto simp: starts_with_def list_all_iff)
  with chars(2) g(2) have h: "h = ''['' @ ?a @ '']''" by (simp add: format_sip_host_def)
  have "strip_ipv6_brackets h = ?a"
    using strip_suffix_Some_iff [of "'']''" "?a @ '']''" ?a] by (simp add: h strip_ipv6_brackets_def)
  with h g have "checked_uri_host h = Some h" by (simp add: checked_uri_host_def Let_def)
  with h g chars(1) show ?thesis by auto
qed

theorem checked_host_safe_witness:
  "checked_uri_host ''2001:db8::1'' = Some ''[2001:db8::1]'' \<and> checked_uri_host ''[2001:db8::1]'' = Some ''[2001:db8::1]''"
proof -
  have "checked_uri_host ''2001:db8::1'' = Some ''[2001:db8::1]''" by code_simp
  with checked_host_safe [OF this] show ?thesis by simp
qed

end
