(* ===== verification/Ue_Sockets.thy ===== *)
theory Ue_Sockets
  imports Ip_Addr "HOL-Library.AList"
begin

text \<open>
  The sockets opened at run time for outbound registrations (\<^verbatim>\<open>src/src/transport/ue_sockets.rs\<close>):
  which addresses are open, the count of sockets per IP that answers a host-only question, and
  the pass that converges on a wanted set.  Whether the operating system lets an address be
  bound is an argument.  The TCP half is the set of its listeners
  (\<^verbatim>\<open>src/src/transport/ue_streams.rs\<close>), once it is attached.
\<close>

type_synonym sockaddr = "ip_addr \<times> nat"

record ue_sockets =
  ue_udp :: "sockaddr list"
  ue_ips :: "(ip_addr \<times> nat) list"
  static_addrs :: "sockaddr list"
  bind_failures :: "sockaddr list"
  ue_tcp :: "sockaddr list option"

record reconcile_outcome =
  opened :: nat
  closed :: nat
  bind_failed :: "sockaddr list"

definition ue_new :: "sockaddr list \<Rightarrow> ue_sockets" where
  "ue_new statics = \<lparr>ue_udp = [], ue_ips = [], static_addrs = statics, bind_failures = [], ue_tcp = None\<rparr>"

definition attach_tcp :: "ue_sockets \<Rightarrow> ue_sockets \<times> bool" where
  "attach_tcp u = (case ue_tcp u of None \<Rightarrow> (u\<lparr>ue_tcp := Some []\<rparr>, True) | Some _ \<Rightarrow> (u, False))"

definition is_unspecified :: "ip_addr \<Rightarrow> bool" where
  "is_unspecified ip = (case ip of V4 g \<Rightarrow> g = replicate 4 0 | V6 g \<Rightarrow> g = replicate 8 0)"

definition wildcard_ip :: "ip_addr \<Rightarrow> ip_addr" where
  "wildcard_ip ip = (case ip of V4 _ \<Rightarrow> V4 (replicate 4 0) | V6 _ \<Rightarrow> V6 (replicate 8 0))"

definition is_static :: "ue_sockets \<Rightarrow> sockaddr \<Rightarrow> bool" where
  "is_static u addr \<longleftrightarrow> addr \<in> set (static_addrs u) \<or> (wildcard_ip (fst addr), snd addr) \<in> set (static_addrs u)"

definition ue_contains :: "ue_sockets \<Rightarrow> sockaddr \<Rightarrow> bool" where
  "ue_contains u addr \<longleftrightarrow> addr \<in> set (ue_udp u)"

definition contains_tcp :: "ue_sockets \<Rightarrow> sockaddr \<Rightarrow> bool" where
  "contains_tcp u addr = (case ue_tcp u of Some ls \<Rightarrow> addr \<in> set ls | None \<Rightarrow> False)"

definition contains_any :: "ue_sockets \<Rightarrow> sockaddr \<Rightarrow> bool" where
  "contains_any u addr \<longleftrightarrow> ue_contains u addr \<or> contains_tcp u addr"

definition contains_ip :: "ue_sockets \<Rightarrow> ip_addr \<Rightarrow> bool" where
  "contains_ip u ip \<longleftrightarrow>
     map_of (ue_ips u) ip \<noteq> None
     \<or> (case ue_tcp u of Some ls \<Rightarrow> list_ex (\<lambda>a. fst a = ip) ls | None \<Rightarrow> False)"

definition release_ip :: "ue_sockets \<Rightarrow> ip_addr \<Rightarrow> ue_sockets" where
  "release_ip u ip =
     (case map_of (ue_ips u) ip of
        None \<Rightarrow> u
      | Some held \<Rightarrow>
          if held - 1 = 0 then u\<lparr>ue_ips := AList.delete ip (ue_ips u)\<rparr>
          else u\<lparr>ue_ips := AList.update ip (held - 1) (ue_ips u)\<rparr>)"

definition ue_open :: "(sockaddr \<Rightarrow> bool) \<Rightarrow> ue_sockets \<Rightarrow> sockaddr \<Rightarrow> ue_sockets option" where
  "ue_open bind u addr =
     (if is_unspecified (fst addr) \<or> snd addr = 0 \<or> \<not> bind addr then None
      else Some (u\<lparr>ue_udp := addr # ue_udp u,
        ue_ips := AList.update (fst addr) (case map_of (ue_ips u) (fst addr) of Some n \<Rightarrow> Suc n | None \<Rightarrow> 1) (ue_ips u)\<rparr>))"

text \<open>One address that is no longer wanted, and one that is wanted.\<close>

definition close_one :: "ue_sockets \<times> reconcile_outcome \<Rightarrow> sockaddr \<Rightarrow> ue_sockets \<times> reconcile_outcome" where
  "close_one = (\<lambda>(u, out) addr.
     if addr \<in> set (ue_udp u)
     then (release_ip (u\<lparr>ue_udp := removeAll addr (ue_udp u)\<rparr>) (fst addr), out\<lparr>closed := Suc (closed out)\<rparr>)
     else (u, out))"

definition open_one ::
  "(sockaddr \<Rightarrow> bool) \<Rightarrow> ue_sockets \<times> reconcile_outcome \<Rightarrow> sockaddr \<Rightarrow> ue_sockets \<times> reconcile_outcome" where
  "open_one bind = (\<lambda>(u, out) addr.
     if is_static u addr \<or> addr \<in> set (ue_udp u) then (u, out)
     else (case ue_open bind u addr of
             Some u' \<Rightarrow> (u'\<lparr>bind_failures := removeAll addr (bind_failures u')\<rparr>, out\<lparr>opened := Suc (opened out)\<rparr>)
           | None \<Rightarrow> (u\<lparr>bind_failures := List.insert addr (bind_failures u)\<rparr>,
                      out\<lparr>bind_failed := List.insert addr (bind_failed out)\<rparr>)))"

definition reconcile :: "(sockaddr \<Rightarrow> bool) \<Rightarrow> ue_sockets \<Rightarrow> sockaddr list \<Rightarrow> ue_sockets \<times> reconcile_outcome" where
  "reconcile bind u desired =
     (let start = (u, \<lparr>opened = 0, closed = 0, bind_failed = []\<rparr>);
          (u1, out1) = foldl close_one start (filter (\<lambda>a. a \<notin> set desired) (ue_udp u));
          u2 = u1\<lparr>bind_failures := filter (\<lambda>a. a \<in> set desired) (bind_failures u1)\<rparr>
      in foldl (open_one bind) (u2, out1) desired)"

subsection \<open>The count per IP\<close>

definition ip_count :: "sockaddr list \<Rightarrow> ip_addr \<Rightarrow> nat" where
  "ip_count as ip = length (filter (\<lambda>a. fst a = ip) as)"

text \<open>No socket is open twice and every IP is counted with the sockets it holds.\<close>

definition ue_inv :: "ue_sockets \<Rightarrow> bool" where
  "ue_inv u \<longleftrightarrow> distinct (ue_udp u)
     \<and> (\<forall>ip. map_of (ue_ips u) ip = (if ip_count (ue_udp u) ip = 0 then None else Some (ip_count (ue_udp u) ip)))"

lemma ue_new_inv: "ue_inv (ue_new statics)"
  by (simp add: ue_inv_def ue_new_def ip_count_def)

lemma ip_count_remove:
  assumes "distinct as" and "a \<in> set as"
  shows "ip_count (removeAll a as) ip = (if ip = fst a then ip_count as ip - 1 else ip_count as ip)"
    and "0 < ip_count as (fst a)"
proof -
  obtain xs ys where as: "as = xs @ a # ys" "a \<notin> set xs" "a \<notin> set ys"
    using assms split_list_first [of a as] by auto
  then show "ip_count (removeAll a as) ip = (if ip = fst a then ip_count as ip - 1 else ip_count as ip)"
    and "0 < ip_count as (fst a)"
    by (simp_all add: ip_count_def)
qed

lemma close_one_inv:
  assumes "ue_inv u" and "close_one (u, out) addr = (u', out')"
  shows "ue_inv u' \<and> set (ue_udp u') = set (ue_udp u) - {addr} \<and> static_addrs u' = static_addrs u
    \<and> bind_failures u' = bind_failures u \<and> bind_failed out' = bind_failed out"
proof (cases "addr \<in> set (ue_udp u)")
  case True
  let ?v = "u\<lparr>ue_udp := removeAll addr (ue_udp u)\<rparr>"
  have u': "u' = release_ip ?v (fst addr)" "out' = out\<lparr>closed := Suc (closed out)\<rparr>"
    using assms(2) True by (simp_all add: close_one_def)
  have dist: "distinct (ue_udp u)" using assms(1) by (simp add: ue_inv_def)
  note count = ip_count_remove [OF dist True]
  have udp: "ue_udp u' = removeAll addr (ue_udp u)" "static_addrs u' = static_addrs u" "bind_failures u' = bind_failures u"
    by (simp_all add: u' release_ip_def split: option.split)
  have "map_of (ue_ips u') ip = (if ip_count (ue_udp u') ip = 0 then None else Some (ip_count (ue_udp u') ip))" for ip
    using assms(1) count(2) unfolding udp count(1)
    by (auto simp: u' release_ip_def ue_inv_def delete_conv' update_conv' split: if_splits)
  then show ?thesis using dist udp u' by (auto simp: ue_inv_def distinct_removeAll)
next
  case False
  with assms show ?thesis by (auto simp: close_one_def)
qed

lemma open_one_inv:
  assumes "ue_inv u" and "open_one bind (u, out) addr = (u', out')"
  shows "ue_inv u' \<and> static_addrs u' = static_addrs u
    \<and> set (ue_udp u') = set (ue_udp u)
        \<union> (if \<not> is_static u addr \<and> \<not> is_unspecified (fst addr) \<and> snd addr \<noteq> 0 \<and> bind addr then {addr} else {})
    \<and> set (bind_failed out') = set (bind_failed out)
        \<union> (if is_static u addr \<or> addr \<in> set (ue_udp u') then {} else {addr})"
proof (cases "is_static u addr \<or> addr \<in> set (ue_udp u)")
  case True
  then have "u' = u" "out' = out" using assms(2) by (simp_all add: open_one_def)
  with True assms(1) show ?thesis by auto
next
  case False
  show ?thesis
  proof (cases "ue_open bind u addr")
    case None
    then have "is_unspecified (fst addr) \<or> snd addr = 0 \<or> \<not> bind addr" by (auto simp: ue_open_def)
    moreover have "u' = u\<lparr>bind_failures := List.insert addr (bind_failures u)\<rparr>"
      "out' = out\<lparr>bind_failed := List.insert addr (bind_failed out)\<rparr>"
      using None False assms(2) by (simp_all add: open_one_def)
    ultimately show ?thesis using False assms(1) by (auto simp: ue_inv_def)
  next
    case (Some v)
    then have v: "v = u\<lparr>ue_udp := addr # ue_udp u,
        ue_ips := AList.update (fst addr) (case map_of (ue_ips u) (fst addr) of Some n \<Rightarrow> Suc n | None \<Rightarrow> 1) (ue_ips u)\<rparr>"
      and ok: "\<not> is_unspecified (fst addr)" "snd addr \<noteq> 0" "bind addr"
      by (auto simp: ue_open_def split: if_splits)
    have "map_of (ue_ips v) ip = (if ip_count (ue_udp v) ip = 0 then None else Some (ip_count (ue_udp v) ip))" for ip
    proof (cases "ip = fst addr")
      case True
      have "map_of (ue_ips u) ip = (if ip_count (ue_udp u) ip = 0 then None else Some (ip_count (ue_udp u) ip))"
        using assms(1) by (simp add: ue_inv_def)
      moreover have "ip_count (ue_udp v) ip = Suc (ip_count (ue_udp u) ip)" using True by (simp add: v ip_count_def)
      ultimately show ?thesis using True by (simp add: v update_conv)
    next
      case other: False
      have "map_of (ue_ips u) ip = (if ip_count (ue_udp u) ip = 0 then None else Some (ip_count (ue_udp u) ip))"
        using assms(1) by (simp add: ue_inv_def)
      moreover have "ip_count (ue_udp v) ip = ip_count (ue_udp u) ip" using other by (simp add: v ip_count_def)
      ultimately show ?thesis using other by (simp add: v update_conv)
    qed
    then have "ue_inv v" using assms(1) False by (simp add: ue_inv_def v)
    moreover have "u' = v\<lparr>bind_failures := removeAll addr (bind_failures v)\<rparr>" "out' = out\<lparr>opened := Suc (opened out)\<rparr>"
      using assms(2) False Some by (simp_all add: open_one_def)
    ultimately show ?thesis using ok False by (simp add: ue_inv_def) (simp add: v)
  qed
qed

lemma close_all_inv:
  assumes "ue_inv u" and "foldl close_one (u, out) as = (u', out')"
  shows "ue_inv u' \<and> set (ue_udp u') = set (ue_udp u) - set as \<and> static_addrs u' = static_addrs u
    \<and> bind_failed out' = bind_failed out"
  using assms
proof (induction as arbitrary: u out)
  case (Cons a as)
  obtain u1 out1 where step: "close_one (u, out) a = (u1, out1)" by (cases "close_one (u, out) a")
  with Cons.prems(2) have "foldl close_one (u1, out1) as = (u', out')" by simp
  with Cons.IH [of u1 out1] close_one_inv [OF Cons.prems(1) step] show ?case by auto
qed simp

definition may_open :: "(sockaddr \<Rightarrow> bool) \<Rightarrow> ue_sockets \<Rightarrow> sockaddr \<Rightarrow> bool" where
  "may_open bind u addr \<longleftrightarrow> \<not> is_static u addr \<and> \<not> is_unspecified (fst addr) \<and> snd addr \<noteq> 0 \<and> bind addr"

lemma open_all_inv:
  assumes "ue_inv u" and "foldl (open_one bind) (u, out) as = (u', out')"
  shows "ue_inv u' \<and> set (ue_udp u') = set (ue_udp u) \<union> {a \<in> set as. may_open bind u a}
    \<and> set (bind_failed out') = set (bind_failed out) \<union> {a \<in> set as. \<not> is_static u a \<and> a \<notin> set (ue_udp u')}"
  using assms
proof (induction as arbitrary: u out)
  case (Cons a as)
  obtain u1 out1 where step: "open_one bind (u, out) a = (u1, out1)" by (cases "open_one bind (u, out) a")
  with Cons.prems(2) have rest: "foldl (open_one bind) (u1, out1) as = (u', out')" by simp
  note one = open_one_inv [OF Cons.prems(1) step]
  then have same: "is_static u1 = is_static u" "may_open bind u1 = may_open bind u"
    by (simp_all add: fun_eq_iff is_static_def may_open_def)
  have ih: "ue_inv u' \<and> set (ue_udp u') = set (ue_udp u1) \<union> {a \<in> set as. may_open bind u a}
    \<and> set (bind_failed out') = set (bind_failed out1) \<union> {a \<in> set as. \<not> is_static u a \<and> a \<notin> set (ue_udp u')}"
    using Cons.IH [OF _ rest] one unfolding same by blast
  have udp1: "set (ue_udp u1) = set (ue_udp u) \<union> {b \<in> {a}. may_open bind u b}"
    using one by (auto simp: may_open_def)
  have "a \<in> set (ue_udp u') \<longleftrightarrow> a \<in> set (ue_udp u1)" using ih udp1 by auto
  then show ?case using ih udp1 one by auto
qed simp

text \<open>
  C30. A pass over the wanted addresses converges: afterwards the open sockets are the wanted ones
  that were open already or could be opened (not served by a configured listener, a concrete
  address and port, and the bind succeeds), the ones reported as failed are exactly the other
  wanted ones that no configured listener serves, and an IP is recognised exactly when a socket
  is open on it.
\<close>

theorem reconcile_converges:
  assumes "ue_inv u" and "reconcile bind u desired = (u', out)"
  shows "ue_inv u'
    \<and> set (ue_udp u') = {a \<in> set desired. a \<in> set (ue_udp u) \<or> may_open bind u a}
    \<and> set (bind_failed out) = {a \<in> set desired. \<not> is_static u a \<and> a \<notin> set (ue_udp u')}
    \<and> (ue_tcp u' = None \<longrightarrow> (\<forall>ip. contains_ip u' ip \<longleftrightarrow> (\<exists>p. ue_contains u' (ip, p))))"
proof -
  let ?o = "\<lparr>opened = 0, closed = 0, bind_failed = []\<rparr>"
  obtain u1 out1 where close: "foldl close_one (u, ?o) (filter (\<lambda>a. a \<notin> set desired) (ue_udp u)) = (u1, out1)"
    by (cases "foldl close_one (u, ?o) (filter (\<lambda>a. a \<notin> set desired) (ue_udp u))")
  let ?u2 = "u1\<lparr>bind_failures := filter (\<lambda>a. a \<in> set desired) (bind_failures u1)\<rparr>"
  note c = close_all_inv [OF assms(1) close]
  then have inv2: "ue_inv ?u2" and udp2: "set (ue_udp ?u2) = {a \<in> set (ue_udp u). a \<in> set desired}"
    by (auto simp: ue_inv_def)
  have same: "is_static ?u2 = is_static u" "may_open bind ?u2 = may_open bind u"
    using c by (simp_all add: fun_eq_iff is_static_def may_open_def)
  have "foldl (open_one bind) (?u2, out1) desired = (u', out)"
    using assms(2) close by (simp add: reconcile_def)
  note o = open_all_inv [OF inv2 this, unfolded same udp2]
  have "contains_ip u' ip \<longleftrightarrow> (\<exists>p. ue_contains u' (ip, p))" if "ue_tcp u' = None" for ip
  proof -
    have "contains_ip u' ip \<longleftrightarrow> ip_count (ue_udp u') ip \<noteq> 0"
      using o that by (simp add: contains_ip_def ue_inv_def)
    also have "\<dots> \<longleftrightarrow> (\<exists>a \<in> set (ue_udp u'). fst a = ip)"
      by (auto simp: ip_count_def filter_empty_conv)
    finally show ?thesis by (force simp: ue_contains_def)
  qed
  then show ?thesis using o c by auto
qed

theorem reconcile_converges_witness:
  "set (ue_udp (fst (reconcile (\<lambda>_. True) (ue_new [(V4 [10, 0, 0, 1], 5060)])
       [(V4 [10, 0, 0, 1], 5060), (V4 [10, 0, 0, 2], 5060), (V4 [0, 0, 0, 0], 5060)])))
     = {(V4 [10, 0, 0, 2], 5060)}"
proof -
  let ?u = "ue_new [(V4 [10, 0, 0, 1], 5060)]"
  let ?d = "[(V4 [10, 0, 0, 1], 5060), (V4 [10, 0, 0, 2], 5060), (V4 [0, 0, 0, 0], 5060)]"
  have "set (ue_udp (fst (reconcile (\<lambda>_. True) ?u ?d))) =
      {a \<in> set ?d. a \<in> set (ue_udp ?u) \<or> may_open (\<lambda>_. True) ?u a}"
    using reconcile_converges [OF ue_new_inv, of "\<lambda>_. True" _ ?d "fst (reconcile (\<lambda>_. True) ?u ?d)" "snd (reconcile (\<lambda>_. True) ?u ?d)"]
    by simp
  moreover have "replicate 4 (0::nat) = [0, 0, 0, 0]" by (simp add: numeral_eq_Suc)
  then have "{a \<in> set ?d. a \<in> set (ue_udp ?u) \<or> may_open (\<lambda>_. True) ?u a} = {(V4 [10, 0, 0, 2], 5060)}"
    by (auto simp: may_open_def is_static_def is_unspecified_def wildcard_ip_def ue_new_def)
  ultimately show ?thesis by simp
qed

end
