(* ===== verification/Proxy_Core.thy ===== *)
theory Proxy_Core
  imports Sip_Roundtrips Ue_Sockets Tx_Manager
begin

text \<open>
  The header work of a proxy (\<^verbatim>\<open>src/src/proxy/core.rs\<close>): its own Via and Record-Route, Max-Forwards,
  the Route set, which addresses are its own, and how a branch of a fork is routed.  Each function
  of the source that takes the headers by mutable reference returns the new headers here.
\<close>

subsection \<open>Via, Max-Forwards, Record-Route\<close>

definition or_default :: "'a list option \<Rightarrow> 'a list" where
  "or_default v = (case v of Some vs \<Rightarrow> vs | None \<Rightarrow> [])"

definition add_via :: "string \<Rightarrow> sip_headers \<Rightarrow> string \<Rightarrow> string \<Rightarrow> nat option \<Rightarrow> sip_headers \<times> string" where
  "add_via uuid h tp host port =
     (let branch = generate_branch uuid;
          via_value = (case port of
              Some p \<Rightarrow> ''SIP/2.0/'' @ tp @ '' '' @ host @ '':'' @ show_nat p @ '';branch='' @ branch
            | None \<Rightarrow> ''SIP/2.0/'' @ tp @ '' '' @ host @ '';branch='' @ branch)
      in (hdr_set_all h ''Via'' (via_value # or_default (hdr_get_all h ''Via'')), branch))"

definition strip_top_via :: "sip_headers \<Rightarrow> sip_headers \<times> via option" where
  "strip_top_via h =
     (case or_default (hdr_get_all h ''Via'') of
        [] \<Rightarrow> (h, None)
      | first_raw # others \<Rightarrow>
        (case via_parse_multi first_raw of
           Inr (removed # vias) \<Rightarrow>
             (let remaining = (if vias = [] then [] else [join '', '' (map show_via vias)]) @ others
              in (if remaining = [] then hdr_remove h ''Via'' else hdr_set_all h ''Via'' remaining, Some removed))
         | _ \<Rightarrow> (h, None)))"

definition decrement_max_forwards :: "sip_headers \<Rightarrow> sip_headers \<times> nat option" where
  "decrement_max_forwards h =
     (let current = (case hdr_max_forwards h of Some n \<Rightarrow> n | None \<Rightarrow> 70)
      in if current = 0 then (h, None)
         else (hdr_set h ''Max-Forwards'' (show_nat (current - 1)), Some (current - 1)))"

definition add_record_route :: "sip_headers \<Rightarrow> string \<Rightarrow> sip_headers" where
  "add_record_route h uri =
     (let existing = or_default (hdr_get_all h ''Record-Route'');
          h1 = hdr_add (hdr_remove h ''Record-Route'') ''Record-Route'' (''<'' @ uri @ '';lr>'')
      in foldl (\<lambda>h rr. hdr_add h ''Record-Route'' rr) h1 existing)"

subsection \<open>The Route set\<close>

definition check_loose_route :: "sip_headers \<Rightarrow> bool" where
  "check_loose_route h =
     (case hdr_get h ''Route'' of
        None \<Rightarrow> True
      | Some raw \<Rightarrow> (case route_parse_multi raw of Inr (e # _) \<Rightarrow> is_loose_route e | _ \<Rightarrow> True))"

definition parsed_routes :: "string list \<Rightarrow> route_entry list" where
  "parsed_routes raws = concat (map (\<lambda>raw. case route_parse_multi raw of Inr es \<Rightarrow> es | Inl _ \<Rightarrow> []) raws)"

definition pop_top_route :: "sip_headers \<Rightarrow> sip_headers \<times> route_entry option" where
  "pop_top_route h =
     (case parsed_routes (or_default (hdr_get_all h ''Route'')) of
        [] \<Rightarrow> (h, None)
      | removed # rest \<Rightarrow>
          (let h1 = hdr_remove h ''Route''
           in (if rest = [] then h1 else hdr_add h1 ''Route'' (format_route_header rest), Some removed)))"

subsection \<open>Who this proxy is\<close>

record self_identity =
  id_entries :: "(string \<times> nat list) list"
  dynamic_udp :: "ue_sockets option"

definition identity_new :: self_identity where
  "identity_new = \<lparr>id_entries = [], dynamic_udp = None\<rparr>"

definition set_dynamic_udp :: "ue_sockets option \<Rightarrow> self_identity \<Rightarrow> self_identity" where
  "set_dynamic_udp d i = i\<lparr>dynamic_udp := d\<rparr>"

definition normalise :: "string \<Rightarrow> string" where
  "normalise host = to_lower (strip_ipv6_brackets (trim host))"

text \<open>The first entry of a host is rewritten, a new host goes to the end.\<close>

fun update_entry :: "string \<Rightarrow> (nat list \<Rightarrow> nat list) \<Rightarrow> nat list \<Rightarrow> (string \<times> nat list) list \<Rightarrow> (string \<times> nat list) list" where
  "update_entry host f fresh [] = [(host, fresh)]"
| "update_entry host f fresh ((known, ports) # es) =
     (if known = host then (known, f ports) # es else (known, ports) # update_entry host f fresh es)"

definition add_alias :: "string \<Rightarrow> self_identity \<Rightarrow> self_identity" where
  "add_alias host0 i =
     (let host = normalise host0
      in if host = [] then i
         else i\<lparr>id_entries := update_entry host (\<lambda>_. []) [] (id_entries i)\<rparr>)"

definition merge_ports :: "nat list \<Rightarrow> nat list \<Rightarrow> nat list" where
  "merge_ports ports known =
     (if known = [] then known else foldl (\<lambda>k p. if p \<in> set k then k else k @ [p]) known ports)"

definition add_host :: "string \<Rightarrow> nat list \<Rightarrow> self_identity \<Rightarrow> self_identity" where
  "add_host host0 ports i =
     (let host = normalise host0
      in if host = [] \<or> ports = [] then i
         else i\<lparr>id_entries := update_entry host (merge_ports ports) ports (id_entries i)\<rparr>)"

definition matches_dynamic :: "self_identity \<Rightarrow> string \<Rightarrow> nat option \<Rightarrow> bool" where
  "matches_dynamic i host port =
     (case dynamic_udp i of
        None \<Rightarrow> False
      | Some d \<Rightarrow>
        (case parse_ip_addr host of
           None \<Rightarrow> False
         | Some ip \<Rightarrow> (case port of Some p \<Rightarrow> contains_any d (ip, p) | None \<Rightarrow> contains_ip d ip)))"

definition id_matches :: "self_identity \<Rightarrow> string \<Rightarrow> nat option \<Rightarrow> bool" where
  "id_matches i host port =
     (let candidate = normalise host
      in list_ex (\<lambda>(known, ports). known = candidate
             \<and> (ports = [] \<or> (case port of None \<Rightarrow> True | Some p \<Rightarrow> p \<in> set ports))) (id_entries i)
         \<or> matches_dynamic i candidate port)"

definition route_is_local :: "self_identity \<Rightarrow> route_entry \<Rightarrow> bool" where
  "route_is_local i e = id_matches i (uri_host (re_uri e)) (uri_port (re_uri e))"

definition top_route_is_local :: "sip_headers \<Rightarrow> self_identity \<Rightarrow> bool" where
  "top_route_is_local h i =
     (case hdr_get h ''Route'' of
        None \<Rightarrow> False
      | Some raw \<Rightarrow> (case route_parse_multi raw of Inr (e # _) \<Rightarrow> route_is_local i e | _ \<Rightarrow> False))"

text \<open>The loop that pops this proxy's own entries; \<^const>\<open>None\<close> is a loop that does not end.\<close>

partial_function (option) pop_local_routes ::
  "self_identity \<Rightarrow> sip_headers \<Rightarrow> (sip_headers \<times> route_entry list) option" where
  "pop_local_routes i h =
     (if top_route_is_local h i
      then (case pop_top_route h of
              (h1, Some e) \<Rightarrow> Option.bind (pop_local_routes i h1) (\<lambda>(h2, popped). Some (h2, e # popped))
            | (h1, None) \<Rightarrow> Some (h1, []))
      else Some (h, []))"

definition consume_self_routes :: "sip_headers \<Rightarrow> self_identity \<Rightarrow> (sip_headers \<times> route_entry list) option" where
  "consume_self_routes h i = (if check_loose_route h then pop_local_routes i h else Some (h, []))"

definition next_hop_from_route :: "sip_headers \<Rightarrow> string option" where
  "next_hop_from_route h =
     (case hdr_get h ''Route'' of
        None \<Rightarrow> None
      | Some raw \<Rightarrow> (case route_parse_multi raw of Inr (e # _) \<Rightarrow> Some (show_uri (re_uri e)) | _ \<Rightarrow> None))"

subsection \<open>Routing one branch\<close>

definition trim_angles :: "string \<Rightarrow> string" where
  "trim_angles s =
     (let P = (\<lambda>c. c = CHR ''<'' \<or> c = CHR ''>'') in rev (dropWhile P (rev (dropWhile P s))))"

definition path_entries :: "string \<Rightarrow> string list" where
  "path_entries raw =
     (let t = trim raw
      in if t = [] then []
         else (case route_parse_multi t of
                 Inr (e # es) \<Rightarrow> map show_route (e # es)
               | _ \<Rightarrow> [''<'' @ trim (trim_angles t) @ ''>'']))"

definition route_set_from_path :: "string list \<Rightarrow> string option" where
  "route_set_from_path path =
     (let entries = concat (map path_entries path) in if entries = [] then None else Some (join '', '' entries))"

record branch_routing =
  routing_route_set :: "string option"
  next_hop :: string

definition branch_routing_of :: "string list \<Rightarrow> string \<Rightarrow> branch_routing option" where
  "branch_routing_of path tgt =
     (case route_set_from_path path of
        None \<Rightarrow> Some \<lparr>routing_route_set = None, next_hop = tgt\<rparr>
      | Some rs \<Rightarrow>
          map_option (\<lambda>hop. \<lparr>routing_route_set = Some rs, next_hop = hop\<rparr>)
            (next_hop_from_route (hdr_set hdr_new ''Route'' rs)))"

subsection \<open>The proxy's Via\<close>

text \<open>The Via a proxy writes, as a value.\<close>

definition own_via :: "string \<Rightarrow> string \<Rightarrow> string \<Rightarrow> nat option \<Rightarrow> via" where
  "own_via uuid tp host port =
     \<lparr>via_transport = tp, via_host = host, via_port = port, via_branch = Some (generate_branch uuid),
      via_received = None, via_rport = None, via_other_params = []\<rparr>"

lemma add_via_shows:
  "add_via uuid h tp host port =
     (hdr_set_all h ''Via'' (show_via (own_via uuid tp host port) # or_default (hdr_get_all h ''Via'')), generate_branch uuid)"
  by (cases port) (simp_all add: add_via_def own_via_def show_via_def show_port_def show_params_def Let_def)

lemma via_parse_one: "via_wf v \<Longrightarrow> CHR '','' \<notin> set (show_via v) \<Longrightarrow> via_parse_multi (show_via v) = Inr [v]"
  using split_comma_join [of "[show_via v]"] via_shown_trimmed [of v] via_parse_show [of v]
  by (simp add: via_parse_multi_def)

definition other_values_kept :: "string \<Rightarrow> sip_headers \<Rightarrow> sip_headers \<Rightarrow> bool" where
  "other_values_kept name h h' \<longleftrightarrow>
     (\<forall>n. canonical_key n \<noteq> canonical_key name \<longrightarrow> hdr_get_all h' n = hdr_get_all h n)"

text \<open>
  C25. A response finds its way back: stripping the topmost Via of a message undoes what adding one did.
  The Via taken off is the one put on, with its transport, sent-by and branch, and every header
  answers as before.
\<close>

theorem via_push_pop:
  assumes "via_wf (own_via uuid tp host port)" and "CHR '','' \<notin> set (show_via (own_via uuid tp host port))"
    and "hdr_get_all h ''Via'' \<noteq> Some []"
  shows "\<exists>h'. strip_top_via (fst (add_via uuid h tp host port)) = (h', Some (own_via uuid tp host port))
    \<and> (\<forall>n. hdr_get_all h' n = hdr_get_all h n)"
proof -
  let ?v = "own_via uuid tp host port"
  let ?h1 = "hdr_set_all h ''Via'' (show_via ?v # or_default (hdr_get_all h ''Via''))"
  let ?old = "or_default (hdr_get_all h ''Via'')"
  have via: "hdr_get_all h n = hdr_get_all h ''Via''" if "canonical_key n = canonical_key ''Via''" for n
    using that by (rule hdr.get_key)
  have strip: "strip_top_via ?h1 = (if ?old = [] then hdr_remove ?h1 ''Via'' else hdr_set_all ?h1 ''Via'' ?old, Some ?v)"
    by (simp add: strip_top_via_def or_default_def hdr.get_set_all via_parse_one [OF assms(1,2)])
  have "hdr_get_all (fst (strip_top_via ?h1)) n = hdr_get_all h n" for n
    using assms(3) via [of n] unfolding strip fst_conv
    by (auto simp: hdr.get_set_all hdr.get_remove or_default_def split: option.splits)
  then show ?thesis by (simp add: add_via_shows strip)
qed

theorem via_push_pop_witness:
  "\<exists>h'. strip_top_via (fst (add_via ''0a'' (msg_headers example_invite) ''UDP'' ''p.example'' (Some 5060)))
      = (h', Some (own_via ''0a'' ''UDP'' ''p.example'' (Some 5060)))
    \<and> hdr_get_all h' ''Via'' = hdr_get_all (msg_headers example_invite) ''Via''"
proof -
  let ?v = "own_via ''0a'' ''UDP'' ''p.example'' (Some 5060)"
  have "via_wf ?v"
    by (simp add: via_wf_def own_via_def via_host_wf_def via_all_params_def param_wf_def trimmed_def generate_branch_def
        is_ws_def in_range_def lower_char_def upper_char_def is_upper_def is_lower_def)
  moreover have "CHR '','' \<notin> set (show_via ?v)" by code_simp
  moreover have "hdr_get_all (msg_headers example_invite) ''Via'' \<noteq> Some []" by code_simp
  ultimately show ?thesis using via_push_pop [of "''0a''" "''UDP''" "''p.example''" "Some 5060"] by blast
qed

subsection \<open>Max-Forwards\<close>

text \<open>The hops a request makes: how often it is forwarded before a proxy refuses.\<close>

fun hops :: "nat \<Rightarrow> sip_headers \<Rightarrow> sip_headers option" where
  "hops 0 h = Some h"
| "hops (Suc n) h = (case decrement_max_forwards h of (h', Some _) \<Rightarrow> hops n h' | (_, None) \<Rightarrow> None)"

definition forwards_left :: "sip_headers \<Rightarrow> nat" where
  "forwards_left h = (case hdr_max_forwards h of Some n \<Rightarrow> n | None \<Rightarrow> 70)"

lemma forwards_left_set: "n \<le> u8_max \<Longrightarrow> forwards_left (hdr_set h ''Max-Forwards'' (show_nat n)) = n"
  by (simp add: forwards_left_def hdr_max_forwards_def parse_uint_show_nat)

lemma forwards_left_bound: "forwards_left h \<le> u8_max"
  using parse_uint_bound by (auto simp: forwards_left_def hdr_max_forwards_def split: option.splits bind_splits)

lemma hops_left:
  "(forwards_left h < n \<longrightarrow> hops n h = None)
   \<and> (n \<le> forwards_left h \<longrightarrow> (\<exists>h'. hops n h = Some h' \<and> forwards_left h' = forwards_left h - n))"
proof (induction n arbitrary: h)
  case (Suc n)
  have left: "forwards_left h \<le> u8_max" by (rule forwards_left_bound)
  show ?case
  proof (cases "forwards_left h")
    case 0
    then show ?thesis by (simp add: decrement_max_forwards_def forwards_left_def Let_def)
  next
    case (Suc k)
    let ?h = "hdr_set h ''Max-Forwards'' (show_nat k)"
    have dec: "decrement_max_forwards h = (?h, Some k)"
      using Suc by (simp add: decrement_max_forwards_def forwards_left_def Let_def)
    have "forwards_left ?h = k" using Suc left by (intro forwards_left_set) simp
    with Suc.IH [of ?h] Suc show ?thesis by (simp add: dec)
  qed
qed simp

text \<open>
  C35. Max-Forwards ends every loop: a request with the value n, or with 70 when it has none that can
  be read, is forwarded exactly n times, each time with a value one lower, and then refused; no
  request is forwarded more than 255 times.
\<close>

theorem max_forwards_ends:
  "(hops n h = None \<longleftrightarrow> forwards_left h < n) \<and> forwards_left h \<le> 255
   \<and> (\<forall>h'. hops n h = Some h' \<longrightarrow> forwards_left h' = forwards_left h - n)"
  using hops_left [of h n] forwards_left_bound [of h] by (cases "n \<le> forwards_left h") auto

theorem max_forwards_ends_witness: "hops 70 (msg_headers example_invite) = None \<and> hops 69 (msg_headers example_invite) \<noteq> None"
proof -
  have "forwards_left (msg_headers example_invite) = 69" by code_simp
  then show ?thesis
    using max_forwards_ends [of 70 "msg_headers example_invite"] max_forwards_ends [of 69 "msg_headers example_invite"]
    by (simp del: hops.simps)
qed

subsection \<open>Identity\<close>

datatype declared = Alias string | Host string "nat list"

fun declare_one :: "self_identity \<Rightarrow> declared \<Rightarrow> self_identity" where
  "declare_one i (Alias host) = add_alias host i"
| "declare_one i (Host host ports) = add_host host ports i"

text \<open>What a declaration stands for: a host it names, and whether a port is one it answers on.\<close>

fun declares :: "declared \<Rightarrow> string \<Rightarrow> nat option \<Rightarrow> bool" where
  "declares (Alias h) host port \<longleftrightarrow> normalise h = host \<and> host \<noteq> []"
| "declares (Host h ports) host port \<longleftrightarrow>
     normalise h = host \<and> host \<noteq> [] \<and> ports \<noteq> [] \<and> (\<forall>p. port = Some p \<longrightarrow> p \<in> set ports)"

definition entry_answers :: "string \<Rightarrow> nat option \<Rightarrow> string \<times> nat list \<Rightarrow> bool" where
  "entry_answers host port = (\<lambda>(known, ports). known = host \<and> (ports = [] \<or> (\<forall>p. port = Some p \<longrightarrow> p \<in> set ports)))"

lemma id_matches_answers:
  "id_matches i host port \<longleftrightarrow>
     (\<exists>e \<in> set (id_entries i). entry_answers (normalise host) port e) \<or> matches_dynamic i (normalise host) port"
  by (auto simp: id_matches_def Let_def list_ex_iff entry_answers_def split: option.splits prod.splits)

lemma set_merge_ports:
  assumes "known \<noteq> []"
  shows "set (merge_ports ports known) = set known \<union> set ports \<and> merge_ports ports known \<noteq> []"
proof -
  have "set (foldl (\<lambda>k p. if p \<in> set k then k else k @ [p]) k ps) = set k \<union> set ps
      \<and> (k \<noteq> [] \<longrightarrow> foldl (\<lambda>k p. if p \<in> set k then k else k @ [p]) k ps \<noteq> [])" for k :: "nat list" and ps
    by (induction ps arbitrary: k) auto
  with assms show ?thesis by (simp add: merge_ports_def)
qed

lemma update_entry_answers:
  assumes "distinct (map fst es)"
    and "\<And>ports. entry_answers host port (host, f ports) \<longleftrightarrow> entry_answers host port (host, ports) \<or> X"
    and "entry_answers host port (host, fresh) \<longleftrightarrow> X"
  shows "(\<exists>e \<in> set (update_entry host f fresh es). entry_answers c port e) \<longleftrightarrow>
      (\<exists>e \<in> set es. entry_answers c port e) \<or> c = host \<and> X"
    and "distinct (map fst (update_entry host f fresh es))"
proof -
  show "(\<exists>e \<in> set (update_entry host f fresh es). entry_answers c port e) \<longleftrightarrow>
      (\<exists>e \<in> set es. entry_answers c port e) \<or> c = host \<and> X"
  proof -
    have own: "entry_answers c port (host, ps) \<longleftrightarrow> c = host \<and> entry_answers host port (host, ps)" for ps
      by (auto simp: entry_answers_def)
    have "(\<exists>e \<in> set (update_entry host f fresh es). entry_answers c port e) \<longleftrightarrow>
        (\<exists>e \<in> set es. entry_answers c port e) \<or> c = host \<and> X" for es
    proof (induction es)
      case Nil
      show ?case by (simp add: own assms(3))
    next
      case (Cons e es)
      obtain known ports where e: "e = (known, ports)" by (cases e)
      show ?case
      proof (cases "known = host")
        case True
        then show ?thesis unfolding e by (simp add: own assms(2)) blast
      next
        case False
        then show ?thesis using Cons.IH unfolding e by simp
      qed
    qed
    then show ?thesis .
  qed
  have keys: "fst ` set (update_entry host f fresh es) = insert host (fst ` set es)" for es
  proof (induction es)
    case (Cons e es)
    then show ?case by (cases e) (auto simp: insert_commute)
  qed simp
  show "distinct (map fst (update_entry host f fresh es))"
    using assms(1) keys by (induction es) auto
qed

lemma declare_one_answers:
  assumes "distinct (map fst (id_entries i))"
  shows "(\<exists>e \<in> set (id_entries (declare_one i d)). entry_answers c port e) \<longleftrightarrow>
      (\<exists>e \<in> set (id_entries i). entry_answers c port e) \<or> declares d c port"
    and "distinct (map fst (id_entries (declare_one i d)))" and "dynamic_udp (declare_one i d) = dynamic_udp i"
proof -
  have "((\<exists>e \<in> set (id_entries (declare_one i d)). entry_answers c port e) \<longleftrightarrow>
      (\<exists>e \<in> set (id_entries i). entry_answers c port e) \<or> declares d c port)
    \<and> distinct (map fst (id_entries (declare_one i d))) \<and> dynamic_udp (declare_one i d) = dynamic_udp i"
  proof (cases d)
    case (Alias h)
    let ?k = "normalise h"
    have "entry_answers ?k port (?k, []) \<longleftrightarrow> True" by (simp add: entry_answers_def)
    then have "(\<exists>e \<in> set (update_entry ?k (\<lambda>_. []) [] (id_entries i)). entry_answers c port e) \<longleftrightarrow>
        (\<exists>e \<in> set (id_entries i). entry_answers c port e) \<or> c = ?k \<and> True"
      and "distinct (map fst (update_entry ?k (\<lambda>_. []) [] (id_entries i)))"
      by (intro update_entry_answers [OF assms, where X = True and port = port]; simp)+
    with Alias assms show ?thesis by (auto simp: add_alias_def Let_def)
  next
    case (Host h ports)
    let ?k = "normalise h" and ?X = "\<forall>p. port = Some p \<longrightarrow> p \<in> set ports"
    have "entry_answers ?k port (?k, merge_ports ports known) \<longleftrightarrow> entry_answers ?k port (?k, known) \<or> ?X" for known
      using set_merge_ports [of known ports] by (cases "known = []"; cases port) (auto simp: entry_answers_def merge_ports_def)
    moreover have "entry_answers ?k port (?k, ports) \<longleftrightarrow> ?X" if "ports \<noteq> []" using that by (simp add: entry_answers_def)
    ultimately have "(\<exists>e \<in> set (update_entry ?k (merge_ports ports) ports (id_entries i)). entry_answers c port e) \<longleftrightarrow>
        (\<exists>e \<in> set (id_entries i). entry_answers c port e) \<or> c = ?k \<and> ?X"
      and "distinct (map fst (update_entry ?k (merge_ports ports) ports (id_entries i)))" if "ports \<noteq> []"
      using that by (intro update_entry_answers [OF assms, where X = ?X and port = port]; blast)+
    note upd = this
    show ?thesis
    proof (cases "?k = [] \<or> ports = []")
      case True
      with Host assms show ?thesis by (auto simp: add_host_def Let_def)
    next
      case False
      then have "id_entries (declare_one i d) = update_entry ?k (merge_ports ports) ports (id_entries i)"
        "dynamic_udp (declare_one i d) = dynamic_udp i"
        using Host by (simp_all add: add_host_def Let_def)
      with upd False Host show ?thesis by auto
    qed
  qed
  then show "(\<exists>e \<in> set (id_entries (declare_one i d)). entry_answers c port e) \<longleftrightarrow>
      (\<exists>e \<in> set (id_entries i). entry_answers c port e) \<or> declares d c port"
    and "distinct (map fst (id_entries (declare_one i d)))" and "dynamic_udp (declare_one i d) = dynamic_udp i" by auto
qed

text \<open>
  C29. A host and port are this proxy's own exactly when some declaration covers them: an alias covers
  its host on every port, a listener address its ports and a Route without a port.  The order
  of the declarations and the merging of entries for one host make no difference.
\<close>

theorem identity_refines_declarations:
  "id_matches (foldl declare_one identity_new ds) host port \<longleftrightarrow>
     (\<exists>d \<in> set ds. declares d (normalise host) port)"
proof -
  have "((\<exists>e \<in> set (id_entries (foldl declare_one i ds)). entry_answers c port e) \<longleftrightarrow>
      (\<exists>e \<in> set (id_entries i). entry_answers c port e) \<or> (\<exists>d \<in> set ds. declares d c port))
    \<and> dynamic_udp (foldl declare_one i ds) = dynamic_udp i"
    if "distinct (map fst (id_entries i))" for i c
    using that
  proof (induction ds arbitrary: i)
    case (Cons d ds)
    from Cons.IH [OF declare_one_answers(2) [OF Cons.prems]] declare_one_answers(1) [OF Cons.prems, of d c port]
      declare_one_answers(3) [OF Cons.prems] show ?case by auto
  qed simp
  from this [of identity_new "normalise host"] show ?thesis
    by (simp add: id_matches_answers identity_new_def matches_dynamic_def)
qed

subsection \<open>Consuming the proxy's own routes\<close>

text \<open>Route entries that print to a header value which parses back, wherever the list is cut.\<close>

definition routes_print :: "route_entry list \<Rightarrow> bool" where
  "routes_print es \<longleftrightarrow> (\<forall>n < length es. route_parse_multi (format_route_header (drop n es)) = Inr (drop n es))"

lemma routes_print_tl: "routes_print (e # es) \<Longrightarrow> routes_print es"
  by (force simp: routes_print_def)

lemma hdr_route_add:
  "hdr_get_all (hdr_add (hdr_remove h ''Route'') ''Route'' v) n =
     (if canonical_key n = canonical_key ''Route'' then Some [v] else hdr_get_all h n)"
  by (rule hdr.remove_then_add)

lemma pop_top_route_one:
  assumes "hdr_get_all h ''Route'' = Some raws" and "parsed_routes raws = e # es"
  shows "\<exists>h'. pop_top_route h = (h', Some e) \<and> other_values_kept ''Route'' h h'
    \<and> hdr_get_all h' ''Route'' = (if es = [] then None else Some [format_route_header es])"
  using assms
  by (auto simp: pop_top_route_def or_default_def Let_def other_values_kept_def hdr_route_add hdr.get_remove)

text \<open>Once one value is left, each round of the loop takes one entry off its front.\<close>

lemma pop_local_one_value:
  assumes "hdr_get_all h ''Route'' = (if es = [] then None else Some [format_route_header es])" and "routes_print es"
  shows "\<exists>h'. pop_local_routes i h = Some (h', takeWhile (route_is_local i) es)
    \<and> other_values_kept ''Route'' h h'
    \<and> hdr_get_all h' ''Route'' = (let rest = dropWhile (route_is_local i) es
         in if rest = [] then None else Some [format_route_header rest])"
  using assms
proof (induction es arbitrary: h)
  case Nil
  then show ?case
    by (subst pop_local_routes.simps)
      (simp add: top_route_is_local_def hdr_get_get_all other_values_kept_def)
next
  case (Cons e es)
  have print: "route_parse_multi (format_route_header (e # es)) = Inr (e # es)"
    using Cons.prems(2) unfolding routes_print_def by (metis drop0 length_greater_0_conv list.discI)
  have raw: "hdr_get_all h ''Route'' = Some [format_route_header (e # es)]" using Cons.prems(1) by simp
  have local: "top_route_is_local h i \<longleftrightarrow> route_is_local i e"
    by (simp add: top_route_is_local_def hdr_get_get_all raw print)
  show ?case
  proof (cases "route_is_local i e")
    case True
    have "parsed_routes [format_route_header (e # es)] = e # es" by (simp add: parsed_routes_def print)
    from pop_top_route_one [OF raw this] obtain h1 where h1: "pop_top_route h = (h1, Some e)"
      "other_values_kept ''Route'' h h1"
      "hdr_get_all h1 ''Route'' = (if es = [] then None else Some [format_route_header es])" by blast
    from Cons.IH [OF h1(3) routes_print_tl [OF Cons.prems(2)]] obtain h2 where
      "pop_local_routes i h1 = Some (h2, takeWhile (route_is_local i) es)" "other_values_kept ''Route'' h1 h2"
      "hdr_get_all h2 ''Route'' = (let rest = dropWhile (route_is_local i) es
         in if rest = [] then None else Some [format_route_header rest])" by blast
    with h1 True local show ?thesis
      by (subst pop_local_routes.simps) (auto simp: other_values_kept_def)
  next
    case False
    with local raw show ?thesis
      by (subst pop_local_routes.simps) (simp add: other_values_kept_def)
  qed
qed

text \<open>
  C24. Loose routing ends and does what RFC 3261 section 16.4 asks: when every Route value can be read
  and entries print back as they were read, exactly the leading entries that name this proxy are taken
  off, in order; what is left starts with the first entry that names another element, and no
  other header changes.  A strict route, and a route set that starts with another element's entry, are
  left alone.
\<close>

theorem self_routes_consumed:
  assumes "hdr_get_all h ''Route'' = Some (raw # raws)" and "route_parse_multi raw = Inr (e # first)"
    and "parsed_routes (raw # raws) = es" and "routes_print (tl es)" and "is_loose_route e"
  shows "\<exists>h'. consume_self_routes h i = Some (h', takeWhile (route_is_local i) es)
    \<and> other_values_kept ''Route'' h h'
    \<and> hdr_get_all h' ''Route'' =
        (if \<not> route_is_local i e then Some (raw # raws)
         else let rest = dropWhile (route_is_local i) es
              in if rest = [] then None else Some [format_route_header rest])"
proof -
  obtain es' where es: "es = e # es'" using assms(2,3) by (auto simp: parsed_routes_def)
  have loose: "check_loose_route h" using assms(1,2,5) by (simp add: check_loose_route_def hdr_get_get_all)
  have local: "top_route_is_local h i \<longleftrightarrow> route_is_local i e"
    using assms(1,2) by (simp add: top_route_is_local_def hdr_get_get_all)
  show ?thesis
  proof (cases "route_is_local i e")
    case True
    from pop_top_route_one [OF assms(1) assms(3) [unfolded es]] obtain h1 where h1: "pop_top_route h = (h1, Some e)"
      "other_values_kept ''Route'' h h1"
      "hdr_get_all h1 ''Route'' = (if es' = [] then None else Some [format_route_header es'])" by blast
    from pop_local_one_value [OF h1(3), of i] assms(4) es obtain h2 where
      "pop_local_routes i h1 = Some (h2, takeWhile (route_is_local i) es')" "other_values_kept ''Route'' h1 h2"
      "hdr_get_all h2 ''Route'' = (let rest = dropWhile (route_is_local i) es'
         in if rest = [] then None else Some [format_route_header rest])" by auto
    with h1 True local loose es show ?thesis
      unfolding consume_self_routes_def
      by (subst pop_local_routes.simps) (auto simp: other_values_kept_def)
  next
    case False
    with local loose es assms(1) show ?thesis
      unfolding consume_self_routes_def
      by (subst pop_local_routes.simps) (simp add: other_values_kept_def)
  qed
qed

definition example_routed :: sip_headers where
  "example_routed = hdr_set_all hdr_new ''Route'' [''<sip:p.example;lr>'', ''<sip:b.example;lr>'']"

theorem self_routes_consumed_witness:
  "\<exists>h' popped. consume_self_routes example_routed (add_alias ''p.example'' identity_new) = Some (h', popped)
     \<and> length popped = 1 \<and> hdr_get_all h' ''Route'' = Some [''<sip:b.example;lr>'']"
proof -
  let ?i = "add_alias ''p.example'' identity_new"
  let ?u = "\<lambda>host. (uri_new host)\<lparr>uri_params := [(''lr'', None)]\<rparr>"
  let ?e = "\<lparr>re_uri = ?u ''p.example'', re_params = []\<rparr>" and ?f = "\<lparr>re_uri = ?u ''b.example'', re_params = []\<rparr>"
  have get: "hdr_get_all example_routed ''Route'' = Some [''<sip:p.example;lr>'', ''<sip:b.example;lr>'']" by code_simp
  have p1: "route_parse_multi ''<sip:p.example;lr>'' = Inr [?e]" by code_simp
  have p2: "route_parse_multi ''<sip:b.example;lr>'' = Inr [?f]" by code_simp
  have f: "format_route_header [?f] = ''<sip:b.example;lr>''" by code_simp
  have local: "route_is_local ?i ?e" "\<not> route_is_local ?i ?f" by code_simp+
  have "parsed_routes [''<sip:p.example;lr>'', ''<sip:b.example;lr>''] = [?e, ?f]"
    by (simp add: parsed_routes_def p1 p2)
  moreover have "routes_print (tl [?e, ?f])" by (simp add: routes_print_def f p2)
  moreover have "is_loose_route ?e" by (simp add: is_loose_route_def)
  ultimately show ?thesis
    using self_routes_consumed [OF get p1, of "[?e, ?f]" ?i] local f by auto
qed

text \<open>
  C37. A Route value that cannot be read is lost: when the first Route value is one entry and no other value
  can be read, taking that entry off leaves the request with no Route at all, although the other
  values were on it, and the next hop is then the Request-URI.
\<close>

theorem pop_top_route_loses:
  assumes "hdr_get_all h ''Route'' = Some (raw # raws)" and "route_parse_multi raw = Inr [e]"
    and "\<forall>r \<in> set raws. \<exists>x. route_parse_multi r = Inl x"
  shows "\<exists>h'. pop_top_route h = (h', Some e) \<and> hdr_get_all h' ''Route'' = None \<and> next_hop_from_route h' = None"
proof -
  have "concat (map (\<lambda>r. case route_parse_multi r of Inr es \<Rightarrow> es | Inl _ \<Rightarrow> []) rs) = []"
    if "\<forall>r \<in> set rs. \<exists>x. route_parse_multi r = Inl x" for rs
    using that by (induction rs) auto
  with assms(2,3) have "parsed_routes (raw # raws) = [e]" by (simp add: parsed_routes_def)
  from pop_top_route_one [OF assms(1) this] show ?thesis
    by (auto simp: next_hop_from_route_def hdr_get_get_all)
qed

theorem pop_top_route_loses_witness:
  "\<exists>h' e. pop_top_route (hdr_set_all hdr_new ''Route'' [''<sip:p.example;lr>'', ''sip:b.example;lr'']) = (h', Some e)
     \<and> next_hop_from_route h' = None"
proof -
  let ?h = "hdr_set_all hdr_new ''Route'' [''<sip:p.example;lr>'', ''sip:b.example;lr'']"
  have get: "hdr_get_all ?h ''Route'' = Some [''<sip:p.example;lr>'', ''sip:b.example;lr'']" by code_simp
  have p1: "route_parse_multi ''<sip:p.example;lr>'' =
      Inr [\<lparr>re_uri = (uri_new ''p.example'')\<lparr>uri_params := [(''lr'', None)]\<rparr>, re_params = []\<rparr>]" by code_simp
  have p2: "route_parse_multi ''sip:b.example;lr'' = Inl RouteMissingLt" by code_simp
  from pop_top_route_loses [OF get p1] p2 show ?thesis by auto
qed

end
