(* ===== verification/Diameter_Dictionary.thy ===== *)
theory Diameter_Dictionary
  imports Machine_Words "HOL-Library.Product_Lexorder"
begin

text \<open>
  The Diameter dictionary (\<^verbatim>\<open>src/src/diameter/dictionary.rs\<close> and \<^verbatim>\<open>dictionary/policy.rs\<close>): the
  tables of AVP definitions with their codes, vendors, names and wire types, the lookups by code and
  by name, application and command identifiers, and the labels of result codes.  The tables
  are the source's, entry for entry; codes and vendors are only ever compared, so the 32-bit numbers are
  natural numbers here.  The lemmas show that the binary searches find exactly what
  the tables define and that every lookup is one-to-one.
\<close>

subsection \<open>Definitions of AVPs\<close>

datatype avp_type =
    OctetString | UTF8String | Unsigned32 | Unsigned64 | Integer32 | Enumerated
  | GroupedType | AddressType | TimeType | DiameterIdentity | TbcdString

definition is_container :: "avp_type \<Rightarrow> bool" where
  "is_container t \<longleftrightarrow> t = GroupedType"

definition is_text :: "avp_type \<Rightarrow> bool" where
  "is_text t \<longleftrightarrow> t = UTF8String \<or> t = DiameterIdentity"

datatype avp_def = AvpDef (def_code: nat) (def_vendor: nat) (def_name: string) (def_type: avp_type)

definition is_vendor_specific :: "avp_def \<Rightarrow> bool" where
  "is_vendor_specific d \<longleftrightarrow> def_vendor d \<noteq> 0"

abbreviation (input) TGPP :: nat where "TGPP \<equiv> 10415"

text \<open>The main table, sorted by vendor and code.\<close>

definition avp_table_1 :: "avp_def list" where
  "avp_table_1 =
    [AvpDef 1 0 ''User-Name'' UTF8String,
     AvpDef 8 0 ''Framed-IP-Address'' OctetString,
     AvpDef 11 0 ''Filter-Id'' UTF8String,
     AvpDef 25 0 ''Class'' OctetString,
     AvpDef 27 0 ''Session-Timeout'' Unsigned32,
     AvpDef 30 0 ''Called-Station-Id'' UTF8String,
     AvpDef 33 0 ''Proxy-State'' OctetString,
     AvpDef 44 0 ''Acct-Session-Id'' OctetString,
     AvpDef 50 0 ''Acct-Multi-Session-Id'' UTF8String,
     AvpDef 55 0 ''Event-Timestamp'' TimeType,
     AvpDef 85 0 ''Acct-Interim-Interval'' Unsigned32,
     AvpDef 97 0 ''Framed-IPv6-Prefix'' OctetString,
     AvpDef 104 0 ''Digest-Realm'' UTF8String,
     AvpDef 110 0 ''Digest-QoP'' UTF8String,
     AvpDef 111 0 ''Digest-Algorithm'' UTF8String,
     AvpDef 121 0 ''Digest-HA1'' UTF8String,
     AvpDef 257 0 ''Host-IP-Address'' AddressType,
     AvpDef 258 0 ''Auth-Application-Id'' Unsigned32,
     AvpDef 259 0 ''Acct-Application-Id'' Unsigned32,
     AvpDef 260 0 ''Vendor-Specific-Application-Id'' GroupedType,
     AvpDef 263 0 ''Session-Id'' UTF8String,
     AvpDef 264 0 ''Origin-Host'' DiameterIdentity,
     AvpDef 265 0 ''Supported-Vendor-Id'' Unsigned32,
     AvpDef 266 0 ''Vendor-Id'' Unsigned32,
     AvpDef 267 0 ''Firmware-Revision'' Unsigned32]"

definition avp_table_2 :: "avp_def list" where
  "avp_table_2 =
    [AvpDef 268 0 ''Result-Code'' Unsigned32,
     AvpDef 269 0 ''Product-Name'' UTF8String,
     AvpDef 270 0 ''Session-Binding'' Unsigned32,
     AvpDef 274 0 ''Auth-Grace-Period'' Unsigned32,
     AvpDef 277 0 ''Auth-Session-State'' Enumerated,
     AvpDef 278 0 ''Origin-State-Id'' Unsigned32,
     AvpDef 279 0 ''Failed-AVP'' GroupedType,
     AvpDef 281 0 ''Error-Message'' UTF8String,
     AvpDef 282 0 ''Route-Record'' DiameterIdentity,
     AvpDef 283 0 ''Destination-Realm'' DiameterIdentity,
     AvpDef 284 0 ''Proxy-Info'' GroupedType,
     AvpDef 285 0 ''Re-Auth-Request-Type'' Enumerated,
     AvpDef 291 0 ''Authorization-Lifetime'' Unsigned32,
     AvpDef 293 0 ''Destination-Host'' DiameterIdentity,
     AvpDef 295 0 ''Termination-Cause'' Enumerated,
     AvpDef 296 0 ''Origin-Realm'' DiameterIdentity,
     AvpDef 297 0 ''Experimental-Result'' GroupedType,
     AvpDef 298 0 ''Experimental-Result-Code'' Unsigned32,
     AvpDef 299 0 ''Inband-Security-Id'' Unsigned32,
     AvpDef 412 0 ''CC-Input-Octets'' Unsigned64,
     AvpDef 413 0 ''CC-Money'' GroupedType,
     AvpDef 414 0 ''CC-Output-Octets'' Unsigned64,
     AvpDef 415 0 ''CC-Request-Number'' Unsigned32,
     AvpDef 416 0 ''CC-Request-Type'' Enumerated,
     AvpDef 417 0 ''CC-Service-Specific-Units'' Unsigned64]"

definition avp_table_3 :: "avp_def list" where
  "avp_table_3 =
    [AvpDef 418 0 ''CC-Session-Failover'' Enumerated,
     AvpDef 419 0 ''CC-Sub-Session-Id'' Unsigned64,
     AvpDef 420 0 ''CC-Time'' Unsigned32,
     AvpDef 421 0 ''CC-Total-Octets'' Unsigned64,
     AvpDef 426 0 ''Credit-Control'' Enumerated,
     AvpDef 427 0 ''Credit-Control-Failure-Handling'' Enumerated,
     AvpDef 428 0 ''Direct-Debiting-Failure-Handling'' Enumerated,
     AvpDef 430 0 ''Final-Unit-Indication'' GroupedType,
     AvpDef 431 0 ''Granted-Service-Unit'' GroupedType,
     AvpDef 432 0 ''Rating-Group'' Unsigned32,
     AvpDef 433 0 ''Redirect-Address-Type'' Enumerated,
     AvpDef 434 0 ''Redirect-Server'' GroupedType,
     AvpDef 435 0 ''Redirect-Server-Address'' UTF8String,
     AvpDef 436 0 ''Requested-Action'' Enumerated,
     AvpDef 437 0 ''Requested-Service-Unit'' GroupedType,
     AvpDef 438 0 ''Restriction-Filter-Rule'' OctetString,
     AvpDef 439 0 ''Service-Identifier'' Unsigned32,
     AvpDef 443 0 ''Subscription-Id'' GroupedType,
     AvpDef 444 0 ''Subscription-Id-Data'' UTF8String,
     AvpDef 446 0 ''Used-Service-Unit'' GroupedType,
     AvpDef 448 0 ''Validity-Time'' Unsigned32,
     AvpDef 449 0 ''Final-Unit-Action'' Enumerated,
     AvpDef 450 0 ''Subscription-Id-Type'' Enumerated,
     AvpDef 451 0 ''Tariff-Time-Change'' TimeType,
     AvpDef 452 0 ''Tariff-Change-Usage'' Enumerated]"

definition avp_table_4 :: "avp_def list" where
  "avp_table_4 =
    [AvpDef 453 0 ''G-S-U-Pool-Identifier'' Unsigned32,
     AvpDef 455 0 ''Multiple-Services-Indicator'' Enumerated,
     AvpDef 456 0 ''Multiple-Services-Credit-Control'' GroupedType,
     AvpDef 457 0 ''G-S-U-Pool-Reference'' GroupedType,
     AvpDef 458 0 ''User-Equipment-Info'' GroupedType,
     AvpDef 459 0 ''User-Equipment-Info-Type'' Enumerated,
     AvpDef 460 0 ''User-Equipment-Info-Value'' OctetString,
     AvpDef 461 0 ''Service-Context-Id'' UTF8String,
     AvpDef 480 0 ''Accounting-Record-Type'' Enumerated,
     AvpDef 485 0 ''Accounting-Record-Number'' Unsigned32,
     AvpDef 400 TGPP ''GBA-UserSecSettings'' OctetString,
     AvpDef 401 TGPP ''Transaction-Identifier'' OctetString,
     AvpDef 402 TGPP ''NAF-Id'' OctetString,
     AvpDef 403 TGPP ''GAA-Service-Identifier'' OctetString,
     AvpDef 404 TGPP ''Key-ExpiryTime'' TimeType,
     AvpDef 405 TGPP ''ME-Key-Material'' OctetString,
     AvpDef 406 TGPP ''UICC-Key-Material'' OctetString,
     AvpDef 407 TGPP ''GBA_U-Awareness-Indicator'' Enumerated,
     AvpDef 408 TGPP ''BootstrapInfoCreationTime'' TimeType,
     AvpDef 409 TGPP ''GUSS-Timestamp'' TimeType,
     AvpDef 410 TGPP ''GBA-Type'' Enumerated,
     AvpDef 421 TGPP ''SHA-256-Indication'' Enumerated,
     AvpDef 600 TGPP ''Visited-Network-Identifier'' OctetString,
     AvpDef 601 TGPP ''Public-Identity'' UTF8String,
     AvpDef 602 TGPP ''Server-Name'' UTF8String]"

definition avp_table_5 :: "avp_def list" where
  "avp_table_5 =
    [AvpDef 603 TGPP ''Server-Capabilities'' GroupedType,
     AvpDef 604 TGPP ''Mandatory-Capability'' Unsigned32,
     AvpDef 605 TGPP ''Optional-Capability'' Unsigned32,
     AvpDef 606 TGPP ''User-Data'' OctetString,
     AvpDef 607 TGPP ''SIP-Number-Auth-Items'' Unsigned32,
     AvpDef 608 TGPP ''SIP-Authentication-Scheme'' UTF8String,
     AvpDef 609 TGPP ''SIP-Authenticate'' OctetString,
     AvpDef 610 TGPP ''SIP-Authorization'' OctetString,
     AvpDef 611 TGPP ''SIP-Authentication-Context'' OctetString,
     AvpDef 612 TGPP ''SIP-Auth-Data-Item'' GroupedType,
     AvpDef 613 TGPP ''SIP-Item-Number'' Unsigned32,
     AvpDef 614 TGPP ''Server-Assignment-Type'' Enumerated,
     AvpDef 615 TGPP ''Deregistration-Reason'' GroupedType,
     AvpDef 616 TGPP ''Reason-Code'' Enumerated,
     AvpDef 617 TGPP ''Reason-Info'' UTF8String,
     AvpDef 618 TGPP ''Charging-Information'' GroupedType,
     AvpDef 619 TGPP ''Primary-Event-Charging-Function-Name'' DiameterIdentity,
     AvpDef 620 TGPP ''Secondary-Event-Charging-Function-Name'' DiameterIdentity,
     AvpDef 621 TGPP ''Primary-Charging-Collection-Function-Name'' DiameterIdentity,
     AvpDef 622 TGPP ''Secondary-Charging-Collection-Function-Name'' DiameterIdentity,
     AvpDef 623 TGPP ''User-Authorization-Type'' Enumerated,
     AvpDef 624 TGPP ''User-Data-Already-Available'' Enumerated,
     AvpDef 625 TGPP ''Confidentiality-Key'' OctetString,
     AvpDef 626 TGPP ''Integrity-Key'' OctetString,
     AvpDef 628 TGPP ''Supported-Features'' GroupedType]"

definition avp_table_6 :: "avp_def list" where
  "avp_table_6 =
    [AvpDef 629 TGPP ''Feature-List-ID'' Unsigned32,
     AvpDef 630 TGPP ''Feature-List'' Unsigned32,
     AvpDef 631 TGPP ''Supported-Applications'' GroupedType,
     AvpDef 632 TGPP ''Associated-Identities'' GroupedType,
     AvpDef 633 TGPP ''Originating-Request'' Enumerated,
     AvpDef 635 TGPP ''SIP-Digest-Authenticate'' GroupedType,
     AvpDef 639 TGPP ''SCSCF-Restoration-Info'' GroupedType,
     AvpDef 640 TGPP ''Path'' OctetString,
     AvpDef 641 TGPP ''Contact'' OctetString,
     AvpDef 642 TGPP ''Subscription-Info'' GroupedType,
     AvpDef 643 TGPP ''Call-ID-SIP-Header'' OctetString,
     AvpDef 644 TGPP ''From-SIP-Header'' OctetString,
     AvpDef 645 TGPP ''To-SIP-Header'' OctetString,
     AvpDef 646 TGPP ''Record-Route'' OctetString,
     AvpDef 647 TGPP ''Associated-Registered-Identities'' GroupedType,
     AvpDef 648 TGPP ''Multiple-Registration-Indication'' Enumerated,
     AvpDef 649 TGPP ''Restoration-Info'' GroupedType,
     AvpDef 654 TGPP ''Initial-CSeq-Sequence-Number'' Unsigned32,
     AvpDef 655 TGPP ''SAR-Flags'' Unsigned32,
     AvpDef 660 TGPP ''P-CSCF-Subscription-Info'' GroupedType,
     AvpDef 661 TGPP ''Registration-Time-Out'' TimeType,
     AvpDef 662 TGPP ''Alternate-Digest-Algorithm'' UTF8String,
     AvpDef 663 TGPP ''Alternate-Digest-HA1'' UTF8String,
     AvpDef 664 TGPP ''Failed-PCSCF'' GroupedType,
     AvpDef 665 TGPP ''PCSCF-FQDN'' DiameterIdentity]"

definition avp_table_7 :: "avp_def list" where
  "avp_table_7 =
    [AvpDef 666 TGPP ''PCSCF-IP-Address'' AddressType,
     AvpDef 700 TGPP ''User-Identity'' GroupedType,
     AvpDef 701 TGPP ''MSISDN'' TbcdString,
     AvpDef 702 TGPP ''User-Data-Sh'' OctetString,
     AvpDef 703 TGPP ''Data-Reference'' Enumerated,
     AvpDef 704 TGPP ''Service-Indication'' OctetString,
     AvpDef 705 TGPP ''Subs-Req-Type'' Enumerated,
     AvpDef 706 TGPP ''Requested-Domain'' Enumerated,
     AvpDef 707 TGPP ''Current-Location'' Enumerated,
     AvpDef 708 TGPP ''Identity-Set'' Enumerated,
     AvpDef 709 TGPP ''Expiry-Time'' TimeType,
     AvpDef 710 TGPP ''Send-Data-Indication'' Enumerated,
     AvpDef 711 TGPP ''DSAI-Tag'' OctetString,
     AvpDef 823 TGPP ''Event-Type'' GroupedType,
     AvpDef 824 TGPP ''SIP-Method'' UTF8String,
     AvpDef 825 TGPP ''Event'' UTF8String,
     AvpDef 829 TGPP ''Role-of-Node'' Enumerated,
     AvpDef 830 TGPP ''User-Session-Id'' UTF8String,
     AvpDef 831 TGPP ''Calling-Party-Address'' UTF8String,
     AvpDef 832 TGPP ''Called-Party-Address'' UTF8String,
     AvpDef 833 TGPP ''Time-Stamps'' GroupedType,
     AvpDef 834 TGPP ''SIP-Request-Timestamp'' TimeType,
     AvpDef 835 TGPP ''SIP-Response-Timestamp'' TimeType,
     AvpDef 836 TGPP ''Application-Server'' UTF8String,
     AvpDef 837 TGPP ''Application-Provided-Called-Party-Address'' UTF8String]"

definition avp_table_8 :: "avp_def list" where
  "avp_table_8 =
    [AvpDef 838 TGPP ''Inter-Operator-Identifier'' GroupedType,
     AvpDef 839 TGPP ''Originating-IOI'' UTF8String,
     AvpDef 840 TGPP ''Terminating-IOI'' UTF8String,
     AvpDef 841 TGPP ''IMS-Charging-Identifier'' UTF8String,
     AvpDef 848 TGPP ''Served-Party-IP-Address'' AddressType,
     AvpDef 850 TGPP ''Application-Server-Information'' GroupedType,
     AvpDef 851 TGPP ''Trunk-Group-Id'' GroupedType,
     AvpDef 852 TGPP ''Incoming-Trunk-Group-Id'' UTF8String,
     AvpDef 853 TGPP ''Outgoing-Trunk-Group-Id'' UTF8String,
     AvpDef 854 TGPP ''Bearer-Service'' OctetString,
     AvpDef 861 TGPP ''Cause-Code'' Integer32,
     AvpDef 862 TGPP ''Node-Functionality'' Enumerated,
     AvpDef 866 TGPP ''PS-Free-Format-Data'' OctetString,
     AvpDef 868 TGPP ''Time-Quota-Threshold'' Unsigned32,
     AvpDef 873 TGPP ''Service-Information'' GroupedType,
     AvpDef 874 TGPP ''PS-Information'' GroupedType,
     AvpDef 876 TGPP ''IMS-Information'' GroupedType,
     AvpDef 886 TGPP ''Originator-Address'' GroupedType,
     AvpDef 897 TGPP ''Address-Data'' UTF8String,
     AvpDef 899 TGPP ''Address-Type'' Enumerated,
     AvpDef 1201 TGPP ''Recipient-Address'' GroupedType,
     AvpDef 1263 TGPP ''Access-Network-Information'' OctetString,
     AvpDef 1400 TGPP ''Subscription-Data'' GroupedType,
     AvpDef 1401 TGPP ''Terminal-Information'' GroupedType,
     AvpDef 1402 TGPP ''IMEI'' UTF8String]"

definition avp_table_9 :: "avp_def list" where
  "avp_table_9 =
    [AvpDef 1403 TGPP ''Software-Version'' UTF8String,
     AvpDef 1405 TGPP ''ULR-Flags'' Unsigned32,
     AvpDef 1406 TGPP ''ULA-Flags'' Unsigned32,
     AvpDef 1407 TGPP ''Visited-PLMN-Id'' OctetString,
     AvpDef 1408 TGPP ''Requested-EUTRAN-Authentication-Info'' GroupedType,
     AvpDef 1410 TGPP ''Number-Of-Requested-Vectors'' Unsigned32,
     AvpDef 1411 TGPP ''Re-Synchronization-Info'' OctetString,
     AvpDef 1412 TGPP ''Immediate-Response-Preferred'' Unsigned32,
     AvpDef 1413 TGPP ''Authentication-Info'' GroupedType,
     AvpDef 1414 TGPP ''E-UTRAN-Vector'' GroupedType,
     AvpDef 1420 TGPP ''Cancellation-Type'' Enumerated,
     AvpDef 1445 TGPP ''Equipment-Status'' Enumerated,
     AvpDef 1447 TGPP ''RAND'' OctetString,
     AvpDef 1448 TGPP ''XRES'' OctetString,
     AvpDef 1449 TGPP ''AUTN'' OctetString,
     AvpDef 1450 TGPP ''KASME'' OctetString,
     AvpDef 1471 TGPP ''3GPP2-MEID'' OctetString,
     AvpDef 1489 TGPP ''SGSN-Number'' TbcdString,
     AvpDef 1635 TGPP ''PUR-Flags'' Unsigned32,
     AvpDef 1645 TGPP ''MME-Number-for-MT-SMS'' TbcdString,
     AvpDef 2000 TGPP ''SMS-Information'' GroupedType,
     AvpDef 2001 TGPP ''Data-Coding-Scheme'' Integer32,
     AvpDef 2007 TGPP ''SM-Message-Type'' Enumerated,
     AvpDef 2008 TGPP ''Originator-SCCP-Address'' AddressType,
     AvpDef 2009 TGPP ''Originator-Interface'' GroupedType]"

definition avp_table_10 :: "avp_def list" where
  "avp_table_10 =
    [AvpDef 2010 TGPP ''Recipient-SCCP-Address'' AddressType,
     AvpDef 2011 TGPP ''Reply-Path-Requested'' Enumerated,
     AvpDef 2012 TGPP ''SM-Discharge-Time'' TimeType,
     AvpDef 2013 TGPP ''SM-Protocol-ID'' OctetString,
     AvpDef 2014 TGPP ''SM-Status'' OctetString,
     AvpDef 2015 TGPP ''SM-User-Data-Header'' OctetString,
     AvpDef 2016 TGPP ''SMS-Node'' Enumerated,
     AvpDef 2017 TGPP ''SMSC-Address'' AddressType,
     AvpDef 2018 TGPP ''Client-Address'' AddressType,
     AvpDef 2019 TGPP ''Number-of-Messages-Sent'' Unsigned32,
     AvpDef 2026 TGPP ''Recipient-Info'' GroupedType,
     AvpDef 2027 TGPP ''Originator-Received-Address'' GroupedType,
     AvpDef 2028 TGPP ''Recipient-Received-Address'' GroupedType,
     AvpDef 2029 TGPP ''SM-Service-Type'' Enumerated,
     AvpDef 2041 TGPP ''Start-Time'' TimeType,
     AvpDef 2042 TGPP ''Stop-Time'' TimeType,
     AvpDef 2401 TGPP ''Serving-Node'' GroupedType,
     AvpDef 2402 TGPP ''MME-Name'' DiameterIdentity,
     AvpDef 2403 TGPP ''MSC-Number'' TbcdString,
     AvpDef 2408 TGPP ''MME-Realm'' DiameterIdentity,
     AvpDef 2409 TGPP ''SGSN-Name'' DiameterIdentity,
     AvpDef 2410 TGPP ''SGSN-Realm'' DiameterIdentity,
     AvpDef 2713 TGPP ''IMS-Visited-Network-Identifier'' UTF8String,
     AvpDef 3010 TGPP ''Application-Port-Identifier'' Unsigned32,
     AvpDef 3102 TGPP ''User-Identifier'' GroupedType]"

definition avp_table_11 :: "avp_def list" where
  "avp_table_11 =
    [AvpDef 3111 TGPP ''External-Identifier'' UTF8String,
     AvpDef 3300 TGPP ''SC-Address'' TbcdString,
     AvpDef 3301 TGPP ''SM-RP-UI'' OctetString,
     AvpDef 3308 TGPP ''SM-RP-MTI'' Enumerated,
     AvpDef 3316 TGPP ''SM-Delivery-Outcome'' GroupedType,
     AvpDef 3317 TGPP ''MME-SM-Delivery-Outcome'' GroupedType,
     AvpDef 3318 TGPP ''MSC-SM-Delivery-Outcome'' GroupedType,
     AvpDef 3319 TGPP ''SGSN-SM-Delivery-Outcome'' GroupedType,
     AvpDef 3320 TGPP ''IP-SM-GW-SM-Delivery-Outcome'' GroupedType,
     AvpDef 3321 TGPP ''SM-Delivery-Cause'' Enumerated,
     AvpDef 3322 TGPP ''Absent-User-Diagnostic-SM'' Unsigned32,
     AvpDef 3324 TGPP ''SMSMI-Correlation-ID'' GroupedType,
     AvpDef 3332 TGPP ''SMS-GMSC-Address'' AddressType,
     AvpDef 3405 TGPP ''SM-Device-Trigger-Information'' GroupedType,
     AvpDef 3406 TGPP ''MTC-IWF-Address'' AddressType,
     AvpDef 3407 TGPP ''SM-Device-Trigger-Indicator'' Enumerated,
     AvpDef 3409 TGPP ''SMS-Result'' Unsigned32,
     AvpDef 3410 TGPP ''VCS-Information'' GroupedType,
     AvpDef 3411 TGPP ''Basic-Service-Code'' GroupedType,
     AvpDef 3412 TGPP ''Bearer-Capability'' OctetString,
     AvpDef 3413 TGPP ''Teleservice'' OctetString,
     AvpDef 3414 TGPP ''ISUP-Location-Number'' OctetString,
     AvpDef 3415 TGPP ''Forwarding-Pending'' Enumerated,
     AvpDef 3416 TGPP ''ISUP-Cause'' GroupedType,
     AvpDef 3417 TGPP ''MSC-Address'' OctetString]"

definition avp_table_12 :: "avp_def list" where
  "avp_table_12 =
    [AvpDef 3418 TGPP ''Network-Call-Reference-Number'' OctetString,
     AvpDef 3419 TGPP ''Start-of-Charging'' TimeType,
     AvpDef 3420 TGPP ''VLR-Number'' OctetString,
     AvpDef 3422 TGPP ''ISUP-Cause-Diagnostics'' OctetString,
     AvpDef 3423 TGPP ''ISUP-Cause-Location'' Unsigned32,
     AvpDef 3424 TGPP ''ISUP-Cause-Value'' Unsigned32]"

definition AVP_TABLE :: "avp_def list" where
  "AVP_TABLE =
     avp_table_1 @ avp_table_2 @ avp_table_3 @ avp_table_4 @ avp_table_5 @ avp_table_6 @ avp_table_7 @ avp_table_8 @ avp_table_9 @ avp_table_10 @ avp_table_11 @ avp_table_12"

text \<open>The policy and charging control AVPs with their M bit, sorted by code.\<close>

datatype policy_avp = PolicyAvp (pol_definition: avp_def) (pol_mandatory: bool)

definition policy_avp_of :: "nat \<Rightarrow> string \<Rightarrow> avp_type \<Rightarrow> bool \<Rightarrow> policy_avp" where
  "policy_avp_of code name t mandatory = PolicyAvp (AvpDef code TGPP name t) mandatory"

definition policy_avps_1 :: "policy_avp list" where
  "policy_avps_1 =
    [policy_avp_of 6 ''3GPP-SGSN-Address'' OctetString False,
     policy_avp_of 7 ''3GPP-GGSN-Address'' OctetString False,
     policy_avp_of 12 ''3GPP-Selection-Mode'' UTF8String False,
     policy_avp_of 13 ''3GPP-Charging-Characteristics'' UTF8String False,
     policy_avp_of 15 ''3GPP-SGSN-IPv6-Address'' OctetString False,
     policy_avp_of 16 ''3GPP-GGSN-IPv6-Address'' OctetString False,
     policy_avp_of 18 ''3GPP-SGSN-MCC-MNC'' UTF8String False,
     policy_avp_of 21 ''3GPP-RAT-Type'' OctetString False,
     policy_avp_of 22 ''3GPP-User-Location-Info'' OctetString False,
     policy_avp_of 23 ''3GPP-MS-TimeZone'' OctetString False,
     policy_avp_of 500 ''Abort-Cause'' Enumerated True,
     policy_avp_of 501 ''Access-Network-Charging-Address'' AddressType True,
     policy_avp_of 502 ''Access-Network-Charging-Identifier'' GroupedType True,
     policy_avp_of 503 ''Access-Network-Charging-Identifier-Value'' OctetString True,
     policy_avp_of 504 ''AF-Application-Identifier'' OctetString True,
     policy_avp_of 505 ''AF-Charging-Identifier'' OctetString True,
     policy_avp_of 507 ''Flow-Description'' OctetString True,
     policy_avp_of 508 ''Flow-Grouping'' GroupedType True,
     policy_avp_of 509 ''Flow-Number'' Unsigned32 True,
     policy_avp_of 510 ''Flows'' GroupedType True,
     policy_avp_of 511 ''Flow-Status'' Enumerated True,
     policy_avp_of 512 ''Flow-Usage'' Enumerated True,
     policy_avp_of 513 ''Specific-Action'' Enumerated True,
     policy_avp_of 515 ''Max-Requested-Bandwidth-DL'' Unsigned32 True,
     policy_avp_of 516 ''Max-Requested-Bandwidth-UL'' Unsigned32 True,
     policy_avp_of 517 ''Media-Component-Description'' GroupedType True,
     policy_avp_of 518 ''Media-Component-Number'' Unsigned32 True,
     policy_avp_of 519 ''Media-Sub-Component'' GroupedType True,
     policy_avp_of 520 ''Media-Type'' Enumerated True,
     policy_avp_of 521 ''RR-Bandwidth'' Unsigned32 True,
     policy_avp_of 522 ''RS-Bandwidth'' Unsigned32 True,
     policy_avp_of 523 ''SIP-Forking-Indication'' Enumerated True,
     policy_avp_of 524 ''Codec-Data'' OctetString True,
     policy_avp_of 525 ''Service-URN'' OctetString True,
     policy_avp_of 526 ''Acceptable-Service-Info'' GroupedType True,
     policy_avp_of 527 ''Service-Info-Status'' Enumerated True,
     policy_avp_of 528 ''MPS-Identifier'' OctetString False,
     policy_avp_of 529 ''AF-Signalling-Protocol'' Enumerated False,
     policy_avp_of 530 ''Sponsored-Connectivity-Data'' GroupedType False,
     policy_avp_of 531 ''Sponsor-Identity'' UTF8String False,
     policy_avp_of 532 ''Application-Service-Provider-Identity'' UTF8String False,
     policy_avp_of 533 ''Rx-Request-Type'' Enumerated False,
     policy_avp_of 534 ''Min-Requested-Bandwidth-DL'' Unsigned32 False,
     policy_avp_of 535 ''Min-Requested-Bandwidth-UL'' Unsigned32 False]"

definition policy_avps_2 :: "policy_avp list" where
  "policy_avps_2 =
    [policy_avp_of 536 ''Required-Access-Info'' Enumerated False,
     policy_avp_of 537 ''IP-Domain-Id'' OctetString False,
     policy_avp_of 538 ''GCS-Identifier'' OctetString False,
     policy_avp_of 539 ''Sharing-Key-DL'' Unsigned32 False,
     policy_avp_of 540 ''Sharing-Key-UL'' Unsigned32 False,
     policy_avp_of 541 ''Retry-Interval'' Unsigned32 False,
     policy_avp_of 542 ''Sponsoring-Action'' Enumerated False,
     policy_avp_of 543 ''Max-Supported-Bandwidth-DL'' Unsigned32 False,
     policy_avp_of 544 ''Max-Supported-Bandwidth-UL'' Unsigned32 False,
     policy_avp_of 545 ''Min-Desired-Bandwidth-DL'' Unsigned32 False,
     policy_avp_of 546 ''Min-Desired-Bandwidth-UL'' Unsigned32 False,
     policy_avp_of 547 ''MCPTT-Identifier'' OctetString False,
     policy_avp_of 548 ''Service-Authorization-Info'' Unsigned32 False,
     policy_avp_of 549 ''Media-Component-Status'' Unsigned32 False,
     policy_avp_of 550 ''Priority-Sharing-Indicator'' Enumerated False,
     policy_avp_of 551 ''AF-Requested-Data'' Unsigned32 False,
     policy_avp_of 552 ''Content-Version'' Unsigned64 False,
     policy_avp_of 553 ''Pre-emption-Control-Info'' Unsigned32 False,
     policy_avp_of 554 ''Extended-Max-Requested-BW-DL'' Unsigned32 False,
     policy_avp_of 555 ''Extended-Max-Requested-BW-UL'' Unsigned32 False,
     policy_avp_of 556 ''Extended-Max-Supported-BW-DL'' Unsigned32 False,
     policy_avp_of 557 ''Extended-Max-Supported-BW-UL'' Unsigned32 False,
     policy_avp_of 558 ''Extended-Min-Desired-BW-DL'' Unsigned32 False,
     policy_avp_of 559 ''Extended-Min-Desired-BW-UL'' Unsigned32 False,
     policy_avp_of 560 ''Extended-Min-Requested-BW-DL'' Unsigned32 False,
     policy_avp_of 561 ''Extended-Min-Requested-BW-UL'' Unsigned32 False,
     policy_avp_of 562 ''MCVideo-Identifier'' OctetString False,
     policy_avp_of 563 ''IMS-Content-Identifier'' OctetString False,
     policy_avp_of 564 ''IMS-Content-Type'' Enumerated False,
     policy_avp_of 565 ''Callee-Information'' GroupedType False,
     policy_avp_of 566 ''FLUS-Identifier'' OctetString False,
     policy_avp_of 569 ''NID'' OctetString False,
     policy_avp_of 570 ''MA-Information'' GroupedType False,
     policy_avp_of 571 ''MA-Information-Action'' Unsigned32 False,
     policy_avp_of 572 ''5GS-RAN-NAS-Release-Cause'' GroupedType False,
     policy_avp_of 573 ''5GMM-Cause'' Unsigned32 False,
     policy_avp_of 574 ''5GSM-Cause'' Unsigned32 False,
     policy_avp_of 575 ''NGAP-Cause'' GroupedType False,
     policy_avp_of 576 ''NGAP-Group'' Unsigned32 False,
     policy_avp_of 577 ''NGAP-Value'' Unsigned32 False,
     policy_avp_of 578 ''Wireline-User-Location-Info'' GroupedType False,
     policy_avp_of 579 ''HFC-Node-Identifier'' OctetString False,
     policy_avp_of 580 ''GLI-Identifier'' OctetString False,
     policy_avp_of 581 ''Line-Type'' Unsigned32 False]"

definition policy_avps_3 :: "policy_avp list" where
  "policy_avps_3 =
    [policy_avp_of 582 ''MPS-Action'' Enumerated False,
     policy_avp_of 1000 ''Bearer-Usage'' Enumerated True,
     policy_avp_of 1001 ''Charging-Rule-Install'' GroupedType True,
     policy_avp_of 1002 ''Charging-Rule-Remove'' GroupedType True,
     policy_avp_of 1003 ''Charging-Rule-Definition'' GroupedType True,
     policy_avp_of 1004 ''Charging-Rule-Base-Name'' UTF8String True,
     policy_avp_of 1005 ''Charging-Rule-Name'' OctetString True,
     policy_avp_of 1006 ''Event-Trigger'' Enumerated True,
     policy_avp_of 1007 ''Metering-Method'' Enumerated True,
     policy_avp_of 1008 ''Offline'' Enumerated True,
     policy_avp_of 1009 ''Online'' Enumerated True,
     policy_avp_of 1010 ''Precedence'' Unsigned32 True,
     policy_avp_of 1011 ''Reporting-Level'' Enumerated True,
     policy_avp_of 1012 ''TFT-Filter'' OctetString True,
     policy_avp_of 1013 ''TFT-Packet-Filter-Information'' GroupedType True,
     policy_avp_of 1014 ''ToS-Traffic-Class'' OctetString True,
     policy_avp_of 1016 ''QoS-Information'' GroupedType True,
     policy_avp_of 1018 ''Charging-Rule-Report'' GroupedType True,
     policy_avp_of 1019 ''PCC-Rule-Status'' Enumerated True,
     policy_avp_of 1020 ''Bearer-Identifier'' OctetString True,
     policy_avp_of 1021 ''Bearer-Operation'' Enumerated True,
     policy_avp_of 1022 ''Access-Network-Charging-Identifier-Gx'' GroupedType True,
     policy_avp_of 1023 ''Bearer-Control-Mode'' Enumerated True,
     policy_avp_of 1024 ''Network-Request-Support'' Enumerated True,
     policy_avp_of 1025 ''Guaranteed-Bitrate-DL'' Unsigned32 True,
     policy_avp_of 1026 ''Guaranteed-Bitrate-UL'' Unsigned32 True,
     policy_avp_of 1027 ''IP-CAN-Type'' Enumerated True,
     policy_avp_of 1028 ''QoS-Class-Identifier'' Enumerated True,
     policy_avp_of 1029 ''QoS-Negotiation'' Enumerated True,
     policy_avp_of 1030 ''QoS-Upgrade'' Enumerated True,
     policy_avp_of 1031 ''Rule-Failure-Code'' Enumerated True,
     policy_avp_of 1032 ''RAT-Type'' Enumerated False,
     policy_avp_of 1033 ''Event-Report-Indication'' GroupedType False,
     policy_avp_of 1034 ''Allocation-Retention-Priority'' GroupedType False,
     policy_avp_of 1035 ''CoA-IP-Address'' AddressType False,
     policy_avp_of 1036 ''Tunnel-Header-Filter'' OctetString False,
     policy_avp_of 1037 ''Tunnel-Header-Length'' Unsigned32 False,
     policy_avp_of 1038 ''Tunnel-Information'' GroupedType False,
     policy_avp_of 1039 ''CoA-Information'' GroupedType False,
     policy_avp_of 1040 ''APN-Aggregate-Max-Bitrate-DL'' Unsigned32 False,
     policy_avp_of 1041 ''APN-Aggregate-Max-Bitrate-UL'' Unsigned32 False,
     policy_avp_of 1042 ''Revalidation-Time'' TimeType True,
     policy_avp_of 1043 ''Rule-Activation-Time'' TimeType True,
     policy_avp_of 1044 ''Rule-Deactivation-Time'' TimeType True]"

definition policy_avps_4 :: "policy_avp list" where
  "policy_avps_4 =
    [policy_avp_of 1045 ''Session-Release-Cause'' Enumerated True,
     policy_avp_of 1046 ''Priority-Level'' Unsigned32 False,
     policy_avp_of 1047 ''Pre-emption-Capability'' Enumerated False,
     policy_avp_of 1048 ''Pre-emption-Vulnerability'' Enumerated False,
     policy_avp_of 1049 ''Default-EPS-Bearer-QoS'' GroupedType False,
     policy_avp_of 1050 ''AN-GW-Address'' AddressType False,
     policy_avp_of 1056 ''Security-Parameter-Index'' OctetString False,
     policy_avp_of 1057 ''Flow-Label'' OctetString False,
     policy_avp_of 1058 ''Flow-Information'' GroupedType False,
     policy_avp_of 1059 ''Packet-Filter-Content'' OctetString False,
     policy_avp_of 1060 ''Packet-Filter-Identifier'' OctetString False,
     policy_avp_of 1061 ''Packet-Filter-Information'' GroupedType False,
     policy_avp_of 1062 ''Packet-Filter-Operation'' Enumerated False,
     policy_avp_of 1063 ''Resource-Allocation-Notification'' Enumerated False,
     policy_avp_of 1065 ''PDN-Connection-ID'' OctetString False,
     policy_avp_of 1066 ''Monitoring-Key'' OctetString False,
     policy_avp_of 1067 ''Usage-Monitoring-Information'' GroupedType False,
     policy_avp_of 1068 ''Usage-Monitoring-Level'' Enumerated False,
     policy_avp_of 1069 ''Usage-Monitoring-Report'' Enumerated False,
     policy_avp_of 1070 ''Usage-Monitoring-Support'' Enumerated False,
     policy_avp_of 1071 ''CSG-Information-Reporting'' Enumerated False,
     policy_avp_of 1072 ''Packet-Filter-Usage'' Enumerated False,
     policy_avp_of 1073 ''Charging-Correlation-Indicator'' Enumerated False,
     policy_avp_of 1075 ''Routing-Rule-Remove'' GroupedType False,
     policy_avp_of 1076 ''Routing-Rule-Definition'' GroupedType False,
     policy_avp_of 1077 ''Routing-Rule-Identifier'' OctetString False,
     policy_avp_of 1078 ''Routing-Filter'' GroupedType False,
     policy_avp_of 1079 ''Routing-IP-Address'' AddressType False,
     policy_avp_of 1080 ''Flow-Direction'' Enumerated False,
     policy_avp_of 1081 ''Routing-Rule-Install'' GroupedType False,
     policy_avp_of 1082 ''Credit-Management-Status'' Unsigned32 False,
     policy_avp_of 1085 ''Redirect-Information'' GroupedType False,
     policy_avp_of 1086 ''Redirect-Support'' Enumerated False,
     policy_avp_of 1087 ''TDF-Information'' GroupedType False,
     policy_avp_of 1088 ''TDF-Application-Identifier'' OctetString False,
     policy_avp_of 1089 ''TDF-Destination-Host'' DiameterIdentity False,
     policy_avp_of 1090 ''TDF-Destination-Realm'' DiameterIdentity False,
     policy_avp_of 1091 ''TDF-IP-Address'' AddressType False,
     policy_avp_of 1098 ''Application-Detection-Information'' GroupedType False,
     policy_avp_of 1099 ''PS-to-CS-Session-Continuity'' Enumerated False,
     policy_avp_of 2802 ''TDF-Application-Instance-Identifier'' OctetString False,
     policy_avp_of 2804 ''HeNB-Local-IP-Address'' AddressType False,
     policy_avp_of 2805 ''UE-Local-IP-Address'' AddressType False,
     policy_avp_of 2806 ''UDP-Source-Port'' Unsigned32 False]"

definition policy_avps_5 :: "policy_avp list" where
  "policy_avps_5 =
    [policy_avp_of 2809 ''Mute-Notification'' Enumerated False,
     policy_avp_of 2810 ''Monitoring-Time'' TimeType False,
     policy_avp_of 2811 ''AN-GW-Status'' Enumerated False,
     policy_avp_of 2812 ''User-Location-Info-Time'' TimeType False,
     policy_avp_of 2816 ''Default-QoS-Information'' GroupedType False,
     policy_avp_of 2817 ''Default-QoS-Name'' UTF8String False,
     policy_avp_of 2818 ''Conditional-APN-Aggregate-Max-Bitrate'' GroupedType False,
     policy_avp_of 2819 ''RAN-NAS-Release-Cause'' OctetString False,
     policy_avp_of 2820 ''Presence-Reporting-Area-Elements-List'' OctetString False,
     policy_avp_of 2821 ''Presence-Reporting-Area-Identifier'' OctetString False,
     policy_avp_of 2822 ''Presence-Reporting-Area-Information'' GroupedType False,
     policy_avp_of 2823 ''Presence-Reporting-Area-Status'' Unsigned32 False,
     policy_avp_of 2824 ''NetLoc-Access-Support'' Unsigned32 False,
     policy_avp_of 2825 ''Fixed-User-Location-Info'' GroupedType False,
     policy_avp_of 2826 ''PCSCF-Restoration-Indication'' Unsigned32 False,
     policy_avp_of 2827 ''IP-CAN-Session-Charging-Scope'' Enumerated False,
     policy_avp_of 2828 ''Monitoring-Flags'' Unsigned32 False,
     policy_avp_of 2829 ''Default-Access'' Enumerated False,
     policy_avp_of 2830 ''NBIFOM-Mode'' Enumerated False,
     policy_avp_of 2831 ''NBIFOM-Support'' Enumerated False,
     policy_avp_of 2832 ''RAN-Rule-Support'' Unsigned32 False,
     policy_avp_of 2833 ''Access-Availability-Change-Reason'' Unsigned32 False,
     policy_avp_of 2834 ''Routing-Rule-Failure-Code'' Unsigned32 False,
     policy_avp_of 2835 ''Routing-Rule-Report'' GroupedType False,
     policy_avp_of 2836 ''Traffic-Steering-Policy-Identifier-DL'' OctetString False,
     policy_avp_of 2837 ''Traffic-Steering-Policy-Identifier-UL'' OctetString False,
     policy_avp_of 2839 ''Execution-Time'' TimeType False,
     policy_avp_of 2840 ''Conditional-Policy-Information'' GroupedType False,
     policy_avp_of 2841 ''Resource-Release-Notification'' Enumerated False,
     policy_avp_of 2842 ''Removal-Of-Access'' Enumerated False,
     policy_avp_of 2843 ''TCP-Source-Port'' Unsigned32 False,
     policy_avp_of 2844 ''Default-Bearer-Indication'' Enumerated False,
     policy_avp_of 2845 ''PRA-Install'' GroupedType False,
     policy_avp_of 2846 ''PRA-Remove'' GroupedType False,
     policy_avp_of 2847 ''3GPP-PS-Data-Off-Status'' Enumerated False,
     policy_avp_of 2848 ''Extended-APN-AMBR-DL'' Unsigned32 False,
     policy_avp_of 2849 ''Extended-APN-AMBR-UL'' Unsigned32 False,
     policy_avp_of 2850 ''Extended-GBR-DL'' Unsigned32 False,
     policy_avp_of 2851 ''Extended-GBR-UL'' Unsigned32 False,
     policy_avp_of 2854 ''UE-Status'' Unsigned32 False,
     policy_avp_of 2855 ''Presence-Reporting-Area-Node'' Unsigned32 False]"

definition POLICY_AVPS :: "policy_avp list" where
  "POLICY_AVPS = policy_avps_1 @ policy_avps_2 @ policy_avps_3 @ policy_avps_4 @ policy_avps_5"

subsection \<open>Lookups\<close>

definition policy_lookup :: "nat \<Rightarrow> policy_avp option" where
  "policy_lookup code =
     map_option (\<lambda>i. POLICY_AVPS ! i)
       (binary_search_by (\<lambda>e. compare_to code (def_code (pol_definition e))) POLICY_AVPS)"

definition def_key :: "avp_def \<Rightarrow> nat \<times> nat" where
  "def_key d = (def_vendor d, def_code d)"

definition lookup_avp :: "nat \<Rightarrow> nat \<Rightarrow> avp_def option" where
  "lookup_avp code vendor_id =
     (case (if vendor_id = TGPP then policy_lookup code else None) of
        Some e \<Rightarrow> Some (pol_definition e)
      | None \<Rightarrow>
          map_option (\<lambda>i. AVP_TABLE ! i)
            (binary_search_by (\<lambda>e. compare_to (vendor_id, code) (def_key e)) AVP_TABLE))"

definition all_definitions :: "avp_def list" where
  "all_definitions = AVP_TABLE @ map pol_definition POLICY_AVPS"

definition lookup_by_name :: "string \<Rightarrow> avp_def option" where
  "lookup_by_name name = find (\<lambda>d. def_name d = name) all_definitions"

text \<open>Two names are the same in a script when they agree up to case and up to underscores for hyphens.\<close>

definition fold_char :: "char \<Rightarrow> char" where
  "fold_char c = lower_char (if c = CHR ''_'' then CHR ''-'' else c)"

definition lookup_avp_by_python_name :: "string \<Rightarrow> avp_def option" where
  "lookup_avp_by_python_name name =
     find (\<lambda>d. length (def_name d) = length name
             \<and> list_all (\<lambda>(l, r). fold_char l = fold_char r) (zip (def_name d) name)) all_definitions"

definition avp_is_mandatory :: "nat \<Rightarrow> nat \<Rightarrow> bool" where
  "avp_is_mandatory code vendor_id =
     (case (if vendor_id = TGPP then policy_lookup code else None) of
        Some e \<Rightarrow> pol_mandatory e
      | None \<Rightarrow>
          if vendor_id = TGPP then
            \<not> (code \<in> {409, 629, 630, 654, 655, 660, 661} \<or> 639 \<le> code \<and> code \<le> 649 \<or> 664 \<le> code \<and> code \<le> 666)
          else if vendor_id = 0 then code \<notin> {267, 269, 281, 294}
          else True)"

definition avp_name :: "nat \<Rightarrow> string option" where
  "avp_name code =
     map_option def_name (case lookup_avp code 0 of Some d \<Rightarrow> Some d | None \<Rightarrow> lookup_avp code TGPP)"

definition avp_count :: nat where
  "avp_count = length AVP_TABLE + length POLICY_AVPS"

subsection \<open>Applications and commands\<close>

abbreviation (input) CX_APP_ID :: nat where "CX_APP_ID \<equiv> 16777216"
abbreviation (input) SH_APP_ID :: nat where "SH_APP_ID \<equiv> 16777217"
abbreviation (input) GX_APP_ID :: nat where "GX_APP_ID \<equiv> 16777238"
abbreviation (input) RX_APP_ID :: nat where "RX_APP_ID \<equiv> 16777236"
abbreviation (input) RO_APP_ID :: nat where "RO_APP_ID \<equiv> 4"
abbreviation (input) RF_APP_ID :: nat where "RF_APP_ID \<equiv> 3"
abbreviation (input) S6C_APP_ID :: nat where "S6C_APP_ID \<equiv> 16777312"
abbreviation (input) SGD_APP_ID :: nat where "SGD_APP_ID \<equiv> 16777313"
abbreviation (input) S6A_APP_ID :: nat where "S6A_APP_ID \<equiv> 16777251"
abbreviation (input) S13_APP_ID :: nat where "S13_APP_ID \<equiv> 16777252"
abbreviation (input) ZH_APP_ID :: nat where "ZH_APP_ID \<equiv> 16777221"
abbreviation (input) ZN_APP_ID :: nat where "ZN_APP_ID \<equiv> 16777220"
abbreviation (input) RELAY_APP_ID :: nat where "RELAY_APP_ID \<equiv> 0xFFFFFFFF"

definition app_ids :: "(string \<times> nat \<times> nat) list" where
  "app_ids =
    [(''cx'', TGPP, CX_APP_ID), (''sh'', TGPP, SH_APP_ID), (''gx'', TGPP, GX_APP_ID),
     (''rx'', TGPP, RX_APP_ID), (''ro'', 0, RO_APP_ID), (''rf'', 0, RF_APP_ID),
     (''s6c'', TGPP, S6C_APP_ID), (''sgd'', TGPP, SGD_APP_ID), (''s6a'', TGPP, S6A_APP_ID),
     (''s13'', TGPP, S13_APP_ID), (''zh'', TGPP, ZH_APP_ID), (''zn'', TGPP, ZN_APP_ID)]"

definition app_id_by_name :: "string \<Rightarrow> (nat \<times> nat) option" where
  "app_id_by_name name = map_of app_ids (to_lower name)"

definition is_accounting_application :: "nat \<Rightarrow> bool" where
  "is_accounting_application app_id \<longleftrightarrow> app_id = RF_APP_ID"

definition app_names :: "(nat \<times> string) list" where
  "app_names =
    [(CX_APP_ID, ''Cx''), (SH_APP_ID, ''Sh''), (GX_APP_ID, ''Gx''), (RX_APP_ID, ''Rx''),
     (RO_APP_ID, ''Ro''), (RF_APP_ID, ''Rf''), (S6C_APP_ID, ''S6c''), (SGD_APP_ID, ''SGd''),
     (S6A_APP_ID, ''S6a''), (S13_APP_ID, ''S13''), (ZH_APP_ID, ''Zh''), (ZN_APP_ID, ''Zn'')]"

definition app_name_by_id :: "nat \<Rightarrow> string option" where
  "app_name_by_id app_id = map_of app_names app_id"

abbreviation (input) CMD_USER_AUTHORIZATION :: nat where "CMD_USER_AUTHORIZATION \<equiv> 300"
abbreviation (input) CMD_SERVER_ASSIGNMENT :: nat where "CMD_SERVER_ASSIGNMENT \<equiv> 301"
abbreviation (input) CMD_LOCATION_INFO :: nat where "CMD_LOCATION_INFO \<equiv> 302"
abbreviation (input) CMD_MULTIMEDIA_AUTH :: nat where "CMD_MULTIMEDIA_AUTH \<equiv> 303"
abbreviation (input) CMD_REGISTRATION_TERMINATION :: nat where "CMD_REGISTRATION_TERMINATION \<equiv> 304"
abbreviation (input) CMD_PUSH_PROFILE :: nat where "CMD_PUSH_PROFILE \<equiv> 305"
abbreviation (input) CMD_SH_USER_DATA :: nat where "CMD_SH_USER_DATA \<equiv> 306"
abbreviation (input) CMD_SH_PROFILE_UPDATE :: nat where "CMD_SH_PROFILE_UPDATE \<equiv> 307"
abbreviation (input) CMD_SH_SUBSCRIBE_NOTIFICATIONS :: nat where "CMD_SH_SUBSCRIBE_NOTIFICATIONS \<equiv> 308"
abbreviation (input) CMD_SH_PUSH_NOTIFICATION :: nat where "CMD_SH_PUSH_NOTIFICATION \<equiv> 309"
abbreviation (input) CMD_CREDIT_CONTROL :: nat where "CMD_CREDIT_CONTROL \<equiv> 272"
abbreviation (input) CMD_RE_AUTH :: nat where "CMD_RE_AUTH \<equiv> 258"
abbreviation (input) CMD_ABORT_SESSION :: nat where "CMD_ABORT_SESSION \<equiv> 274"
abbreviation (input) CMD_AA :: nat where "CMD_AA \<equiv> 265"
abbreviation (input) CMD_SESSION_TERMINATION :: nat where "CMD_SESSION_TERMINATION \<equiv> 275"
abbreviation (input) CMD_ACCOUNTING :: nat where "CMD_ACCOUNTING \<equiv> 271"
abbreviation (input) CMD_SEND_ROUTING_INFO_FOR_SM :: nat where "CMD_SEND_ROUTING_INFO_FOR_SM \<equiv> 8388647"
abbreviation (input) CMD_ALERT_SERVICE_CENTRE :: nat where "CMD_ALERT_SERVICE_CENTRE \<equiv> 8388648"
abbreviation (input) CMD_REPORT_SM_DELIVERY_STATUS :: nat where "CMD_REPORT_SM_DELIVERY_STATUS \<equiv> 8388649"
abbreviation (input) CMD_MO_FORWARD_SHORT_MESSAGE :: nat where "CMD_MO_FORWARD_SHORT_MESSAGE \<equiv> 8388645"
abbreviation (input) CMD_MT_FORWARD_SHORT_MESSAGE :: nat where "CMD_MT_FORWARD_SHORT_MESSAGE \<equiv> 8388646"
abbreviation (input) CMD_UPDATE_LOCATION :: nat where "CMD_UPDATE_LOCATION \<equiv> 316"
abbreviation (input) CMD_CANCEL_LOCATION :: nat where "CMD_CANCEL_LOCATION \<equiv> 317"
abbreviation (input) CMD_AUTHENTICATION_INFORMATION :: nat where "CMD_AUTHENTICATION_INFORMATION \<equiv> 318"
abbreviation (input) CMD_INSERT_SUBSCRIBER_DATA :: nat where "CMD_INSERT_SUBSCRIBER_DATA \<equiv> 319"
abbreviation (input) CMD_DELETE_SUBSCRIBER_DATA :: nat where "CMD_DELETE_SUBSCRIBER_DATA \<equiv> 320"
abbreviation (input) CMD_PURGE_UE :: nat where "CMD_PURGE_UE \<equiv> 321"
abbreviation (input) CMD_NOTIFY :: nat where "CMD_NOTIFY \<equiv> 323"
abbreviation (input) CMD_ME_IDENTITY_CHECK :: nat where "CMD_ME_IDENTITY_CHECK \<equiv> 324"
abbreviation (input) CMD_BOOTSTRAPPING_INFO :: nat where "CMD_BOOTSTRAPPING_INFO \<equiv> 310"
abbreviation (input) CMD_CAPABILITIES_EXCHANGE :: nat where "CMD_CAPABILITIES_EXCHANGE \<equiv> 257"
abbreviation (input) CMD_DEVICE_WATCHDOG :: nat where "CMD_DEVICE_WATCHDOG \<equiv> 280"
abbreviation (input) CMD_DISCONNECT_PEER :: nat where "CMD_DISCONNECT_PEER \<equiv> 282"

definition command_codes :: "(string \<times> nat) list" where
  "command_codes =
    [(''user-authorization'', CMD_USER_AUTHORIZATION), (''uar'', CMD_USER_AUTHORIZATION), (''uaa'', CMD_USER_AUTHORIZATION),
     (''server-assignment'', CMD_SERVER_ASSIGNMENT), (''sar'', CMD_SERVER_ASSIGNMENT), (''saa'', CMD_SERVER_ASSIGNMENT),
     (''location-info'', CMD_LOCATION_INFO), (''lir'', CMD_LOCATION_INFO), (''lia'', CMD_LOCATION_INFO),
     (''multimedia-auth'', CMD_MULTIMEDIA_AUTH), (''mar'', CMD_MULTIMEDIA_AUTH), (''maa'', CMD_MULTIMEDIA_AUTH),
     (''registration-termination'', CMD_REGISTRATION_TERMINATION), (''rtr'', CMD_REGISTRATION_TERMINATION), (''rta'', CMD_REGISTRATION_TERMINATION),
     (''push-profile'', CMD_PUSH_PROFILE), (''ppr'', CMD_PUSH_PROFILE), (''ppa'', CMD_PUSH_PROFILE),
     (''user-data'', CMD_SH_USER_DATA), (''udr'', CMD_SH_USER_DATA), (''uda'', CMD_SH_USER_DATA),
     (''profile-update'', CMD_SH_PROFILE_UPDATE), (''pur'', CMD_SH_PROFILE_UPDATE), (''pua'', CMD_SH_PROFILE_UPDATE),
     (''subscribe-notifications'', CMD_SH_SUBSCRIBE_NOTIFICATIONS), (''snr'', CMD_SH_SUBSCRIBE_NOTIFICATIONS), (''sna'', CMD_SH_SUBSCRIBE_NOTIFICATIONS),
     (''push-notification'', CMD_SH_PUSH_NOTIFICATION), (''pnr'', CMD_SH_PUSH_NOTIFICATION), (''pna'', CMD_SH_PUSH_NOTIFICATION),
     (''credit-control'', CMD_CREDIT_CONTROL), (''ccr'', CMD_CREDIT_CONTROL), (''cca'', CMD_CREDIT_CONTROL),
     (''re-auth'', CMD_RE_AUTH), (''rar'', CMD_RE_AUTH), (''raa'', CMD_RE_AUTH),
     (''abort-session'', CMD_ABORT_SESSION), (''asr'', CMD_ABORT_SESSION), (''asa'', CMD_ABORT_SESSION),
     (''aa'', CMD_AA), (''aar'', CMD_AA), (''aaa'', CMD_AA),
     (''session-termination'', CMD_SESSION_TERMINATION), (''str'', CMD_SESSION_TERMINATION), (''sta'', CMD_SESSION_TERMINATION),
     (''accounting'', CMD_ACCOUNTING), (''acr'', CMD_ACCOUNTING), (''aca'', CMD_ACCOUNTING),
     (''send-routing-info-for-sm'', CMD_SEND_ROUTING_INFO_FOR_SM), (''srr'', CMD_SEND_ROUTING_INFO_FOR_SM), (''sra'', CMD_SEND_ROUTING_INFO_FOR_SM),
     (''alert-service-centre'', CMD_ALERT_SERVICE_CENTRE), (''alert-sc'', CMD_ALERT_SERVICE_CENTRE), (''alr'', CMD_ALERT_SERVICE_CENTRE),
     (''ala'', CMD_ALERT_SERVICE_CENTRE), (''report-sm-delivery-status'', CMD_REPORT_SM_DELIVERY_STATUS), (''rsr'', CMD_REPORT_SM_DELIVERY_STATUS),
     (''rsa'', CMD_REPORT_SM_DELIVERY_STATUS), (''mo-forward-short-message'', CMD_MO_FORWARD_SHORT_MESSAGE), (''ofr'', CMD_MO_FORWARD_SHORT_MESSAGE),
     (''ofa'', CMD_MO_FORWARD_SHORT_MESSAGE), (''mt-forward-short-message'', CMD_MT_FORWARD_SHORT_MESSAGE), (''tfr'', CMD_MT_FORWARD_SHORT_MESSAGE),
     (''tfa'', CMD_MT_FORWARD_SHORT_MESSAGE), (''update-location'', CMD_UPDATE_LOCATION), (''ulr'', CMD_UPDATE_LOCATION),
     (''ula'', CMD_UPDATE_LOCATION), (''cancel-location'', CMD_CANCEL_LOCATION), (''clr'', CMD_CANCEL_LOCATION),
     (''cla'', CMD_CANCEL_LOCATION), (''authentication-information'', CMD_AUTHENTICATION_INFORMATION), (''air'', CMD_AUTHENTICATION_INFORMATION),
     (''aia'', CMD_AUTHENTICATION_INFORMATION), (''insert-subscriber-data'', CMD_INSERT_SUBSCRIBER_DATA), (''idr'', CMD_INSERT_SUBSCRIBER_DATA),
     (''ida'', CMD_INSERT_SUBSCRIBER_DATA), (''delete-subscriber-data'', CMD_DELETE_SUBSCRIBER_DATA), (''dsr'', CMD_DELETE_SUBSCRIBER_DATA),
     (''dsa'', CMD_DELETE_SUBSCRIBER_DATA), (''purge-ue'', CMD_PURGE_UE), (''pua-s6a'', CMD_PURGE_UE),
     (''notify'', CMD_NOTIFY), (''nor'', CMD_NOTIFY), (''noa'', CMD_NOTIFY),
     (''me-identity-check'', CMD_ME_IDENTITY_CHECK), (''ecr'', CMD_ME_IDENTITY_CHECK), (''eca'', CMD_ME_IDENTITY_CHECK),
     (''bootstrapping-info'', CMD_BOOTSTRAPPING_INFO), (''bir'', CMD_BOOTSTRAPPING_INFO), (''bia'', CMD_BOOTSTRAPPING_INFO),
     (''capabilities-exchange'', CMD_CAPABILITIES_EXCHANGE), (''cer'', CMD_CAPABILITIES_EXCHANGE), (''cea'', CMD_CAPABILITIES_EXCHANGE),
     (''device-watchdog'', CMD_DEVICE_WATCHDOG), (''dwr'', CMD_DEVICE_WATCHDOG), (''dwa'', CMD_DEVICE_WATCHDOG),
     (''disconnect-peer'', CMD_DISCONNECT_PEER), (''dpr'', CMD_DISCONNECT_PEER), (''dpa'', CMD_DISCONNECT_PEER)]"

definition command_code_by_name :: "string \<Rightarrow> nat option" where
  "command_code_by_name name =
     (let lower = to_lower name
      in map_of command_codes
           (case strip_suffix ''-request'' lower of
              Some s \<Rightarrow> s
            | None \<Rightarrow> (case strip_suffix ''-answer'' lower of Some s \<Rightarrow> s | None \<Rightarrow> lower)))"

definition command_names :: "(nat \<times> string) list" where
  "command_names =
    [(CMD_USER_AUTHORIZATION, ''User-Authorization''), (CMD_SERVER_ASSIGNMENT, ''Server-Assignment''),
     (CMD_LOCATION_INFO, ''Location-Info''), (CMD_MULTIMEDIA_AUTH, ''Multimedia-Auth''),
     (CMD_REGISTRATION_TERMINATION, ''Registration-Termination''), (CMD_PUSH_PROFILE, ''Push-Profile''),
     (CMD_SH_USER_DATA, ''User-Data''), (CMD_SH_PROFILE_UPDATE, ''Profile-Update''),
     (CMD_SH_SUBSCRIBE_NOTIFICATIONS, ''Subscribe-Notifications''), (CMD_SH_PUSH_NOTIFICATION, ''Push-Notification''),
     (CMD_CREDIT_CONTROL, ''Credit-Control''), (CMD_RE_AUTH, ''Re-Auth''),
     (CMD_ABORT_SESSION, ''Abort-Session''), (CMD_AA, ''AA''),
     (CMD_SESSION_TERMINATION, ''Session-Termination''), (CMD_ACCOUNTING, ''Accounting''),
     (CMD_SEND_ROUTING_INFO_FOR_SM, ''Send-Routing-Info-for-SM''), (CMD_ALERT_SERVICE_CENTRE, ''Alert-Service-Centre''),
     (CMD_REPORT_SM_DELIVERY_STATUS, ''Report-SM-Delivery-Status''), (CMD_MO_FORWARD_SHORT_MESSAGE, ''MO-Forward-Short-Message''),
     (CMD_MT_FORWARD_SHORT_MESSAGE, ''MT-Forward-Short-Message''), (CMD_BOOTSTRAPPING_INFO, ''Bootstrapping-Info''),
     (CMD_ME_IDENTITY_CHECK, ''ME-Identity-Check''), (CMD_CAPABILITIES_EXCHANGE, ''Capabilities-Exchange''),
     (CMD_DEVICE_WATCHDOG, ''Device-Watchdog''), (CMD_DISCONNECT_PEER, ''Disconnect-Peer'')]"

definition command_name_by_code :: "nat \<Rightarrow> string option" where
  "command_name_by_code code = map_of command_names code"

subsection \<open>Result codes\<close>

definition KNOWN_RESULT_CODES :: "(nat \<times> string) list" where
  "KNOWN_RESULT_CODES =
    [(1001, ''1001''), (2001, ''2001''), (2002, ''2002''), (3001, ''3001''),
     (3002, ''3002''), (3003, ''3003''), (3004, ''3004''), (3005, ''3005''),
     (3007, ''3007''), (3010, ''3010''), (4001, ''4001''), (4002, ''4002''),
     (4010, ''4010''), (4011, ''4011''), (4012, ''4012''), (4181, ''4181''),
     (4201, ''4201''), (5001, ''5001''), (5002, ''5002''), (5003, ''5003''),
     (5004, ''5004''), (5005, ''5005''), (5009, ''5009''), (5011, ''5011''),
     (5012, ''5012''), (5014, ''5014''), (5030, ''5030''), (5031, ''5031'')]"

definition KNOWN_EXPERIMENTAL_RESULT_CODES :: "(nat \<times> string) list" where
  "KNOWN_EXPERIMENTAL_RESULT_CODES =
    [(2001, ''exp:2001''), (2002, ''exp:2002''), (2003, ''exp:2003''), (2004, ''exp:2004''),
     (5001, ''exp:5001''), (5002, ''exp:5002''), (5003, ''exp:5003''), (5004, ''exp:5004''),
     (5005, ''exp:5005''), (5006, ''exp:5006''), (5007, ''exp:5007''), (5008, ''exp:5008''),
     (5061, ''exp:5061''), (5063, ''exp:5063''), (5401, ''exp:5401''), (5402, ''exp:5402''),
     (5403, ''exp:5403''), (5422, ''exp:5422'')]"

definition result_code_class :: "nat \<Rightarrow> string" where
  "result_code_class code =
     (let k = code div 1000
      in if k = 1 then ''1xxx_other'' else if k = 2 then ''2xxx_other'' else if k = 3 then ''3xxx_other''
         else if k = 4 then ''4xxx_other'' else if k = 5 then ''5xxx_other'' else ''other'')"

definition result_code_label :: "nat \<Rightarrow> bool \<Rightarrow> string" where
  "result_code_label code experimental =
     (case map_of (if experimental then KNOWN_EXPERIMENTAL_RESULT_CODES else KNOWN_RESULT_CODES) code of
        Some label \<Rightarrow> label
      | None \<Rightarrow>
          if experimental then
            (let k = code div 1000
             in if k = 1 then ''exp:1xxx_other'' else if k = 2 then ''exp:2xxx_other''
                else if k = 3 then ''exp:3xxx_other'' else if k = 4 then ''exp:4xxx_other''
                else if k = 5 then ''exp:5xxx_other'' else ''exp:other'')
          else result_code_class code)"

definition answer_result_label :: "nat option \<Rightarrow> nat option \<Rightarrow> string" where
  "answer_result_label base experimental =
     (case base of
        Some code \<Rightarrow> result_code_label code False
      | None \<Rightarrow> (case experimental of Some code \<Rightarrow> result_code_label code True | None \<Rightarrow> ''none''))"

definition result_code_is_success :: "nat \<Rightarrow> bool" where
  "result_code_is_success code \<longleftrightarrow> 2000 \<le> code \<and> code < 3000"

subsection \<open>The tables are sorted and every name is unique\<close>

fun ascending :: "'a::linorder list \<Rightarrow> bool" where
  "ascending (x # y # xs) \<longleftrightarrow> x < y \<and> ascending (y # xs)"
| "ascending _ \<longleftrightarrow> True"

lemma ascending_sorted: "ascending xs \<Longrightarrow> sorted_wrt (<) xs"
  by (induction xs rule: ascending.induct) (auto intro: less_trans)

lemmas avp_table_defs = AVP_TABLE_def avp_table_1_def avp_table_2_def avp_table_3_def avp_table_4_def avp_table_5_def avp_table_6_def 
  avp_table_7_def avp_table_8_def avp_table_9_def avp_table_10_def avp_table_11_def avp_table_12_def

lemmas policy_avps_defs = POLICY_AVPS_def policy_avps_1_def policy_avps_2_def policy_avps_3_def
  policy_avps_4_def policy_avps_5_def policy_avp_of_def

lemma avp_table_ascending: "ascending (map def_key AVP_TABLE)"
  by (simp add: avp_table_defs def_key_def)

lemma policy_avps_ascending: "ascending (map (def_code \<circ> pol_definition) POLICY_AVPS)"
  by (simp add: policy_avps_defs)

text \<open>The policy AVPs have ranges of codes of their own.\<close>

definition policy_code :: "nat \<Rightarrow> bool" where
  "policy_code c \<longleftrightarrow> c < 24 \<or> 500 \<le> c \<and> c < 600 \<or> 1000 \<le> c \<and> c < 1100 \<or> 2800 \<le> c \<and> c < 2900"

lemma policy_avps_policy:
  "e \<in> set POLICY_AVPS \<Longrightarrow> def_vendor (pol_definition e) = TGPP \<and> policy_code (def_code (pol_definition e))"
proof -
  have "list_all (\<lambda>e. def_vendor (pol_definition e) = TGPP \<and> policy_code (def_code (pol_definition e))) POLICY_AVPS"
    by (simp add: policy_avps_defs policy_code_def)
  then show "e \<in> set POLICY_AVPS \<Longrightarrow> ?thesis"
    by (simp add: list_all_iff)
qed

lemma avp_table_not_policy: "d \<in> set AVP_TABLE \<Longrightarrow> def_vendor d = TGPP \<Longrightarrow> \<not> policy_code (def_code d)"
proof -
  have "list_all (\<lambda>d. def_vendor d = TGPP \<longrightarrow> \<not> policy_code (def_code d)) AVP_TABLE"
    by (simp add: avp_table_defs policy_code_def)
  then show "d \<in> set AVP_TABLE \<Longrightarrow> def_vendor d = TGPP \<Longrightarrow> ?thesis"
    by (simp add: list_all_iff)
qed

lemma policy_lookup_Some:
  "policy_lookup code = Some e \<longleftrightarrow> e \<in> set POLICY_AVPS \<and> def_code (pol_definition e) = code"
  using binary_search_find [of "\<lambda>e. def_code (pol_definition e)" POLICY_AVPS code]
    find_key [of "\<lambda>e. def_code (pol_definition e)" POLICY_AVPS code e]
    ascending_sorted [OF policy_avps_ascending]
  by (simp add: policy_lookup_def comp_def)

lemma table_lookup_Some:
  "map_option (\<lambda>i. AVP_TABLE ! i) (binary_search_by (\<lambda>e. compare_to (vendor, code) (def_key e)) AVP_TABLE) = Some d
   \<longleftrightarrow> d \<in> set AVP_TABLE \<and> def_code d = code \<and> def_vendor d = vendor"
  using binary_search_find [of def_key AVP_TABLE "(vendor, code)"] find_key [of def_key AVP_TABLE "(vendor, code)" d]
    ascending_sorted [OF avp_table_ascending]
  by (auto simp: def_key_def)

lemma lookup_avp_Some:
  "lookup_avp code vendor = Some d \<longleftrightarrow> d \<in> set all_definitions \<and> def_code d = code \<and> def_vendor d = vendor"
proof (cases "vendor = TGPP \<and> policy_lookup code \<noteq> None")
  case True
  then obtain e where e: "policy_lookup code = Some e" and vendor: "vendor = TGPP" by blast
  note mem = e [unfolded policy_lookup_Some]
  have "d \<notin> set AVP_TABLE" if "def_code d = code" "def_vendor d = vendor"
    using avp_table_not_policy [of d] policy_avps_policy [of e] mem that vendor by auto
  moreover have "e' = e" if "e' \<in> set POLICY_AVPS" "def_code (pol_definition e') = code" for e'
    using e that policy_lookup_Some [of code e'] by simp
  moreover have "lookup_avp code vendor = Some (pol_definition e)" by (simp add: lookup_avp_def e vendor)
  ultimately show ?thesis
    using mem vendor policy_avps_policy [of e] unfolding all_definitions_def set_append set_map
    by (metis Un_iff imageE imageI option.inject)
next
  case False
  have "e \<notin> set POLICY_AVPS" if "def_code (pol_definition e) = code" "def_vendor (pol_definition e) = vendor" for e
    using False that policy_avps_policy [of e] policy_lookup_Some [of code e] by auto
  moreover have "lookup_avp code vendor = map_option (\<lambda>i. AVP_TABLE ! i) (binary_search_by (\<lambda>e. compare_to (vendor, code) (def_key e)) AVP_TABLE)"
    using False by (auto simp: lookup_avp_def)
  ultimately show ?thesis
    unfolding all_definitions_def by (simp only: table_lookup_Some set_append set_map) blast
qed

lemma app_names_back: "list_all (\<lambda>(a, n). map_option snd (app_id_by_name n) = Some a) app_names"
  by code_simp

lemma app_ids_back: "list_all (\<lambda>(n, v, a). map_option to_lower (app_name_by_id a) = Some n) app_ids"
  by code_simp

lemma command_names_back: "list_all (\<lambda>(c, n). command_code_by_name n = Some c) command_names"
  by code_simp

lemma commands_without_name:
  "filter (\<lambda>c. command_name_by_code c = None) (remdups (map snd command_codes)) = [316, 317, 318, 319, 320, 321, 323]"
  by code_simp
text \<open>
  C33. The dictionary means what its tables say: looking up a code and vendor by binary search, in the
  policy table first for 3GPP codes, gives exactly the one definition with that code and
  vendor; a definition found by name is the one its code gives; application names and identifiers
  and the names of commands lead back to where they came from.  The converse fails for commands: the codes
  of S6a resolve from their names but have no name to go back to.
\<close>

theorem dictionary_lookups:
  "(lookup_avp code vendor = Some d \<longleftrightarrow> d \<in> set all_definitions \<and> def_code d = code \<and> def_vendor d = vendor)
   \<and> (lookup_by_name n = Some d' \<longrightarrow> lookup_avp (def_code d') (def_vendor d') = Some d')
   \<and> (app_name_by_id a = Some m \<longrightarrow> map_option snd (app_id_by_name m) = Some a)
   \<and> (app_id_by_name m' = Some (v, a') \<longrightarrow> map_option to_lower (app_name_by_id a') = Some (to_lower m'))
   \<and> (command_name_by_code c = Some k \<longrightarrow> command_code_by_name k = Some c)
   \<and> filter (\<lambda>c. command_name_by_code c = None) (remdups (map snd command_codes)) = [316, 317, 318, 319, 320, 321, 323]"
proof (intro conjI impI)
  assume "lookup_by_name n = Some d'"
  then have "d' \<in> set all_definitions" by (auto simp: lookup_by_name_def find_Some_iff)
  then show "lookup_avp (def_code d') (def_vendor d') = Some d'" by (simp add: lookup_avp_Some)
next
  assume "app_name_by_id a = Some m"
  then show "map_option snd (app_id_by_name m) = Some a"
    using app_names_back by (auto simp: app_name_by_id_def list_all_iff dest: map_of_SomeD)
next
  assume "app_id_by_name m' = Some (v, a')"
  then show "map_option to_lower (app_name_by_id a') = Some (to_lower m')"
    using app_ids_back by (auto simp: app_id_by_name_def list_all_iff dest: map_of_SomeD)
next
  assume "command_name_by_code c = Some k"
  then show "command_code_by_name k = Some c"
    using command_names_back by (auto simp: command_name_by_code_def list_all_iff dest: map_of_SomeD)
qed (rule lookup_avp_Some commands_without_name)+

theorem dictionary_lookups_witness:
  "app_name_by_id 16777251 = Some ''S6a'' \<and> map_option snd (app_id_by_name ''S6a'') = Some 16777251
   \<and> lookup_avp 1 0 = Some (AvpDef 1 0 ''User-Name'' UTF8String)"
proof -
  have "app_name_by_id 16777251 = Some ''S6a''" by code_simp
  moreover have "AvpDef 1 0 ''User-Name'' UTF8String \<in> set all_definitions"
    by (simp add: all_definitions_def AVP_TABLE_def avp_table_1_def)
  ultimately show ?thesis
    using dictionary_lookups [of 1 0 "AvpDef 1 0 ''User-Name'' UTF8String" "[]" undefined 16777251 "''S6a''"] by simp
qed

end
