(* ===== verification/Diameter_Codec.thy ===== *)
theory Diameter_Codec
  imports Diameter_Dictionary
begin

text \<open>
  Diameter messages on the wire (\<^verbatim>\<open>src/src/diameter/codec.rs\<close>): framing, the AVP encoders, and the
  lossless tree of AVPs that is parsed from a message and printed back when it is relayed.
  An octet is an 8-bit word, a 32-bit field a 32-bit word, a length a natural number with its
  24-bit field written out.  A loop over a position in a buffer is a recursion on the octets
  that are left; the position is kept where an error reports it.  The lemmas show that parsing
  and printing are inverse, what a relayed message keeps, and the bounds on sizes and on nesting.
\<close>

subsection \<open>Flags\<close>

abbreviation (input) FLAG_REQUEST :: u8 where "FLAG_REQUEST \<equiv> 0x80"
abbreviation (input) FLAG_PROXIABLE :: u8 where "FLAG_PROXIABLE \<equiv> 0x40"
abbreviation (input) FLAG_ERROR :: u8 where "FLAG_ERROR \<equiv> 0x20"
abbreviation (input) FLAG_RETRANSMITTED :: u8 where "FLAG_RETRANSMITTED \<equiv> 0x10"
abbreviation (input) AVP_FLAG_VENDOR :: u8 where "AVP_FLAG_VENDOR \<equiv> 0x80"
abbreviation (input) AVP_FLAG_MANDATORY :: u8 where "AVP_FLAG_MANDATORY \<equiv> 0x40"

definition has_vendor :: "u8 \<Rightarrow> bool" where
  "has_vendor flags \<longleftrightarrow> flags AND AVP_FLAG_VENDOR \<noteq> 0"

definition header_size :: "u8 \<Rightarrow> nat" where
  "header_size flags = (if has_vendor flags then 12 else 8)"

subsection \<open>Framing\<close>

datatype frame_error = UnexpectedEof | BadVersion u8 | BadLength nat

text \<open>One message off the front of a stream, with what follows it.\<close>

definition read_diameter_message :: "octets \<Rightarrow> frame_error + octets \<times> octets" where
  "read_diameter_message stream =
     (if length stream < 4 then Inl UnexpectedEof
      else if stream ! 0 \<noteq> 1 then Inl (BadVersion (stream ! 0))
      else let msg_len = from_be24 (stream ! 1) (stream ! 2) (stream ! 3)
           in if \<not> (20 \<le> msg_len \<and> msg_len \<le> 1048576) then Inl (BadLength msg_len)
              else if length stream < msg_len then Inl UnexpectedEof
              else Inr (take msg_len stream, drop msg_len stream))"

subsection \<open>Encoding single AVPs\<close>

definition padding :: "nat \<Rightarrow> octets" where
  "padding n = replicate (pad4 n - n) 0"

definition encode_avp :: "u32 \<Rightarrow> u8 \<Rightarrow> octets \<Rightarrow> octets" where
  "encode_avp code flags payload =
     (let avp_len = 8 + length payload
      in be_bytes32 code @ [flags] @ be_bytes24 avp_len @ payload @ padding avp_len)"

definition encode_avp_vendor :: "u32 \<Rightarrow> u8 \<Rightarrow> u32 \<Rightarrow> octets \<Rightarrow> octets" where
  "encode_avp_vendor code flags vendor_id payload =
     (let avp_len = 12 + length payload
      in be_bytes32 code @ [flags OR AVP_FLAG_VENDOR] @ be_bytes24 avp_len @ be_bytes32 vendor_id
         @ payload @ padding avp_len)"

definition encode_avp_utf8 :: "u32 \<Rightarrow> string \<Rightarrow> octets" where
  "encode_avp_utf8 code v = encode_avp code AVP_FLAG_MANDATORY (octets_of v)"

definition encode_avp_u32 :: "u32 \<Rightarrow> u32 \<Rightarrow> octets" where
  "encode_avp_u32 code v = encode_avp code AVP_FLAG_MANDATORY (be_bytes32 v)"

definition encode_avp_utf8_3gpp :: "u32 \<Rightarrow> string \<Rightarrow> octets" where
  "encode_avp_utf8_3gpp code v = encode_avp_vendor code AVP_FLAG_MANDATORY 10415 (octets_of v)"

definition encode_avp_u32_3gpp :: "u32 \<Rightarrow> u32 \<Rightarrow> octets" where
  "encode_avp_u32_3gpp code v = encode_avp_vendor code AVP_FLAG_MANDATORY 10415 (be_bytes32 v)"

definition encode_avp_octet_3gpp :: "u32 \<Rightarrow> octets \<Rightarrow> octets" where
  "encode_avp_octet_3gpp code payload = encode_avp_vendor code AVP_FLAG_MANDATORY 10415 payload"

definition encode_avp_grouped_3gpp :: "u32 \<Rightarrow> octets \<Rightarrow> octets" where
  "encode_avp_grouped_3gpp code children = encode_avp_vendor code AVP_FLAG_MANDATORY 10415 children"

definition encode_avp_octet :: "u32 \<Rightarrow> octets \<Rightarrow> octets" where
  "encode_avp_octet code payload = encode_avp code AVP_FLAG_MANDATORY payload"

definition encode_avp_grouped :: "u32 \<Rightarrow> octets \<Rightarrow> octets" where
  "encode_avp_grouped code children = encode_avp code AVP_FLAG_MANDATORY children"

definition be_bytes64 :: "u64 \<Rightarrow> octets" where
  "be_bytes64 w = be_bytes32 (ucast (drop_bit 32 w)) @ be_bytes32 (ucast w)"

definition encode_avp_u64 :: "u32 \<Rightarrow> u64 \<Rightarrow> octets" where
  "encode_avp_u64 code v = encode_avp code AVP_FLAG_MANDATORY (be_bytes64 v)"

definition NTP_UNIX_EPOCH_OFFSET :: u64 where
  "NTP_UNIX_EPOCH_OFFSET = 2208988800"

text \<open>The time is the number of seconds since 1970, negative before.\<close>

definition system_time_to_diameter_time :: "int \<Rightarrow> u32" where
  "system_time_to_diameter_time secs =
     (let unix_secs = (if secs < 0 then 0 else word_of_int secs :: u64)
      in ucast ((unix_secs + NTP_UNIX_EPOCH_OFFSET) AND 0xFFFFFFFF))"

definition encode_avp_time :: "u32 \<Rightarrow> int \<Rightarrow> octets" where
  "encode_avp_time code time = encode_avp code AVP_FLAG_MANDATORY (be_bytes32 (system_time_to_diameter_time time))"

definition encode_avp_time_3gpp :: "u32 \<Rightarrow> int \<Rightarrow> octets" where
  "encode_avp_time_3gpp code time =
     encode_avp_vendor code AVP_FLAG_MANDATORY 10415 (be_bytes32 (system_time_to_diameter_time time))"

definition encode_vendor_specific_app_id :: "u32 \<Rightarrow> u32 \<Rightarrow> octets" where
  "encode_vendor_specific_app_id vendor_id auth_app_id =
     encode_avp 260 AVP_FLAG_MANDATORY (encode_avp_u32 266 vendor_id @ encode_avp_u32 258 auth_app_id)"

subsection \<open>Whole messages\<close>

definition encode_diameter_message :: "u8 \<Rightarrow> u32 \<Rightarrow> u32 \<Rightarrow> u32 \<Rightarrow> u32 \<Rightarrow> octets \<Rightarrow> octets" where
  "encode_diameter_message flags command_code application_id hop_by_hop end_to_end avps =
     [1] @ be_bytes24 (20 + length avps) @ [flags] @ be_bytes24 (unat command_code)
     @ be_bytes32 application_id @ be_bytes32 hop_by_hop @ be_bytes32 end_to_end @ avps"

definition encode_generic_answer ::
  "string \<Rightarrow> string \<Rightarrow> string \<Rightarrow> u32 \<Rightarrow> u32 \<Rightarrow> u32 \<Rightarrow> u32 \<Rightarrow> u32 \<Rightarrow> octets" where
  "encode_generic_answer origin_host origin_realm session_id command_code application_id result_code hop_by_hop end_to_end =
     (let vendor_app = (case app_name_by_id (unat application_id) of
              None \<Rightarrow> []
            | Some name \<Rightarrow> (case app_id_by_name name of
                None \<Rightarrow> []
              | Some (vendor, _) \<Rightarrow>
                  if vendor \<noteq> 0 then encode_vendor_specific_app_id (word_of_nat vendor) application_id else []))
      in encode_diameter_message FLAG_PROXIABLE command_code application_id hop_by_hop end_to_end
           (encode_avp_utf8 263 session_id @ encode_avp_utf8 264 origin_host @ encode_avp_utf8 296 origin_realm
            @ encode_avp_u32 277 1 @ vendor_app @ encode_avp_u32 268 result_code))"

subsection \<open>The lossless tree\<close>

datatype decode_error =
    HeaderTooShort nat
  | UnsupportedVersion u8
  | LengthMismatch nat nat
  | Truncated nat nat nat
  | InvalidAvpLength nat nat nat

datatype avp = Avp (avp_code: u32) (avp_vendor: u32) (avp_flags: u8) (avp_value: avp_data)
  and avp_data = Raw octets | Grouped "avp list"

definition avp_raw :: "u32 \<Rightarrow> u32 \<Rightarrow> octets \<Rightarrow> avp" where
  "avp_raw code vendor v =
     (let flags = (if avp_is_mandatory (unat code) (unat vendor) then AVP_FLAG_MANDATORY else 0)
      in Avp code vendor (if vendor \<noteq> 0 then flags OR AVP_FLAG_VENDOR else flags) (Raw v))"

definition avp_utf8 :: "u32 \<Rightarrow> u32 \<Rightarrow> string \<Rightarrow> avp" where
  "avp_utf8 code vendor v = avp_raw code vendor (octets_of v)"

definition avp_u32 :: "u32 \<Rightarrow> u32 \<Rightarrow> u32 \<Rightarrow> avp" where
  "avp_u32 code vendor v = avp_raw code vendor (be_bytes32 v)"

definition raw_bytes :: "avp \<Rightarrow> octets option" where
  "raw_bytes a = (case avp_value a of Raw bs \<Rightarrow> Some bs | Grouped _ \<Rightarrow> None)"

definition as_u32 :: "avp \<Rightarrow> u32 option" where
  "as_u32 a = (case raw_bytes a of
       Some (p # q # r # s # _) \<Rightarrow> Some (from_be32 p q r s) | _ \<Rightarrow> None)"

definition is_grouped :: "u32 \<Rightarrow> u32 \<Rightarrow> bool" where
  "is_grouped code vendor =
     (case lookup_avp (unat code) (unat vendor) of Some d \<Rightarrow> def_type d = GroupedType | None \<Rightarrow> False)"

text \<open>
  \<open>pos\<close> is the offset of the octets that are left in the buffer the caller handed in.
\<close>

function parse_avps :: "nat \<Rightarrow> octets \<Rightarrow> decode_error + avp list" where
  "parse_avps pos rest =
     (if length rest < 8 then Inr []
      else
        let code = from_be32 (rest ! 0) (rest ! 1) (rest ! 2) (rest ! 3);
            flags = rest ! 4;
            len = from_be24 (rest ! 5) (rest ! 6) (rest ! 7);
            hdr = header_size flags
        in if len < hdr then Inl (InvalidAvpLength pos len hdr)
           else if length rest < len then Inl (Truncated pos len (length rest))
           else
             let vendor = (if has_vendor flags then from_be32 (rest ! 8) (rest ! 9) (rest ! 10) (rest ! 11) else 0);
                 value_bytes = drop hdr (take len rest)
             in (case (if is_grouped code vendor
                       then (case parse_avps 0 value_bytes of Inl e \<Rightarrow> Inl e | Inr cs \<Rightarrow> Inr (Grouped cs))
                       else Inr (Raw value_bytes)) of
                   Inl e \<Rightarrow> Inl e
                 | Inr v \<Rightarrow>
                     (case parse_avps (pos + pad4 len) (drop (pad4 len) rest) of
                        Inl e \<Rightarrow> Inl e
                      | Inr avps \<Rightarrow> Inr (Avp code vendor flags v # avps))))"
  by pat_completeness auto
termination
  by (relation "measure (\<lambda>(pos, rest). length rest)") (auto simp: header_size_def pad4_def split: if_splits)

declare parse_avps.simps [simp del]

fun encode_avps :: "avp list \<Rightarrow> octets" and encode_one_avp :: "avp \<Rightarrow> octets" and encode_value :: "avp_data \<Rightarrow> octets" where
  "encode_avps [] = []"
| "encode_avps (a # as) = encode_one_avp a @ encode_avps as"
| "encode_one_avp (Avp code vendor flags v) =
     (let payload = encode_value v; len = header_size flags + length payload
      in be_bytes32 code @ [flags] @ be_bytes24 len @ (if has_vendor flags then be_bytes32 vendor else [])
         @ payload @ padding len)"
| "encode_value (Raw bs) = bs"
| "encode_value (Grouped cs) = encode_avps cs"

record diameter_msg =
  dm_flags :: u8
  command_code :: u32
  application_id :: u32
  hop_by_hop :: u32
  end_to_end :: u32
  dm_avps :: "avp list"

definition from_wire :: "octets \<Rightarrow> decode_error + diameter_msg" where
  "from_wire msg =
     (if length msg < 20 then Inl (HeaderTooShort (length msg))
      else if msg ! 0 \<noteq> 1 then Inl (UnsupportedVersion (msg ! 0))
      else let declared = from_be24 (msg ! 1) (msg ! 2) (msg ! 3)
           in if declared < 20 \<or> length msg < declared then Inl (LengthMismatch declared (length msg))
              else (case parse_avps 0 (drop 20 (take declared msg)) of
                      Inl e \<Rightarrow> Inl e
                    | Inr avps \<Rightarrow> Inr \<lparr>dm_flags = msg ! 4,
                        command_code = word_of_nat (from_be24 (msg ! 5) (msg ! 6) (msg ! 7)),
                        application_id = from_be32 (msg ! 8) (msg ! 9) (msg ! 10) (msg ! 11),
                        hop_by_hop = from_be32 (msg ! 12) (msg ! 13) (msg ! 14) (msg ! 15),
                        end_to_end = from_be32 (msg ! 16) (msg ! 17) (msg ! 18) (msg ! 19),
                        dm_avps = avps\<rparr>))"

definition to_wire :: "diameter_msg \<Rightarrow> octets" where
  "to_wire m =
     encode_diameter_message (dm_flags m) (command_code m) (application_id m) (hop_by_hop m) (end_to_end m)
       (encode_avps (dm_avps m))"

definition dm_is_request :: "diameter_msg \<Rightarrow> bool" where
  "dm_is_request m \<longleftrightarrow> dm_flags m AND FLAG_REQUEST \<noteq> 0"

definition dm_is_proxiable :: "diameter_msg \<Rightarrow> bool" where
  "dm_is_proxiable m \<longleftrightarrow> dm_flags m AND FLAG_PROXIABLE \<noteq> 0"

definition dm_is_error :: "diameter_msg \<Rightarrow> bool" where
  "dm_is_error m \<longleftrightarrow> dm_flags m AND FLAG_ERROR \<noteq> 0"

definition dm_find :: "diameter_msg \<Rightarrow> u32 \<Rightarrow> u32 \<Rightarrow> avp option" where
  "dm_find m code vendor = find (\<lambda>a. avp_code a = code \<and> avp_vendor a = vendor) (dm_avps m)"

definition dm_find_all :: "diameter_msg \<Rightarrow> u32 \<Rightarrow> u32 \<Rightarrow> avp list" where
  "dm_find_all m code vendor = filter (\<lambda>a. avp_code a = code \<and> avp_vendor a = vendor) (dm_avps m)"

definition child_u32 :: "u32 \<Rightarrow> avp list \<Rightarrow> u32 option" where
  "child_u32 code children = Option.bind (find (\<lambda>c. avp_code c = code) children) as_u32"

definition answer_result_codes :: "diameter_msg \<Rightarrow> u32 option \<times> u32 option" where
  "answer_result_codes m =
     (child_u32 268 (dm_avps m),
      Option.bind (find (\<lambda>a. avp_code a = 297) (dm_avps m)) (\<lambda>group.
        case avp_value group of
          Grouped children \<Rightarrow> child_u32 298 children
        | Raw bs \<Rightarrow> (case parse_avps 0 bs of Inl _ \<Rightarrow> None | Inr children \<Rightarrow> child_u32 298 children)))"

definition dm_remove :: "diameter_msg \<Rightarrow> u32 \<Rightarrow> u32 \<Rightarrow> diameter_msg \<times> nat" where
  "dm_remove m code vendor =
     (let kept = filter (\<lambda>a. \<not> (avp_code a = code \<and> avp_vendor a = vendor)) (dm_avps m)
      in (m\<lparr>dm_avps := kept\<rparr>, length (dm_avps m) - length kept))"

subsection \<open>Sizes\<close>

lemma length_padding [simp]: "length (padding n) = pad4 n - n"
  by (simp add: padding_def)

lemma length_encode_one_avp:
  "length (encode_one_avp (Avp c v f x)) = pad4 (header_size f + length (encode_value x))"
  using pad4_ge(1) [of "header_size f + length (encode_value x)"]
  by (auto simp: Let_def header_size_def)

lemma pad4_dvd_length: "4 dvd length (encode_avps as)"
proof (induction as)
  case (Cons a as)
  moreover have "4 dvd length (encode_one_avp a)" by (cases a) (simp only: length_encode_one_avp pad4_dvd)
  ultimately show ?case by simp
qed simp

text \<open>
  The trees the parser builds: no vendor without the flag for it, children exactly where the dictionary
  has a Grouped AVP, and a length that fits the 24-bit field.
\<close>

fun avp_wf :: "avp \<Rightarrow> bool" and avp_data_wf :: "u32 \<Rightarrow> u32 \<Rightarrow> avp_data \<Rightarrow> bool" where
  "avp_wf (Avp c v f x) \<longleftrightarrow>
     (has_vendor f \<or> v = 0) \<and> header_size f + length (encode_value x) < 2 ^ 24 \<and> avp_data_wf c v x"
| "avp_data_wf c v (Raw bs) \<longleftrightarrow> \<not> is_grouped c v"
| "avp_data_wf c v (Grouped cs) \<longleftrightarrow> is_grouped c v \<and> list_all avp_wf cs"

subsection \<open>Printing, then parsing\<close>

lemma drop_append_length: "drop (length xs) (xs @ ys) = ys"
  by simp

lemma drop_take_append: "length xs = n \<Longrightarrow> length ys = m \<Longrightarrow> drop n (take (n + m) (xs @ ys @ zs)) = ys"
  by simp

text \<open>The fields of a header that was printed are the ones that are read.\<close>

lemma read_header:
  assumes "rest = be_bytes32 c @ [f] @ be_bytes24 len @ tail" and "len < 2 ^ 24"
  shows "from_be32 (rest ! 0) (rest ! 1) (rest ! 2) (rest ! 3) = c" and "rest ! 4 = f"
    and "from_be24 (rest ! 5) (rest ! 6) (rest ! 7) = len"
proof -
  obtain p q r s where c: "be_bytes32 c = [p, q, r, s]" by (simp add: be_bytes32_def)
  obtain x y z where l: "be_bytes24 len = [x, y, z]" by (simp add: be_bytes24_def)
  have rest: "rest = [p, q, r, s, f, x, y, z] @ tail" using assms(1) by (simp add: c l)
  show "from_be32 (rest ! 0) (rest ! 1) (rest ! 2) (rest ! 3) = c" "rest ! 4 = f"
    "from_be24 (rest ! 5) (rest ! 6) (rest ! 7) = len"
    using from_be32_be_bytes [OF c] from_be24_be_bytes [OF assms(2) l] by (simp_all add: rest)
qed

lemma read_vendor:
  assumes "rest = hd8 @ be_bytes32 v @ tail" and "length hd8 = 8"
  shows "from_be32 (rest ! 8) (rest ! 9) (rest ! 10) (rest ! 11) = v"
proof -
  obtain p q r s where v: "be_bytes32 v = [p, q, r, s]" by (simp add: be_bytes32_def)
  show ?thesis
    using from_be32_be_bytes [OF v] assms by (simp add: v nth_append)
qed

text \<open>One printed AVP at the front of the octets.\<close>

lemma parse_encoded_one:
  assumes "header_size f + length payload < 2 ^ 24" and "has_vendor f \<or> v = 0"
    and "len = header_size f + length payload"
  shows "parse_avps pos (be_bytes32 c @ [f] @ be_bytes24 len @ (if has_vendor f then be_bytes32 v else [])
           @ payload @ padding len @ more_octets) =
    (case (if is_grouped c v
           then (case parse_avps 0 payload of Inl e \<Rightarrow> Inl e | Inr cs \<Rightarrow> Inr (Grouped cs))
           else Inr (Raw payload)) of
       Inl e \<Rightarrow> Inl e
     | Inr x \<Rightarrow> (case parse_avps (pos + pad4 len) more_octets of
           Inl e \<Rightarrow> Inl e | Inr avps \<Rightarrow> Inr (Avp c v f x # avps)))"
    (is "parse_avps pos ?rest = _")
proof -
  let ?vs = "if has_vendor f then be_bytes32 v else []"
  have rest: "?rest = be_bytes32 c @ [f] @ be_bytes24 len @ (?vs @ payload @ padding len @ more_octets)" by simp
  note hdr = read_header [OF rest assms(1) [folded assms(3)]]
  have vendor: "(if has_vendor f then from_be32 (?rest ! 8) (?rest ! 9) (?rest ! 10) (?rest ! 11) else 0) = v"
    using assms(2) read_vendor [of ?rest "be_bytes32 c @ [f] @ be_bytes24 len" v "payload @ padding len @ more_octets"]
    by auto
  have hlen: "length (be_bytes32 c @ [f] @ be_bytes24 len @ ?vs) = header_size f" by (simp add: header_size_def)
  have "?rest = (be_bytes32 c @ [f] @ be_bytes24 len @ ?vs) @ payload @ (padding len @ more_octets)" by simp
  then have val: "drop (header_size f) (take len ?rest) = payload"
    using drop_take_append [OF hlen refl, of payload "padding len @ more_octets"] by (simp only: assms(3))
  have "pad4 len = length (be_bytes32 c @ [f] @ be_bytes24 len @ ?vs @ payload @ padding len)"
    using pad4_ge(1) [of len] hlen by (simp add: assms(3))
  moreover have "?rest = (be_bytes32 c @ [f] @ be_bytes24 len @ ?vs @ payload @ padding len) @ more_octets" by simp
  ultimately have after: "drop (pad4 len) ?rest = more_octets" by (simp only: drop_append_length)
  have long: "\<not> length ?rest < 8" "\<not> length ?rest < len" "\<not> len < header_size f"
    using assms(3) hlen by (simp_all add: header_size_def)
  show ?thesis
    by (subst parse_avps.simps) (simp only: Let_def hdr vendor val after long if_False)
qed

lemma parse_encode_avps:
  "list_all avp_wf as \<Longrightarrow> parse_avps pos (encode_avps as) = Inr as"
  "avp_wf a \<Longrightarrow> parse_avps pos (encode_one_avp a @ more_octets) =
     (case parse_avps (pos + length (encode_one_avp a)) more_octets of Inl e \<Rightarrow> Inl e | Inr avps \<Rightarrow> Inr (a # avps))"
  "avp_data_wf c v x \<Longrightarrow>
     (if is_grouped c v
      then (case parse_avps 0 (encode_value x) of Inl e \<Rightarrow> Inl e | Inr cs \<Rightarrow> Inr (Grouped cs))
      else Inr (Raw (encode_value x))) = Inr x"
proof (induction as and a and x arbitrary: pos and pos more_octets and c v rule: encode_avps_encode_one_avp_encode_value.induct)
  case 1
  then show ?case by (subst parse_avps.simps) simp
next
  case (2 a as)
  then show ?case by simp
next
  case (3 code vendor flags x)
  let ?p = "encode_value x"
  have wf: "has_vendor flags \<or> vendor = 0" "header_size flags + length ?p < 2 ^ 24" "avp_data_wf code vendor x"
    using 3(2) by auto
  show ?case
    using parse_encoded_one [OF wf(2,1) refl, of pos code more_octets] 3(1) [OF wf(3)]
    by (simp add: Let_def length_encode_one_avp del: encode_one_avp.simps) (simp add: Let_def)
next
  case (4 bs)
  then show ?case by simp
next
  case (5 cs)
  then show ?case by simp
qed

subsection \<open>Parsing, then printing\<close>

text \<open>What a successful parse has read.\<close>

definition value_read :: "u32 \<Rightarrow> u32 \<Rightarrow> octets \<Rightarrow> avp_data \<Rightarrow> bool" where
  "value_read c v bs x \<longleftrightarrow>
     (if is_grouped c v then \<exists>cs. x = Grouped cs \<and> parse_avps 0 bs = Inr cs else x = Raw bs)"

lemma parse_avps_cases [consumes 1, case_names Nil Cons]:
  assumes "parse_avps pos rest = Inr as"
  obtains "length rest < 8" "as = []"
  | c f len v x as' where "as = Avp c v f x # as'" and "header_size f \<le> len" and "len \<le> length rest"
      and "has_vendor f \<or> v = 0" and "value_read c v (drop (header_size f) (take len rest)) x"
      and "parse_avps (pos + pad4 len) (drop (pad4 len) rest) = Inr as'"
proof (cases "length rest < 8")
  case True
  then have "as = []" using assms by (subst (asm) parse_avps.simps) simp
  with True that(1) show ?thesis by blast
next
  case False
  define f where "f = rest ! 4"
  define len where "len = from_be24 (rest ! 5) (rest ! 6) (rest ! 7)"
  define c where "c = from_be32 (rest ! 0) (rest ! 1) (rest ! 2) (rest ! 3)"
  define v where "v = (if has_vendor f then from_be32 (rest ! 8) (rest ! 9) (rest ! 10) (rest ! 11) else 0)"
  define bs where "bs = drop (header_size f) (take len rest)"
  note parsed = assms [unfolded parse_avps.simps [of pos rest] Let_def, folded f_def len_def c_def, folded v_def bs_def]
  from parsed False obtain x as' where "as = Avp c v f x # as'" "header_size f \<le> len" "len \<le> length rest"
    "value_read c v bs x" "parse_avps (pos + pad4 len) (drop (pad4 len) rest) = Inr as'"
    by (auto simp: value_read_def split: if_splits sum.splits)
  then show ?thesis using that(2) [of c v f x as' len] by (simp add: v_def bs_def split: if_splits)
qed

lemma size_step:
  assumes "length (encode_value x) \<le> 2 * (len - header_size f)" and "header_size f \<le> len" and "len \<le> n"
    and "e \<le> 2 * (n - pad4 len)"
  shows "length (encode_one_avp (Avp c v f x)) + e \<le> 2 * n" and "header_size f + length (encode_value x) \<le> 2 * n"
proof -
  have h: "8 \<le> header_size f" by (simp add: header_size_def)
  have "pad4 (header_size f + length (encode_value x)) \<le> 2 * len - 5"
    using pad4_ge(2) [of "header_size f + length (encode_value x)"] assms(1,2) h by linarith
  moreover have "2 * len + 2 * (n - pad4 len) \<le> 2 * n + 5" using assms(3) pad4_ge [of len] by linarith
  ultimately show "length (encode_one_avp (Avp c v f x)) + e \<le> 2 * n"
    unfolding length_encode_one_avp using assms h by linarith
  show "header_size f + length (encode_value x) \<le> 2 * n"
    using assms by linarith
qed

lemma parse_avps_wf:
  assumes "parse_avps pos rest = Inr as" and "2 * length rest < 2 ^ 24"
  shows "list_all avp_wf as \<and> length (encode_avps as) \<le> 2 * length rest"
  using assms
proof (induction "length rest" arbitrary: pos rest as rule: less_induct)
  case less
  from less.prems(1) show ?case
  proof (cases rule: parse_avps_cases)
    case Nil
    then show ?thesis by simp
  next
    case (Cons c f len v x as')
    let ?bs = "drop (header_size f) (take len rest)" and ?after = "drop (pad4 len) rest"
    have h: "8 \<le> header_size f" by (simp add: header_size_def)
    have bs: "length ?bs = len - header_size f" using Cons(3) by simp
    have val: "avp_data_wf c v x \<and> length (encode_value x) \<le> 2 * (len - header_size f)"
    proof (cases "is_grouped c v")
      case True
      then obtain cs where cs: "x = Grouped cs" "parse_avps 0 ?bs = Inr cs"
        using Cons(5) by (auto simp: value_read_def)
      have "length ?bs < length rest" "2 * length ?bs < 2 ^ 24" using bs Cons(2,3) h less.prems(2) by linarith+
      from less.hyps [OF this(1) cs(2) this(2)] show ?thesis using cs(1) True bs by simp
    next
      case False
      then show ?thesis using Cons(5) bs by (simp add: value_read_def)
    qed
    have "length ?after < length rest" "2 * length ?after < 2 ^ 24"
      using pad4_ge(1) [of len] Cons(2,3) h less.prems(2) by simp_all
    from less.hyps [OF this(1) Cons(6) this(2)]
    have after: "list_all avp_wf as'" "length (encode_avps as') \<le> 2 * (length rest - pad4 len)" by simp_all
    note step = size_step [OF conjunct2 [OF val] Cons(2,3) after(2)]
    show ?thesis
      using Cons(1,4) val after(1) step(1) [of c v] step(2) less.prems(2)
      by (simp del: encode_one_avp.simps)
  qed
qed

subsection \<open>Messages\<close>

definition msg_wf :: "diameter_msg \<Rightarrow> bool" where
  "msg_wf m \<longleftrightarrow> list_all avp_wf (dm_avps m) \<and> unat (command_code m) < 2 ^ 24 \<and> length (to_wire m) < 2 ^ 24"

lemma length_to_wire: "length (to_wire m) = 20 + length (encode_avps (dm_avps m))"
  by (simp add: to_wire_def encode_diameter_message_def)

lemma to_wire_fields:
  fixes m junk
  defines "w \<equiv> to_wire m @ junk"
  assumes "length (to_wire m) < 2 ^ 24" and "unat (command_code m) < 2 ^ 24"
  shows "w ! 0 = 1" and "from_be24 (w ! 1) (w ! 2) (w ! 3) = length (to_wire m)" and "w ! 4 = dm_flags m"
    and "word_of_nat (from_be24 (w ! 5) (w ! 6) (w ! 7)) = command_code m"
    and "from_be32 (w ! 8) (w ! 9) (w ! 10) (w ! 11) = application_id m"
    and "from_be32 (w ! 12) (w ! 13) (w ! 14) (w ! 15) = hop_by_hop m"
    and "from_be32 (w ! 16) (w ! 17) (w ! 18) (w ! 19) = end_to_end m"
    and "drop 20 (take (length (to_wire m)) w) = encode_avps (dm_avps m)"
proof -
  obtain l1 l2 l3 where l: "be_bytes24 (length (to_wire m)) = [l1, l2, l3]" by (simp add: be_bytes24_def)
  obtain c1 c2 c3 where c: "be_bytes24 (unat (command_code m)) = [c1, c2, c3]" by (simp add: be_bytes24_def)
  obtain a1 a2 a3 a4 where a: "be_bytes32 (application_id m) = [a1, a2, a3, a4]" by (simp add: be_bytes32_def)
  obtain h1 h2 h3 h4 where h: "be_bytes32 (hop_by_hop m) = [h1, h2, h3, h4]" by (simp add: be_bytes32_def)
  obtain e1 e2 e3 e4 where e: "be_bytes32 (end_to_end m) = [e1, e2, e3, e4]" by (simp add: be_bytes32_def)
  let ?hd = "[1, l1, l2, l3, dm_flags m, c1, c2, c3, a1, a2, a3, a4, h1, h2, h3, h4, e1, e2, e3, e4]"
  have wire: "to_wire m = ?hd @ encode_avps (dm_avps m)"
    using l length_to_wire [of m] by (simp add: to_wire_def encode_diameter_message_def c a h e)
  have w: "w = ?hd @ encode_avps (dm_avps m) @ junk" by (simp add: w_def wire)
  show "w ! 0 = 1" "w ! 4 = dm_flags m" by (simp_all add: w)
  show "from_be24 (w ! 1) (w ! 2) (w ! 3) = length (to_wire m)"
    using from_be24_be_bytes [OF assms(2) l] by (simp add: w)
  show "word_of_nat (from_be24 (w ! 5) (w ! 6) (w ! 7)) = command_code m"
    using from_be24_be_bytes [OF assms(3) c] by (simp add: w)
  show "from_be32 (w ! 8) (w ! 9) (w ! 10) (w ! 11) = application_id m"
    using from_be32_be_bytes [OF a] by (simp add: w)
  show "from_be32 (w ! 12) (w ! 13) (w ! 14) (w ! 15) = hop_by_hop m"
    using from_be32_be_bytes [OF h] by (simp add: w)
  show "from_be32 (w ! 16) (w ! 17) (w ! 18) (w ! 19) = end_to_end m"
    using from_be32_be_bytes [OF e] by (simp add: w)
  show "drop 20 (take (length (to_wire m)) w) = encode_avps (dm_avps m)"
    by (simp add: w wire)
qed

lemma from_wire_to_wire:
  assumes "msg_wf m"
  shows "from_wire (to_wire m @ junk) = Inr m"
proof -
  have wf: "length (to_wire m) < 2 ^ 24" "unat (command_code m) < 2 ^ 24" "list_all avp_wf (dm_avps m)"
    using assms by (simp_all add: msg_wf_def)
  define w where "w = to_wire m @ junk"
  note fields = to_wire_fields [OF wf(1,2), of junk, folded w_def]
  have "20 \<le> length (to_wire m)" "length (to_wire m) \<le> length w" by (simp_all add: length_to_wire w_def)
  then show ?thesis
    unfolding w_def [symmetric]
    by (simp add: from_wire_def fields parse_encode_avps(1) [OF wf(3)] Let_def del: One_nat_def)
qed

lemma from_wire_Inr:
  assumes "from_wire w = Inr m"
  obtains declared where "20 \<le> declared" "declared \<le> length w"
    and "parse_avps 0 (drop 20 (take declared w)) = Inr (dm_avps m)" and "unat (command_code m) < 2 ^ 24"
proof -
  let ?d = "from_be24 (w ! 1) (w ! 2) (w ! 3)" and ?c = "from_be24 (w ! 5) (w ! 6) (w ! 7)"
  have "unat (word_of_nat ?c :: u32) < 2 ^ 24"
    using from_be24_less [of "w ! 5" "w ! 6" "w ! 7"] by (simp add: unat_of_nat take_bit_eq_mod)
  then show ?thesis
    using assms that [of ?d] by (auto simp: from_wire_def Let_def split: if_splits sum.splits)
qed

lemma read_to_wire:
  assumes "msg_wf m" and "length (to_wire m) \<le> 1048576"
  shows "read_diameter_message (to_wire m @ stream) = Inr (to_wire m, stream)"
proof -
  have wf: "length (to_wire m) < 2 ^ 24" "unat (command_code m) < 2 ^ 24"
    using assms(1) by (simp_all add: msg_wf_def)
  define w where "w = to_wire m @ stream"
  note fields = to_wire_fields [OF wf, of stream, folded w_def]
  have "20 \<le> length (to_wire m)" "length (to_wire m) \<le> length w" by (simp_all add: length_to_wire w_def)
  then have "read_diameter_message w = Inr (take (length (to_wire m)) w, drop (length (to_wire m)) w)"
    using assms(2) by (simp add: read_diameter_message_def fields(1,2) Let_def del: One_nat_def)
  then show ?thesis by (simp add: w_def)
qed

text \<open>
  C7. A Diameter message survives the wire: every message whose tree is well formed, so every message this
  node builds with AVPs that fit their length fields, is read back as it was printed, at any
  place of a stream, and the reader leaves the stream at the next message.
\<close>

theorem diameter_roundtrip:
  assumes "msg_wf m" and "length (to_wire m) \<le> 1048576"
  shows "from_wire (to_wire m) = Inr m \<and> read_diameter_message (to_wire m @ stream) = Inr (to_wire m, stream)"
  using from_wire_to_wire [OF assms(1), of "[]"] read_to_wire [OF assms] by simp

definition example_answer :: diameter_msg where
  "example_answer = \<lparr>dm_flags = 0x40, command_code = 316, application_id = 16777251, hop_by_hop = 7, end_to_end = 9,
     dm_avps = [avp_u32 268 0 2001, Avp 260 0 0x40 (Grouped [avp_u32 266 0 10415])]\<rparr>"

lemma example_lookups:
  "lookup_avp 260 0 = Some (AvpDef 260 0 ''Vendor-Specific-Application-Id'' GroupedType)"
  "lookup_avp 268 0 = Some (AvpDef 268 0 ''Result-Code'' Unsigned32)"
  "lookup_avp 266 0 = Some (AvpDef 266 0 ''Vendor-Id'' Unsigned32)"
  "lookup_avp 263 0 = Some (AvpDef 263 0 ''Session-Id'' UTF8String)"
  unfolding lookup_avp_Some all_definitions_def AVP_TABLE_def avp_table_1_def avp_table_2_def by simp_all

lemma example_types: "is_grouped 260 0" "\<not> is_grouped 268 0" "\<not> is_grouped 266 0" "\<not> is_grouped 263 0"
  by (simp_all add: is_grouped_def example_lookups)

lemma example_answer_wf: "msg_wf example_answer \<and> length (to_wire example_answer) = 52"
  by (simp add: example_answer_def msg_wf_def length_to_wire avp_u32_def avp_raw_def avp_is_mandatory_def
      header_size_def has_vendor_def pad4_def Let_def example_types)

theorem diameter_roundtrip_witness:
  "from_wire (to_wire example_answer) = Inr example_answer
   \<and> read_diameter_message (to_wire example_answer @ [1, 0]) = Inr (to_wire example_answer, [1, 0])"
  using diameter_roundtrip [of example_answer "[1, 0]"] example_answer_wf by simp

text \<open>
  C14. Relaying keeps everything: whatever a peer sent and the parser accepted, up to the 1 MiB a message
  may have, comes out of the printer as a message with the same header fields and the same
  AVPs, with codes, vendors, flags and order, known or not; only the padding is new.
\<close>

theorem relay_keeps_tree:
  assumes "from_wire w = Inr m" and "length w \<le> 1048576"
  shows "from_wire (to_wire m) = Inr m \<and> length (to_wire m) \<le> 2 * length w \<and> 4 dvd length (to_wire m)"
proof -
  from assms(1) obtain declared where d: "20 \<le> declared" "declared \<le> length w"
    "parse_avps 0 (drop 20 (take declared w)) = Inr (dm_avps m)" "unat (command_code m) < 2 ^ 24"
    by (rule from_wire_Inr)
  let ?region = "drop 20 (take declared w)"
  have len: "length ?region = declared - 20" using d(2) by simp
  then have "2 * length ?region < 2 ^ 24" using d(2) assms(2) by simp
  from parse_avps_wf [OF d(3) this] have wf: "list_all avp_wf (dm_avps m)"
    and size: "length (encode_avps (dm_avps m)) \<le> 2 * (declared - 20)" unfolding len by blast+
  have "length (to_wire m) \<le> 2 * length w" using size d(1,2) by (simp add: length_to_wire)
  moreover from this have "msg_wf m" using wf d(4) assms(2) by (simp add: msg_wf_def)
  ultimately show ?thesis
    using from_wire_to_wire [of m "[]"] pad4_dvd_length [of "dm_avps m"] by (simp add: length_to_wire)
qed

theorem relay_keeps_tree_witness:
  "\<exists>m. from_wire ([1, 0, 0, 29, 0x40, 0, 1, 60, 0, 0, 0, 4, 0, 0, 0, 1, 0, 0, 0, 2] @ [0, 0, 1, 7, 0, 0, 0, 9, 65]) = Inr m
     \<and> dm_avps m = [Avp 263 0 0 (Raw [65])] \<and> from_wire (to_wire m) = Inr m"
proof -
  let ?w = "[1, 0, 0, 29, 0x40, 0, 1, 60, 0, 0, 0, 4, 0, 0, 0, 1, 0, 0, 0, 2] @ [0, 0, 1, 7, 0, 0, 0, 9, 65] :: octets"
  let ?m = "\<lparr>dm_flags = 0x40, command_code = 316, application_id = 4, hop_by_hop = 1, end_to_end = 2,
     dm_avps = [Avp 263 0 0 (Raw [65])]\<rparr>"
  have "parse_avps 0 [0, 0, 1, 7, 0, 0, 0, 9, 65] = Inr [Avp 263 0 0 (Raw [65])]"
    by (subst parse_avps.simps)
      (simp add: Let_def from_be32_def from_be24_sum header_size_def has_vendor_def example_types
        parse_avps.simps [of _ "[]"] pad4_def)
  then have "from_wire ?w = Inr ?m"
    by (simp add: from_wire_def Let_def from_be24_sum from_be32_def)
  moreover from relay_keeps_tree [OF this] have "from_wire (to_wire ?m) = Inr ?m" by simp
  ultimately show ?thesis by (intro exI [of _ ?m]) (simp del: append.simps)
qed

subsection \<open>How deep a message can nest\<close>

text \<open>
  The depth of a tree is the number of calls of the parser that are active at once while it is read.
\<close>

fun avp_depth :: "avp \<Rightarrow> nat" and avp_data_depth :: "avp_data \<Rightarrow> nat" where
  "avp_depth (Avp c v f x) = avp_data_depth x"
| "avp_data_depth (Raw bs) = 0"
| "avp_data_depth (Grouped cs) = Suc (foldr max (map avp_depth cs) 0)"

definition tree_depth :: "avp list \<Rightarrow> nat" where
  "tree_depth as = foldr max (map avp_depth as) 0"

lemma tree_depth_simps [simp]:
  "tree_depth [] = 0" "tree_depth (a # as) = max (avp_depth a) (tree_depth as)"
  "avp_data_depth (Grouped cs) = Suc (tree_depth cs)"
  by (simp_all add: tree_depth_def)

declare avp_data_depth.simps(2) [simp del]

lemma parse_avps_depth:
  assumes "parse_avps pos rest = Inr as"
  shows "8 * tree_depth as \<le> length rest"
  using assms
proof (induction "length rest" arbitrary: pos rest as rule: less_induct)
  case less
  from less.prems show ?case
  proof (cases rule: parse_avps_cases)
    case Nil
    then show ?thesis by simp
  next
    case (Cons c f len v x as')
    let ?bs = "drop (header_size f) (take len rest)"
    have h: "8 \<le> header_size f" by (simp add: header_size_def)
    have "8 * avp_data_depth x \<le> length rest"
    proof (cases "is_grouped c v")
      case True
      then obtain cs where cs: "x = Grouped cs" "parse_avps 0 ?bs = Inr cs"
        using Cons(5) by (auto simp: value_read_def)
      have "length ?bs + 8 \<le> length rest" using Cons(2,3) h by simp
      with less.hyps [OF _ cs(2)] cs(1) show ?thesis by simp
    next
      case False
      then show ?thesis using Cons(5) by (simp add: value_read_def avp_data_depth.simps)
    qed
    moreover have "length (drop (pad4 len) rest) < length rest"
      using pad4_ge(1) [of len] Cons(2,3) h by simp
    from less.hyps [OF this Cons(6)] have "8 * tree_depth as' \<le> length rest" by simp
    ultimately show ?thesis using Cons(1) by simp
  qed
qed

text \<open>Groups in groups, each with nothing but its header.\<close>

fun nested_groups :: "nat \<Rightarrow> avp list" where
  "nested_groups 0 = []"
| "nested_groups (Suc n) = [Avp 260 0 0 (Grouped (nested_groups n))]"

lemma nested_groups:
  "length (encode_avps (nested_groups n)) = 8 * n" "tree_depth (nested_groups n) = n"
  "8 * n < 2 ^ 24 \<Longrightarrow> list_all avp_wf (nested_groups n)"
proof (induction n)
  case (Suc n)
  { case 1 then show ?case using Suc pad4_mult [of "2 * Suc n"] by (simp add: Let_def header_size_def has_vendor_def) }
  { case 2 then show ?case using Suc by simp }
  { case 3 then show ?case using Suc by (simp add: header_size_def has_vendor_def example_types) }
qed (simp_all)

text \<open>
  C38. The parser recurses as deep as a message nests, which only the size of the message limits: the
  depth is at most an eighth of the octets after the header, and every depth up to the 131,069 that
  fit into the largest message the reader accepts is reached by a message that is read and
  parsed without an error.
\<close>

theorem nesting_depth:
  "(from_wire w = Inr m \<longrightarrow> 20 + 8 * tree_depth (dm_avps m) \<le> length w)
   \<and> (n \<le> 131069 \<longrightarrow> (\<exists>u m'. length u = 20 + 8 * n \<and> read_diameter_message u = Inr (u, [])
        \<and> from_wire u = Inr m' \<and> tree_depth (dm_avps m') = n))"
proof (intro conjI impI)
  assume "from_wire w = Inr m"
  then obtain declared where d: "20 \<le> declared" "declared \<le> length w"
    "parse_avps 0 (drop 20 (take declared w)) = Inr (dm_avps m)" by (rule from_wire_Inr)
  from parse_avps_depth [OF d(3)] d(1,2) show "20 + 8 * tree_depth (dm_avps m) \<le> length w" by simp
next
  assume n: "n \<le> 131069"
  let ?m = "\<lparr>dm_flags = 0x80, command_code = 272, application_id = 4, hop_by_hop = 1, end_to_end = 1,
    dm_avps = nested_groups n\<rparr>"
  have len: "length (to_wire ?m) = 20 + 8 * n" by (simp add: length_to_wire nested_groups(1))
  have wf: "msg_wf ?m" using n nested_groups(3) [of n] by (simp add: msg_wf_def len)
  have "read_diameter_message (to_wire ?m) = Inr (to_wire ?m, [])"
    using read_to_wire [OF wf, of "[]"] n len by simp
  moreover have "from_wire (to_wire ?m) = Inr ?m" using from_wire_to_wire [OF wf, of "[]"] by simp
  ultimately show "\<exists>u m'. length u = 20 + 8 * n \<and> read_diameter_message u = Inr (u, [])
      \<and> from_wire u = Inr m' \<and> tree_depth (dm_avps m') = n"
    using len nested_groups(2) [of n] by (intro exI [of _ "to_wire ?m"] exI [of _ ?m]) simp
qed

theorem nesting_depth_witness:
  "\<exists>u m'. length u = 1048572 \<and> read_diameter_message u = Inr (u, [])
     \<and> from_wire u = Inr m' \<and> tree_depth (dm_avps m') = 131069"
  using nesting_depth [of "[]" undefined 131069] by simp

end
