(* ===== verification/Diameter_Values.thy ===== *)
theory Diameter_Values
  imports Diameter_Codec "HOL-Library.AList"
begin

text \<open>
  The values of Diameter AVPs as the applications see them (\<^verbatim>\<open>src/src/diameter/codec.rs\<close>): the JSON view
  of a message, hexadecimal text, telephone numbers in TBCD, and addresses.  A JSON object is an
  association list.  The lemmas show that the JSON view is a function of the lossless tree
  and the round trips of the encodings.
\<close>

subsection \<open>Hexadecimal\<close>

definition HEX_CHARS :: string where
  "HEX_CHARS = ''0123456789abcdef''"

fun hex_encode :: "octets \<Rightarrow> string" where
  "hex_encode [] = []"
| "hex_encode (b # bs) = HEX_CHARS ! unat (drop_bit 4 b) # HEX_CHARS ! unat (b AND 0x0F) # hex_encode bs"

definition hex_value :: "char \<Rightarrow> u8 option" where
  "hex_value c =
     (let n = of_char c :: nat
      in if 48 \<le> n \<and> n \<le> 57 then Some (word_of_nat (n - 48))
         else if 97 \<le> n \<and> n \<le> 102 then Some (word_of_nat (n - 97 + 10))
         else if 65 \<le> n \<and> n \<le> 70 then Some (word_of_nat (n - 65 + 10))
         else None)"

text \<open>Both digits of a pair are read before the next pair; an odd number of digits is refused first.\<close>

fun hex_pairs :: "string \<Rightarrow> octets option" where
  "hex_pairs (h # l # cs) =
     (case hex_value h of
        None \<Rightarrow> None
      | Some hi \<Rightarrow> (case hex_value l of
          None \<Rightarrow> None
        | Some lo \<Rightarrow> map_option ((#) (push_bit 4 hi OR lo)) (hex_pairs cs)))"
| "hex_pairs _ = Some []"

definition hex_decode :: "string \<Rightarrow> octets option" where
  "hex_decode s = (if odd (length s) then None else hex_pairs s)"

subsection \<open>Telephone numbers\<close>

definition TON_NPI_INTERNATIONAL_E164 :: u8 where
  "TON_NPI_INTERNATIONAL_E164 = 0x91"

fun tbcd_pairs :: "u8 list \<Rightarrow> octets" where
  "tbcd_pairs (lo # hi # ds) = (push_bit 4 hi OR lo) # tbcd_pairs ds"
| "tbcd_pairs [lo] = [push_bit 4 0x0F OR lo]"
| "tbcd_pairs [] = []"

definition encode_tbcd_digits :: "string \<Rightarrow> octets" where
  "encode_tbcd_digits digits = tbcd_pairs (map (\<lambda>c. word_of_nat (of_char c - 48)) (filter is_digit digits))"

definition tbcd_char :: "u8 \<Rightarrow> string" where
  "tbcd_char d = (if d \<le> 9 then [char_of (48 + unat d)] else [])"

definition decode_tbcd_digits :: "octets \<Rightarrow> string" where
  "decode_tbcd_digits bs = concat (map (\<lambda>b. tbcd_char (b AND 0x0F) @ tbcd_char (drop_bit 4 b AND 0x0F)) bs)"

definition encode_isdn_address_string :: "string \<Rightarrow> u8 \<Rightarrow> octets" where
  "encode_isdn_address_string digits ton_npi = ton_npi # encode_tbcd_digits digits"

definition decode_isdn_address_string :: "octets \<Rightarrow> string" where
  "decode_isdn_address_string bs =
     (case bs of
        first # rest \<Rightarrow> if first AND 0x80 \<noteq> 0 then decode_tbcd_digits rest else decode_tbcd_digits bs
      | [] \<Rightarrow> decode_tbcd_digits bs)"

subsection \<open>Text and addresses\<close>

text \<open>
  The length of the UTF-8 sequence at the front of the octets, if it is valid; otherwise how many octets
  the replacement character stands for (the maximal valid prefix, at least one).
\<close>

definition is_cont :: "u8 \<Rightarrow> bool" where
  "is_cont b \<longleftrightarrow> 0x80 \<le> b \<and> b \<le> 0xBF"

definition second_ok :: "u8 \<Rightarrow> u8 \<Rightarrow> bool" where
  "second_ok a b \<longleftrightarrow>
     (if a = 0xE0 then 0xA0 \<le> b \<and> b \<le> 0xBF
      else if a = 0xED then 0x80 \<le> b \<and> b \<le> 0x9F
      else if a = 0xF0 then 0x90 \<le> b \<and> b \<le> 0xBF
      else if a = 0xF4 then 0x80 \<le> b \<and> b \<le> 0x8F
      else is_cont b)"

fun utf8_sequence :: "octets \<Rightarrow> bool \<times> nat" where
  "utf8_sequence [] = (False, 1)"
| "utf8_sequence (a # bs) =
     (let at = (\<lambda>i. if i < length bs then bs ! i else 0)
      in if a < 0x80 then (True, 1)
         else if 0xC2 \<le> a \<and> a \<le> 0xDF then (if is_cont (at 0) then (True, 2) else (False, 1))
         else if 0xE0 \<le> a \<and> a \<le> 0xEF then
           (if \<not> second_ok a (at 0) then (False, 1) else if is_cont (at 1) then (True, 3) else (False, 2))
         else if 0xF0 \<le> a \<and> a \<le> 0xF4 then
           (if \<not> second_ok a (at 0) then (False, 1) else if \<not> is_cont (at 1) then (False, 2)
            else if is_cont (at 2) then (True, 4) else (False, 3))
         else (False, 1))"

definition text_of :: "octets \<Rightarrow> string" where
  "text_of bs = map (\<lambda>b. char_of (unat b)) bs"

lemma utf8_sequence_pos: "0 < snd (utf8_sequence bs)"
  by (cases bs) (simp_all add: Let_def)

function from_utf8_lossy :: "octets \<Rightarrow> string" where
  "from_utf8_lossy bs =
     (if bs = [] then []
      else let (ok, n) = utf8_sequence bs
           in (if ok then text_of (take n bs) else text_of [0xEF, 0xBF, 0xBD]) @ from_utf8_lossy (drop n bs))"
  by pat_completeness auto
termination
proof (relation "measure length")
  fix bs :: octets and x ok n
  assume "bs \<noteq> []" "x = utf8_sequence bs" "(ok, n) = x"
  then have "0 < n" using utf8_sequence_pos [of bs] by (metis snd_conv)
  with \<open>bs \<noteq> []\<close> show "(drop n bs, bs) \<in> measure length" by simp
qed simp

declare from_utf8_lossy.simps [simp del]

definition show_ipv4 :: "nat list \<Rightarrow> string" where
  "show_ipv4 g = join ''.'' (map show_nat g)"

function show_hex :: "nat \<Rightarrow> string" where
  "show_hex n = (if n < 16 then [HEX_CHARS ! n] else show_hex (n div 16) @ [HEX_CHARS ! (n mod 16)])"
  by pat_completeness auto
termination by (relation "measure id") auto

declare show_hex.simps [simp del]

text \<open>
  \<^verbatim>\<open>Display for Ipv6Addr\<close>: an IPv4-mapped address in its dotted form, otherwise the first of the longest
  runs of at least two zero groups as two colons.
\<close>

fun zero_run :: "nat list \<Rightarrow> nat" where
  "zero_run (0 # gs) = Suc (zero_run gs)"
| "zero_run _ = 0"

definition longest_zero_run :: "nat list \<Rightarrow> nat \<times> nat" where
  "longest_zero_run g =
     foldl (\<lambda>(start, len) i. if len < zero_run (drop i g) then (i, zero_run (drop i g)) else (start, len)) (0, 0)
       [0..<length g]"

definition show_groups :: "nat list \<Rightarrow> string" where
  "show_groups g = join '':'' (map show_hex g)"

definition show_ipv6 :: "nat list \<Rightarrow> string" where
  "show_ipv6 g =
     (if take 6 g = [0, 0, 0, 0, 0, 0xFFFF] \<and> length g = 8
      then ''::ffff:'' @ show_ipv4 [g ! 6 div 256, g ! 6 mod 256, g ! 7 div 256, g ! 7 mod 256]
      else let (start, len) = longest_zero_run g
           in if 1 < len then show_groups (take start g) @ ''::'' @ show_groups (drop (start + len) g)
              else show_groups g)"

fun groups16 :: "octets \<Rightarrow> nat list" where
  "groups16 (a # b # bs) = (unat a * 256 + unat b) # groups16 bs"
| "groups16 _ = []"

definition encode_avp_address_ipv4 :: "u32 \<Rightarrow> octets \<Rightarrow> octets" where
  "encode_avp_address_ipv4 code ip = encode_avp code AVP_FLAG_MANDATORY ([0, 1] @ ip)"

text \<open>The octets of an address, tagged with its family.\<close>

datatype ip_octets = Ip4 octets | Ip6 octets

definition encode_avp_address_3gpp :: "u32 \<Rightarrow> ip_octets \<Rightarrow> octets" where
  "encode_avp_address_3gpp code ip =
     encode_avp_vendor code AVP_FLAG_MANDATORY 10415
       (case ip of Ip4 v4 \<Rightarrow> [0, 1] @ v4 | Ip6 v6 \<Rightarrow> [0, 2] @ v6)"

subsection \<open>The JSON view\<close>

datatype json = JString string | JNumber int | JArray "json list" | JObject "(string \<times> json) list"

definition decode_address :: "octets \<Rightarrow> json" where
  "decode_address bs =
     JString
       (if length bs < 2 then hex_encode bs
        else if bs ! 0 = 0 \<and> bs ! 1 = 1 \<and> 6 \<le> length bs then show_ipv4 (map unat (take 4 (drop 2 bs)))
        else if bs ! 0 = 0 \<and> bs ! 1 = 2 \<and> 18 \<le> length bs then show_ipv6 (groups16 (take 16 (drop 2 bs)))
        else hex_encode bs)"

text \<open>The values with no children; a Grouped value is decoded below.\<close>

definition decode_leaf :: "avp_type \<Rightarrow> octets \<Rightarrow> json" where
  "decode_leaf t bs =
     (let word = from_be32 (bs ! 0) (bs ! 1) (bs ! 2) (bs ! 3)
      in case t of
           UTF8String \<Rightarrow> JString (from_utf8_lossy bs)
         | DiameterIdentity \<Rightarrow> JString (from_utf8_lossy bs)
         | Unsigned32 \<Rightarrow> if 4 \<le> length bs then JNumber (uint word) else JString (hex_encode bs)
         | Enumerated \<Rightarrow> if 4 \<le> length bs then JNumber (uint word) else JString (hex_encode bs)
         | Integer32 \<Rightarrow> if 4 \<le> length bs then JNumber (sint word) else JString (hex_encode bs)
         | Unsigned64 \<Rightarrow>
             if 8 \<le> length bs
             then JNumber (uint word * 2 ^ 32 + uint (from_be32 (bs ! 4) (bs ! 5) (bs ! 6) (bs ! 7)))
             else JString (hex_encode bs)
         | OctetString \<Rightarrow> JString (hex_encode bs)
         | TbcdString \<Rightarrow> JString (decode_tbcd_digits bs)
         | AddressType \<Rightarrow> decode_address bs
         | TimeType \<Rightarrow> if 4 \<le> length bs then JNumber (uint (word - 2208988800)) else JString (hex_encode bs)
         | GroupedType \<Rightarrow> JObject [])"

text \<open>A second value under a name turns the first into an array.\<close>

definition add_entry :: "(string \<times> json) list \<Rightarrow> string \<Rightarrow> json \<Rightarrow> (string \<times> json) list" where
  "add_entry m name decoded =
     (case map_of m name of
        Some (JArray a) \<Rightarrow> AList.update name (JArray (a @ [decoded])) m
      | Some other \<Rightarrow> AList.update name (JArray [other, decoded]) m
      | None \<Rightarrow> m @ [(name, decoded)])"

definition unknown_name :: "u32 \<Rightarrow> u32 \<Rightarrow> string" where
  "unknown_name code vendor_id =
     (if vendor_id \<noteq> 0 then ''AVP-'' @ show_nat (unat code) @ ''-v'' @ show_nat (unat vendor_id)
      else ''AVP-'' @ show_nat (unat code))"

function decode_avps :: "(string \<times> json) list \<Rightarrow> octets \<Rightarrow> (string \<times> json) list" where
  "decode_avps m rest =
     (if length rest < 8 then m
      else
        let code = from_be32 (rest ! 0) (rest ! 1) (rest ! 2) (rest ! 3);
            flags = rest ! 4;
            len = from_be24 (rest ! 5) (rest ! 6) (rest ! 7)
        in if len < 8 \<or> length rest < len then m
           else if len < header_size flags then m
           else
             let vendor_id = (if has_vendor flags \<and> 12 \<le> length rest
                    then from_be32 (rest ! 8) (rest ! 9) (rest ! 10) (rest ! 11) else 0);
                 value_data = drop (header_size flags) (take len rest);
                 (name, decoded) = (case lookup_avp (unat code) (unat vendor_id) of
                    Some d \<Rightarrow> (def_name d,
                        if def_type d = GroupedType then JObject (decode_avps [] value_data)
                        else decode_leaf (def_type d) value_data)
                  | None \<Rightarrow> (unknown_name code vendor_id, JString (hex_encode value_data)))
             in decode_avps (add_entry m name decoded) (drop (pad4 len) rest))"
  by pat_completeness auto
termination
  by (relation "measure (\<lambda>(m, rest). length rest)") (auto simp: header_size_def pad4_def split: if_splits)

declare decode_avps.simps [simp del]

record diameter_message =
  msg_version :: u8
  msg_len :: nat
  msg_flags :: u8
  msg_command_code :: u32
  msg_application_id :: u32
  msg_hop_by_hop :: u32
  msg_end_to_end :: u32
  msg_is_request :: bool
  msg_avps :: json
  msg_raw :: octets

definition decode_diameter :: "octets \<Rightarrow> diameter_message option" where
  "decode_diameter msg =
     (if length msg < 20 then None
      else Some \<lparr>msg_version = msg ! 0, msg_len = from_be24 (msg ! 1) (msg ! 2) (msg ! 3), msg_flags = msg ! 4,
        msg_command_code = word_of_nat (from_be24 (msg ! 5) (msg ! 6) (msg ! 7)),
        msg_application_id = from_be32 (msg ! 8) (msg ! 9) (msg ! 10) (msg ! 11),
        msg_hop_by_hop = from_be32 (msg ! 12) (msg ! 13) (msg ! 14) (msg ! 15),
        msg_end_to_end = from_be32 (msg ! 16) (msg ! 17) (msg ! 18) (msg ! 19),
        msg_is_request = (msg ! 4 AND FLAG_REQUEST \<noteq> 0),
        msg_avps = JObject (decode_avps [] (drop 20 msg)), msg_raw = msg\<rparr>)"

definition as_str :: "avp \<Rightarrow> string option" where
  "as_str a = map_option from_utf8_lossy (raw_bytes a)"

definition get_str :: "diameter_msg \<Rightarrow> u32 \<Rightarrow> string option" where
  "get_str m code = Option.bind (dm_find m code 0) as_str"

definition command_labels :: "((nat \<times> bool) \<times> string) list" where
  "command_labels =
    [((257, True), ''CER''), ((257, False), ''CEA''), ((258, True), ''RAR''), ((258, False), ''RAA''),
     ((265, True), ''AAR''), ((265, False), ''AAA''), ((271, True), ''ACR''), ((271, False), ''ACA''),
     ((272, True), ''CCR''), ((272, False), ''CCA''), ((274, True), ''ASR''), ((274, False), ''ASA''),
     ((275, True), ''STR''), ((275, False), ''STA''), ((280, True), ''DWR''), ((280, False), ''DWA''),
     ((282, True), ''DPR''), ((282, False), ''DPA''), ((300, True), ''UAR''), ((300, False), ''UAA''),
     ((301, True), ''SAR''), ((301, False), ''SAA''), ((302, True), ''LIR''), ((302, False), ''LIA''),
     ((303, True), ''MAR''), ((303, False), ''MAA''), ((304, True), ''RTR''), ((304, False), ''RTA''),
     ((305, True), ''PPR''), ((305, False), ''PPA''), ((306, True), ''UDR''), ((306, False), ''UDA''),
     ((307, True), ''PUR''), ((307, False), ''PUA''), ((308, True), ''SNR''), ((308, False), ''SNA''),
     ((309, True), ''PNR''), ((309, False), ''PNA''), ((310, True), ''BIR''), ((310, False), ''BIA''),
     ((316, True), ''ULR''), ((316, False), ''ULA''), ((317, True), ''CLR''), ((317, False), ''CLA''),
     ((318, True), ''AIR''), ((318, False), ''AIA''), ((319, True), ''IDR''), ((319, False), ''IDA''),
     ((320, True), ''DSR''), ((320, False), ''DSA''), ((321, True), ''PUR-S6a''), ((321, False), ''PUA-S6a''),
     ((323, True), ''NOR''), ((323, False), ''NOA''), ((324, True), ''ECR''), ((324, False), ''ECA'')]"

definition command_name :: "nat \<Rightarrow> bool \<Rightarrow> string" where
  "command_name code request =
     (case map_of command_labels (code, request) of Some n \<Rightarrow> n | None \<Rightarrow> ''Unknown'')"

text \<open>The readers of the JSON view; a value that is no object has no members.\<close>

definition json_get :: "json \<Rightarrow> string \<Rightarrow> json option" where
  "json_get v name = (case v of JObject m \<Rightarrow> map_of m name | _ \<Rightarrow> None)"

definition json_str :: "json \<Rightarrow> string option" where
  "json_str v = (case v of JString s \<Rightarrow> Some s | _ \<Rightarrow> None)"

definition json_u64 :: "json \<Rightarrow> nat option" where
  "json_u64 v = (case v of JNumber n \<Rightarrow> if 0 \<le> n \<and> n < 2 ^ 64 then Some (nat n) else None | _ \<Rightarrow> None)"

definition extract_imsi :: "json \<Rightarrow> string option" where
  "extract_imsi avps = Option.bind (json_get avps ''User-Name'') json_str"

definition extract_u32_avp :: "json \<Rightarrow> nat \<Rightarrow> u32 option" where
  "extract_u32_avp avps code =
     Option.bind (avp_name code) (\<lambda>name. map_option word_of_nat (Option.bind (json_get avps name) json_u64))"

definition extract_grouped_avp :: "json \<Rightarrow> nat \<Rightarrow> json option" where
  "extract_grouped_avp avps code = Option.bind (avp_name code) (json_get avps)"

definition extract_octet_avp :: "json \<Rightarrow> nat \<Rightarrow> octets option" where
  "extract_octet_avp avps code =
     Option.bind (avp_name code) (\<lambda>name. Option.bind (Option.bind (json_get avps name) json_str) hex_decode)"

subsection \<open>Round trips of text\<close>

lemma nibble_mask: "(0x0F :: u8) = mask 4"
  by (simp add: mask_eq_exp_minus_1)

lemma nibbles: "push_bit 4 (drop_bit 4 b) OR (b AND 0x0F) = (b :: u8)"
  unfolding nibble_mask by (rule bit_word_eqI) (auto simp: bit_simps)

lemma nibble_less: "unat (drop_bit 4 (b :: u8)) < 16" "unat ((b :: u8) AND 0x0F) < 16"
proof -
  show "unat (drop_bit 4 b) < 16"
    using u8_less [of b] by (simp add: drop_bit_eq_div unat_div)
  have "unat (b AND 0x0F) = unat b mod 16"
    unfolding nibble_mask take_bit_eq_mask [symmetric] by (simp add: take_bit_eq_mod unat_mod)
  then show "unat (b AND 0x0F) < 16" by simp
qed

lemma hex_value_char: "unat d < 16 \<Longrightarrow> hex_value (HEX_CHARS ! unat d) = Some d"
proof -
  assume "unat d < 16"
  moreover have "\<forall>n < 16. hex_value (HEX_CHARS ! n) = Some (word_of_nat n)" by code_simp
  ultimately have "hex_value (HEX_CHARS ! unat d) = Some (word_of_nat (unat d))" by blast
  then show ?thesis by simp
qed

lemma hex_pairs_encode: "hex_pairs (hex_encode bs) = Some bs"
  by (induction bs) (simp_all add: hex_value_char nibble_less nibbles)

lemma even_hex_encode: "even (length (hex_encode bs))"
  by (induction bs) simp_all

lemma digit_nibbles:
  fixes lo hi :: u8
  assumes "lo \<le> 9" and "hi < 16"
  shows "(push_bit 4 hi OR lo) AND 0x0F = lo" and "drop_bit 4 (push_bit 4 hi OR lo) AND 0x0F = hi"
proof -
  have "unat (take_bit 4 lo) = unat lo" "unat (take_bit 4 hi) = unat hi"
    using assms by (simp_all add: take_bit_eq_mod unat_mod word_le_nat_alt word_less_nat_alt)
  then have "take_bit 4 lo = lo" "take_bit 4 hi = hi" by (simp_all add: word_unat_eq_iff)
  then have bits: "bit lo n \<Longrightarrow> n < 4" "bit hi n \<Longrightarrow> n < 4" for n
    by (metis bit_take_bit_iff)+
  show "(push_bit 4 hi OR lo) AND 0x0F = lo"
    unfolding nibble_mask by (rule bit_word_eqI) (auto simp: bit_simps dest: bits)
  show "drop_bit 4 (push_bit 4 hi OR lo) AND 0x0F = hi"
    unfolding nibble_mask by (rule bit_word_eqI) (auto simp: bit_simps dest: bits)
qed

definition digit_of :: "char \<Rightarrow> u8" where
  "digit_of c = word_of_nat (of_char c - 48)"

lemma digit_of: "is_digit c \<Longrightarrow> digit_of c \<le> 9" "is_digit c \<Longrightarrow> tbcd_char (digit_of c) = [c]"
proof -
  assume "is_digit c"
  then obtain n where n: "n \<le> 9" "of_char c = 48 + (n :: nat)"
    by (auto simp: is_digit_def in_range_def intro: that [of "of_char c - 48"])
  then have d: "digit_of c = word_of_nat n" by (simp add: digit_of_def)
  have u: "unat (word_of_nat n :: u8) = n" using n(1) by (simp add: unat_of_nat take_bit_eq_mod)
  show "digit_of c \<le> 9" using n(1) by (simp add: d word_le_nat_alt u)
  then show "tbcd_char (digit_of c) = [c]"
    using u n(2) by (simp add: tbcd_char_def d) (metis char_of_char n(2))
qed

lemma decode_tbcd_pairs: "list_all is_digit s \<Longrightarrow> decode_tbcd_digits (tbcd_pairs (map digit_of s)) = s"
proof (induction "map digit_of s" arbitrary: s rule: tbcd_pairs.induct)
  case (1 lo hi ds)
  then obtain c d s' where s: "s = c # d # s'" "lo = digit_of c" "hi = digit_of d" "ds = map digit_of s'"
    by (auto simp: map_eq_Cons_conv)
  have "hi < 16" using digit_of(1) [where c = d] 1(3) s by (simp add: word_le_nat_alt word_less_nat_alt)
  with digit_nibbles [where lo = lo and hi = hi] digit_of 1 s show ?case by (simp add: decode_tbcd_digits_def)
next
  case (2 lo)
  then obtain c where s: "s = [c]" "lo = digit_of c" by auto
  with digit_nibbles [where lo = lo and hi = "0x0F"] digit_of [where c = c] 2 show ?case
    by (simp add: decode_tbcd_digits_def tbcd_char_def)
qed (simp add: decode_tbcd_digits_def)

lemma tbcd_reads_past_filler: "decode_tbcd_digits [0xF1, 0x32] = ''123''"
  by code_simp

text \<open>
  C34. Octets and telephone numbers survive their text form: hexadecimal text reads back as the octets it was
  made from, and a number packed as TBCD, bare or after its type octet, reads back as its
  digits, whatever other characters it was written with.  A filler nibble in the middle of a number does not end
  it: the digits after it are read on.
\<close>

theorem value_roundtrips:
  "hex_decode (hex_encode bs) = Some bs
   \<and> decode_tbcd_digits (encode_tbcd_digits s) = filter is_digit s
   \<and> decode_isdn_address_string (encode_isdn_address_string s TON_NPI_INTERNATIONAL_E164) = filter is_digit s
   \<and> decode_tbcd_digits [0xF1, 0x32] = ''123''"
proof -
  have "decode_tbcd_digits (encode_tbcd_digits s) = filter is_digit s"
    using decode_tbcd_pairs [of "filter is_digit s"]
    by (simp add: encode_tbcd_digits_def digit_of_def [abs_def] list_all_iff)
  then show ?thesis
    by (simp add: hex_decode_def even_hex_encode hex_pairs_encode decode_isdn_address_string_def
        encode_isdn_address_string_def TON_NPI_INTERNATIONAL_E164_def tbcd_reads_past_filler)
qed

subsection \<open>The view of a tree\<close>

text \<open>What the JSON view shows of a lossless tree.\<close>

definition view_name :: "u32 \<Rightarrow> u32 \<Rightarrow> string" where
  "view_name c v = (case lookup_avp (unat c) (unat v) of Some d \<Rightarrow> def_name d | None \<Rightarrow> unknown_name c v)"

fun tree_view :: "(string \<times> json) list \<Rightarrow> avp list \<Rightarrow> (string \<times> json) list"
  and value_view :: "u32 \<Rightarrow> u32 \<Rightarrow> avp_data \<Rightarrow> json" where
  "tree_view m [] = m"
| "tree_view m (Avp c v f x # as) = tree_view (add_entry m (view_name c v) (value_view c v x)) as"
| "value_view c v (Grouped cs) = JObject (tree_view [] cs)"
| "value_view c v (Raw bs) =
     (case lookup_avp (unat c) (unat v) of Some d \<Rightarrow> decode_leaf (def_type d) bs | None \<Rightarrow> JString (hex_encode bs))"

lemma decode_avps_tree:
  assumes "parse_avps pos rest = Inr as"
  shows "decode_avps m rest = tree_view m as"
  using assms
proof (induction "length rest" arbitrary: pos rest m as rule: less_induct)
  case less
  show ?case
  proof (cases "length rest < 8")
    case True
    then have "as = []" using less.prems by (subst (asm) parse_avps.simps) simp
    with True show ?thesis by (subst decode_avps.simps) simp
  next
    case False
    define f where "f = rest ! 4"
    define len where "len = from_be24 (rest ! 5) (rest ! 6) (rest ! 7)"
    define c where "c = from_be32 (rest ! 0) (rest ! 1) (rest ! 2) (rest ! 3)"
    define v where "v = (if has_vendor f then from_be32 (rest ! 8) (rest ! 9) (rest ! 10) (rest ! 11) else 0)"
    define bs where "bs = drop (header_size f) (take len rest)"
    note parsed = less.prems [unfolded parse_avps.simps [of pos rest] Let_def, folded f_def len_def c_def, folded v_def bs_def]
    from parsed False obtain x as' where as: "as = Avp c v f x # as'" and len: "header_size f \<le> len" "len \<le> length rest"
      and x: "value_read c v bs x" and after: "parse_avps (pos + pad4 len) (drop (pad4 len) rest) = Inr as'"
      by (auto simp: value_read_def split: if_splits sum.splits)
    have h: "8 \<le> header_size f" "has_vendor f \<Longrightarrow> 12 \<le> length rest" using len by (auto simp: header_size_def)
    have "length (drop (pad4 len) rest) < length rest" using pad4_ge(1) [of len] len h by simp
    note rest_view = less.hyps [OF this after]
    have group_view: "JObject (decode_avps [] bs) = value_view c v x" if grouped: "is_grouped c v"
    proof -
      obtain cs where cs: "x = Grouped cs" "parse_avps 0 bs = Inr cs" using x grouped by (auto simp: value_read_def)
      have "length bs < length rest" using len h False by (auto simp: bs_def)
      from less.hyps [OF this cs(2)] cs(1) show ?thesis by simp
    qed
    have entry: "(case lookup_avp (unat c) (unat v) of
        Some d \<Rightarrow> (def_name d, if def_type d = GroupedType then JObject (decode_avps [] bs) else decode_leaf (def_type d) bs)
      | None \<Rightarrow> (unknown_name c v, JString (hex_encode bs))) = (view_name c v, value_view c v x)"
      using group_view x by (auto simp: view_name_def is_grouped_def value_read_def split: option.splits)
    have vendor: "(if has_vendor f \<and> 12 \<le> length rest
        then from_be32 (rest ! 8) (rest ! 9) (rest ! 10) (rest ! 11) else 0) = v"
      using h(2) by (auto simp: v_def)
    have bounds: "\<not> (len < 8 \<or> length rest < len)" "\<not> len < header_size f" using len h by auto
    show ?thesis
      unfolding decode_avps.simps [of m rest] Let_def f_def [symmetric] len_def [symmetric] c_def [symmetric]
        vendor bs_def [symmetric] entry prod.case as tree_view.simps
      using False bounds rest_view by simp
  qed
qed

text \<open>
  C21. The two decoders cannot disagree about a message: when a message read off the wire parses into the lossless
  tree, the JSON decoder accepts it too, with the same header fields, and its view is the view
  of that tree, at every level, with unknown AVPs and repeated ones included.
\<close>

theorem json_view_of_tree:
  assumes "read_diameter_message stream = Inr (w, later)" and "from_wire w = Inr m"
  shows "\<exists>d. decode_diameter w = Some d \<and> msg_avps d = JObject (tree_view [] (dm_avps m))
    \<and> msg_flags d = dm_flags m \<and> msg_command_code d = command_code m \<and> msg_application_id d = application_id m
    \<and> msg_hop_by_hop d = hop_by_hop m \<and> msg_end_to_end d = end_to_end m
    \<and> msg_is_request d = dm_is_request m \<and> msg_len d = length w \<and> msg_raw d = w"
proof -
  let ?n = "from_be24 (stream ! 1) (stream ! 2) (stream ! 3)"
  have w: "w = take ?n stream" "20 \<le> ?n" "?n \<le> length stream"
    using assms(1) by (auto simp: read_diameter_message_def Let_def not_less split: if_splits)
  then have len: "length w = ?n" "from_be24 (w ! 1) (w ! 2) (w ! 3) = ?n" by simp_all
  have parsed: "parse_avps 0 (drop 20 w) = Inr (dm_avps m)"
    using assms(2) len w(2) by (auto simp: from_wire_def Let_def split: if_splits sum.splits simp del: One_nat_def)
  show ?thesis
    using assms(2) len w(2) decode_avps_tree [OF parsed, of "[]"]
    by (auto simp: from_wire_def decode_diameter_def dm_is_request_def Let_def split: if_splits sum.splits simp del: One_nat_def)
qed

theorem json_view_of_tree_witness:
  "\<exists>d. decode_diameter (to_wire example_answer) = Some d
     \<and> msg_avps d = JObject [(''Result-Code'', JNumber 2001),
          (''Vendor-Specific-Application-Id'', JObject [(''Vendor-Id'', JNumber 10415)])]"
proof -
  have "tree_view [] (dm_avps example_answer) = [(''Result-Code'', JNumber 2001),
      (''Vendor-Specific-Application-Id'', JObject [(''Vendor-Id'', JNumber 10415)])]"
    by (simp add: example_answer_def avp_u32_def avp_raw_def avp_is_mandatory_def view_name_def example_lookups
        add_entry_def decode_leaf_def be_bytes32_def from_be32_def)
  then show ?thesis
    using json_view_of_tree [of "to_wire example_answer" "to_wire example_answer" "[]" example_answer]
      read_to_wire [of example_answer "[]"] from_wire_to_wire [of example_answer "[]"] example_answer_wf by auto
qed

end
