(* ===== verification/Registrar.thy ===== *)
theory Registrar
  imports Sip_Parser Ue_Sockets Tx_Actions "HOL-Library.Product_Lexorder" "HOL-Library.AList"
begin

text \<open>
  The registrar (\<^verbatim>\<open>src/src/registrar/mod.rs\<close>, \<^verbatim>\<open>update.rs\<close>, \<^verbatim>\<open>contact_index.rs\<close> and
  \<^verbatim>\<open>restore_eviction.rs\<close>): bindings of contacts to addresses of record, with the auxiliary
  state of an address and the reverse indexes by flow token, by connection and by contact.
  Each concurrent map is an association list and each operation one step; the time is an
  argument, in nanoseconds; a q-value is a number of thousandths.  The gauge of active registrations and the
  events of the registrar are part of the state.  Writing through to a persistent backend is
  left out: the state here is the one of a registrar that has none.
\<close>

subsection \<open>Addresses of record\<close>

definition trim_start_char :: "char \<Rightarrow> string \<Rightarrow> string" where
  "trim_start_char c = dropWhile (\<lambda>x. x = c)"

definition trim_end_char :: "char \<Rightarrow> string \<Rightarrow> string" where
  "trim_end_char c s = rev (dropWhile (\<lambda>x. x = c) (rev s))"

function trim_end_text :: "string \<Rightarrow> string \<Rightarrow> string" where
  "trim_end_text p s =
     (case strip_suffix p s of Some r \<Rightarrow> if p = [] then s else trim_end_text p r | None \<Rightarrow> s)"
  by pat_completeness auto
termination
  by (relation "measure (\<lambda>(p, s). length s)") (auto simp: strip_suffix_def strip_prefix_Some_iff dest: arg_cong [where f = length])

declare trim_end_text.simps [simp del]

definition normalize_aor :: "string \<Rightarrow> string" where
  "normalize_aor uri0 =
     (let uri = trim_end_char CHR ''>'' (trim_start_char CHR ''<'' uri0);
          sips = starts_with ''sips:'' uri;
          has_scheme = (sips \<or> starts_with ''sip:'' uri);
          uri1 = takeWhile (\<lambda>c. c \<noteq> CHR '';'') uri;
          uri2 = takeWhile (\<lambda>c. c \<noteq> CHR ''?'') uri1;
          uri3 = trim_end_text (if sips then '':5061'' else '':5060'') uri2
      in if has_scheme then uri3 else ''sip:'' @ uri3)"

definition is_aor_key_safe :: "string \<Rightarrow> bool" where
  "is_aor_key_safe aor \<longleftrightarrow>
     \<not> starts_with ''state:'' aor \<and> list_all (\<lambda>c. \<not> (of_char c < (32 :: nat) \<or> of_char c = (127 :: nat))) aor"

subsection \<open>Contacts\<close>

type_synonym aor = string

datatype contact_kind = Ue | As

record instance_identity =
  inst_id :: string
  inst_epoch :: string

record contact =
  c_uri :: sip_uri
  c_q :: nat
  registered_at :: nat
  expires_secs :: nat
  c_call_id :: string
  c_cseq :: nat
  source_addr :: "sockaddr option"
  source_transport :: "net_transport option"
  client_transport :: "net_transport option"
  sip_instance :: "string option"
  reg_id :: "nat option"
  c_path :: "string list"
  c_pending :: bool
  c_instance :: "instance_identity option"
  flow_token :: "string option"
  inbound_local_addr :: "sockaddr option"
  inbound_connection_id :: "nat option"
  c_params :: "(string \<times> string option) list"
  c_kind :: contact_kind
  c_auth_user :: "string option"

definition is_stream :: "net_transport \<Rightarrow> bool" where
  "is_stream t \<longleftrightarrow> t = NetTcp \<or> t = NetTls \<or> t = NetWebSocket \<or> t = NetWebSocketSecure"

definition is_stream_transport :: "net_transport option \<Rightarrow> bool" where
  "is_stream_transport t = (case t of Some x \<Rightarrow> is_stream x | None \<Rightarrow> False)"

definition age_seconds :: "nat \<Rightarrow> contact \<Rightarrow> nat" where
  "age_seconds now c = (now - registered_at c) div 1000000000"

definition remaining_seconds :: "nat \<Rightarrow> contact \<Rightarrow> nat" where
  "remaining_seconds now c = expires_secs c - age_seconds now c"

definition is_expired :: "nat \<Rightarrow> contact \<Rightarrow> bool" where
  "is_expired now c \<longleftrightarrow> expires_secs c \<le> age_seconds now c"

definition live_ue :: "nat \<Rightarrow> contact \<Rightarrow> bool" where
  "live_ue now c \<longleftrightarrow> c_kind c = Ue \<and> \<not> is_expired now c"

definition parse_contact_target :: "string \<Rightarrow> sip_uri option" where
  "parse_contact_target s = parse_uri_standalone (trim_end_char CHR ''>'' (trim_start_char CHR ''<'' (trim s)))"

definition contact_target :: "string \<Rightarrow> sip_uri option" where
  "contact_target s =
     (case parse_contact_target s of Some u \<Rightarrow> Some u | None \<Rightarrow> parse_contact_target (normalize_aor s))"

definition default_port :: "sip_uri \<Rightarrow> nat" where
  "default_port u = (if uri_scheme u = Sips then 5061 else 5060)"

definition port_or_default :: "sip_uri \<Rightarrow> nat" where
  "port_or_default u = (case uri_port u of Some p \<Rightarrow> p | None \<Rightarrow> default_port u)"

definition same_contact :: "sip_uri \<Rightarrow> sip_uri \<Rightarrow> bool" where
  "same_contact stored tgt \<longleftrightarrow>
     uri_scheme stored = uri_scheme tgt \<and> uri_user stored = uri_user tgt
     \<and> to_lower (uri_host stored) = to_lower (uri_host tgt)
     \<and> port_or_default stored = port_or_default tgt"

text \<open>Stable sorts: by q-value, highest first; then, for routing, by age.\<close>

definition sort_by_q :: "contact list \<Rightarrow> contact list" where
  "sort_by_q = sort_key (\<lambda>c. - int (c_q c))"

definition sort_by_preference :: "nat \<Rightarrow> contact list \<Rightarrow> contact list" where
  "sort_by_preference now = sort_key (\<lambda>c. (- int (c_q c), age_seconds now c))"

subsection \<open>The contact index\<close>

datatype holders = One aor | Many "(aor \<times> nat) list"

definition holders_aors :: "holders \<Rightarrow> aor list" where
  "holders_aors h = (case h of One a \<Rightarrow> [a] | Many counts \<Rightarrow> map fst counts)"

definition holders_add :: "aor \<Rightarrow> holders \<Rightarrow> holders" where
  "holders_add a h =
     (let counts = (case h of One held \<Rightarrow> [(held, 1)] | Many cs \<Rightarrow> cs)
      in Many (AList.update a ((case map_of counts a of Some n \<Rightarrow> n | None \<Rightarrow> 0) + 1) counts))"

definition holders_remove :: "aor \<Rightarrow> holders \<Rightarrow> holders \<times> bool" where
  "holders_remove a h =
     (case h of
        One held \<Rightarrow> (h, held \<noteq> a)
      | Many counts \<Rightarrow>
          (let counts' = (case map_of counts a of
                 None \<Rightarrow> counts
               | Some n \<Rightarrow> if n - 1 = 0 then AList.delete a counts else AList.update a (n - 1) counts)
           in case counts' of
                [] \<Rightarrow> (Many [], False)
              | [(l, Suc 0)] \<Rightarrow> (One l, True)
              | _ \<Rightarrow> (Many counts', True)))"

type_synonym contact_index = "(nat \<times> holders) list"

text \<open>
  The identity of a contact URI is what \<^const>\<open>same_contact\<close> compares, the identity of a source is its address;
  the keys are hashes of them, keyed at start-up.
\<close>

datatype identity = ContactIdentity scheme "string option" string nat | SourceIdentity sockaddr

type_synonym hasher = "identity \<Rightarrow> nat"

definition uri_identity :: "sip_uri \<Rightarrow> identity" where
  "uri_identity u = ContactIdentity (uri_scheme u) (uri_user u) (to_lower (uri_host u)) (port_or_default u)"

definition key_of :: "hasher \<Rightarrow> sip_uri \<Rightarrow> nat" where
  "key_of hash u = hash (uri_identity u)"

definition source_key_of :: "hasher \<Rightarrow> sockaddr \<Rightarrow> nat" where
  "source_key_of hash source = hash (SourceIdentity source)"

definition keys_of_binding :: "hasher \<Rightarrow> contact \<Rightarrow> nat list" where
  "keys_of_binding hash c =
     (if c_kind c = Ue
      then key_of hash (c_uri c) # (case source_addr c of Some s \<Rightarrow> [source_key_of hash s] | None \<Rightarrow> [])
      else [])"

definition keys_of :: "hasher \<Rightarrow> contact list \<Rightarrow> nat list" where
  "keys_of hash cs = concat (map (keys_of_binding hash) cs)"

definition index_add :: "aor \<Rightarrow> nat \<Rightarrow> contact_index \<Rightarrow> contact_index" where
  "index_add a key ix =
     AList.update key (case map_of ix key of Some h \<Rightarrow> holders_add a h | None \<Rightarrow> One a) ix"

definition index_remove :: "aor \<Rightarrow> nat \<Rightarrow> contact_index \<Rightarrow> contact_index" where
  "index_remove a key ix =
     (case map_of ix key of
        None \<Rightarrow> ix
      | Some h \<Rightarrow> (case holders_remove a h of
            (h', True) \<Rightarrow> AList.update key h' ix
          | (_, False) \<Rightarrow> AList.delete key ix))"

definition index_remove_all :: "hasher \<Rightarrow> aor \<Rightarrow> contact list \<Rightarrow> contact_index \<Rightarrow> contact_index" where
  "index_remove_all hash a cs ix = foldl (\<lambda>ix key. index_remove a key ix) ix (keys_of hash cs)"

fun index_merge :: "aor \<Rightarrow> nat list \<Rightarrow> nat list \<Rightarrow> contact_index \<Rightarrow> contact_index" where
  "index_merge a (gone # old) (added # new) ix =
     (if gone = added then index_merge a old new ix
      else if added < gone then index_merge a (gone # old) new (index_add a added ix)
      else index_merge a old (added # new) (index_remove a gone ix))"
| "index_merge a (gone # old) [] ix = index_merge a old [] (index_remove a gone ix)"
| "index_merge a [] (added # new) ix = index_merge a [] new (index_add a added ix)"
| "index_merge a [] [] ix = ix"

definition index_replace :: "aor \<Rightarrow> nat list \<Rightarrow> nat list \<Rightarrow> contact_index \<Rightarrow> contact_index" where
  "index_replace a before after ix = (if before = after then ix else index_merge a (sort before) (sort after) ix)"

definition index_aors :: "contact_index \<Rightarrow> nat \<Rightarrow> aor list" where
  "index_aors ix key = (case map_of ix key of Some h \<Rightarrow> holders_aors h | None \<Rightarrow> [])"

subsection \<open>The registrar\<close>

record registrar_config =
  default_expires :: nat
  max_expires :: nat
  min_expires :: nat
  max_contacts :: nat
  enforce_auth_aor_match :: bool

definition config_default :: registrar_config where
  "config_default = \<lparr>default_expires = 3600, max_expires = 7200, min_expires = 60, max_contacts = 10,
     enforce_auth_aor_match = False\<rparr>"

datatype registration_event = Registered aor | Refreshed aor | Deregistered aor | Expired aor

datatype registrar_error = IntervalTooBrief nat | TooManyContacts nat | InvalidAor

record registrar =
  bindings :: "(aor \<times> contact list) list"
  service_route_map :: "(aor \<times> string list) list"
  asserted_map :: "(aor \<times> string) list"
  associated_map :: "(aor \<times> string list) list"
  alias_map :: "(aor \<times> aor) list"
  token_map :: "(string \<times> aor) list"
  connection_index :: "(nat \<times> aor list) list"
  reg_contact_index :: contact_index
  reg_config :: registrar_config
  reg_identity :: "instance_identity option"
  registrations_active :: int
  reg_events :: "registration_event list"

definition registrar_new :: "registrar_config \<Rightarrow> registrar" where
  "registrar_new cfg = \<lparr>bindings = [], service_route_map = [], asserted_map = [], associated_map = [], alias_map = [],
     token_map = [], connection_index = [], reg_contact_index = [], reg_config = cfg, reg_identity = None,
     registrations_active = 0, reg_events = []\<rparr>"

definition set_instance_identity :: "instance_identity \<Rightarrow> registrar \<Rightarrow> registrar" where
  "set_instance_identity i r = (case reg_identity r of None \<Rightarrow> r\<lparr>reg_identity := Some i\<rparr> | Some _ \<Rightarrow> r)"

definition is_local_contact :: "registrar \<Rightarrow> contact \<Rightarrow> bool" where
  "is_local_contact r c =
     (case (reg_identity r, c_instance c) of (Some i, Some j) \<Rightarrow> i = j | _ \<Rightarrow> False)"

text \<open>The bindings of an address, none when it has no entry.\<close>

definition bindings_of :: "registrar \<Rightarrow> aor \<Rightarrow> contact list" where
  "bindings_of r a = (case map_of (bindings r) a of Some cs \<Rightarrow> cs | None \<Rightarrow> [])"

definition emit_event :: "registration_event \<Rightarrow> registrar \<Rightarrow> registrar" where
  "emit_event e r = r\<lparr>reg_events := reg_events r @ [e]\<rparr>"

definition gauge_add :: "int \<Rightarrow> registrar \<Rightarrow> registrar" where
  "gauge_add n r = r\<lparr>registrations_active := registrations_active r + n\<rparr>"

definition resolve_alias :: "registrar \<Rightarrow> string \<Rightarrow> aor" where
  "resolve_alias r a0 =
     (let a = normalize_aor a0 in case map_of (alias_map r) a of Some primary \<Rightarrow> primary | None \<Rightarrow> a)"

definition prune_aliases_to :: "aor \<Rightarrow> registrar \<Rightarrow> registrar" where
  "prune_aliases_to primary r =
     (case map_of (associated_map r) primary of
        None \<Rightarrow> r
      | Some uris \<Rightarrow>
          r\<lparr>alias_map := foldl (\<lambda>m a. if map_of m a = Some primary then AList.delete a m else m) (alias_map r)
              (filter (\<lambda>a. a \<noteq> primary) (map normalize_aor uris))\<rparr>)"

definition install_aliases :: "aor \<Rightarrow> string list \<Rightarrow> registrar \<Rightarrow> registrar" where
  "install_aliases primary uris r =
     (let r1 = prune_aliases_to primary r
      in r1\<lparr>alias_map := foldl (\<lambda>m uri. let a = normalize_aor uri
             in if a \<noteq> primary then AList.update a primary m else m) (alias_map r1) uris\<rparr>)"

definition remove_aor_state_entries :: "aor \<Rightarrow> registrar \<Rightarrow> registrar" where
  "remove_aor_state_entries a r =
     r\<lparr>service_route_map := AList.delete a (service_route_map r),
       asserted_map := AList.delete a (asserted_map r),
       associated_map := AList.delete a (associated_map r)\<rparr>"

definition drop_aor_state :: "aor \<Rightarrow> registrar \<Rightarrow> registrar" where
  "drop_aor_state a r = remove_aor_state_entries a (prune_aliases_to a r)"

definition index_connection :: "nat option \<Rightarrow> bool \<Rightarrow> aor \<Rightarrow> registrar \<Rightarrow> registrar" where
  "index_connection cid stream a r =
     (case cid of
        Some i \<Rightarrow>
          if stream then
            (let as = (case map_of (connection_index r) i of Some as \<Rightarrow> as | None \<Rightarrow> [])
             in r\<lparr>connection_index := AList.update i (if a \<in> set as then as else as @ [a]) (connection_index r)\<rparr>)
          else r
      | None \<Rightarrow> r)"

definition deindex_connection :: "nat \<Rightarrow> aor \<Rightarrow> registrar \<Rightarrow> registrar" where
  "deindex_connection i a r =
     (case map_of (connection_index r) i of
        None \<Rightarrow> r
      | Some as \<Rightarrow>
          (let as' = filter (\<lambda>x. x \<noteq> a) as
           in r\<lparr>connection_index :=
                (if as' = [] then AList.delete i (connection_index r) else AList.update i as' (connection_index r))\<rparr>))"

definition remove_token :: "string \<Rightarrow> registrar \<Rightarrow> registrar" where
  "remove_token t r = r\<lparr>token_map := AList.delete t (token_map r)\<rparr>"

text \<open>What the reverse indexes hold for a binding that is dropped.\<close>

definition retired_tokens :: "contact \<Rightarrow> string list" where
  "retired_tokens c = (case flow_token c of Some t \<Rightarrow> [t] | None \<Rightarrow> [])"

definition retired_connections :: "contact \<Rightarrow> nat list" where
  "retired_connections c =
     (if is_stream_transport (source_transport c)
      then (case inbound_connection_id c of Some i \<Rightarrow> [i] | None \<Rightarrow> []) else [])"

definition forget_flows :: "string list \<Rightarrow> nat list \<Rightarrow> aor \<Rightarrow> registrar \<Rightarrow> registrar" where
  "forget_flows ts cs a r = foldl (\<lambda>r i. deindex_connection i a r) (foldl (\<lambda>r t. remove_token t r) r ts) cs"

subsection \<open>Applying a REGISTER\<close>

record contact_update =
  up_uri :: sip_uri
  up_expires :: nat
  up_q :: nat
  up_call_id :: string
  up_cseq :: nat
  up_source_addr :: "sockaddr option"
  up_source_transport :: "net_transport option"
  up_client_transport :: "net_transport option"
  up_sip_instance :: "string option"
  up_reg_id :: "nat option"
  up_path :: "string list"
  up_flow_token :: "string option"
  up_local_addr :: "sockaddr option"
  up_connection_id :: "nat option"
  up_params :: "(string \<times> string option) list"
  up_auth_user :: "string option"

datatype effect =
    Removed (stale_tokens: "string list") (stale_connections: "nat list") (emptied: bool)
  | Stored (stale_tokens: "string list") (stale_connections: "nat list") (new_token: "string option")
      (new_connection: "nat option") (on_stream: bool) (refreshed: bool)

definition contact_of_update :: "nat \<Rightarrow> registrar \<Rightarrow> contact_update \<Rightarrow> contact" where
  "contact_of_update now r u =
     \<lparr>c_uri = up_uri u, c_q = up_q u, registered_at = now, expires_secs = up_expires u, c_call_id = up_call_id u,
      c_cseq = up_cseq u, source_addr = up_source_addr u, source_transport = up_source_transport u,
      client_transport = up_client_transport u, sip_instance = up_sip_instance u, reg_id = up_reg_id u,
      c_path = up_path u, c_pending = False, c_instance = reg_identity r, flow_token = up_flow_token u,
      inbound_local_addr = up_local_addr u, inbound_connection_id = up_connection_id u, c_params = up_params u,
      c_kind = Ue, c_auth_user = up_auth_user u\<rparr>"

definition replace_index :: "contact_update \<Rightarrow> contact list \<Rightarrow> nat option" where
  "replace_index u cs =
     (case (case up_sip_instance u of
              Some i \<Rightarrow> position_of (\<lambda>c. sip_instance c = Some i) cs
            | None \<Rightarrow> None) of
        Some i \<Rightarrow> Some i
      | None \<Rightarrow> position_of (\<lambda>c. show_uri (c_uri c) = show_uri (up_uri u)) cs)"

definition stage :: "nat \<Rightarrow> registrar \<Rightarrow> contact list \<Rightarrow> contact_update \<Rightarrow> registrar_error + contact list \<times> effect" where
  "stage now r contacts u =
     (if 0 < up_expires u \<and> up_expires u < min_expires (reg_config r)
      then Inl (IntervalTooBrief (min_expires (reg_config r)))
      else
        (let expired = filter (is_expired now) contacts;
             cs = filter (\<lambda>c. \<not> is_expired now c) contacts;
             ts = concat (map retired_tokens expired);
             conns = concat (map retired_connections expired)
         in if up_expires u = 0 then
              (let gone = (\<lambda>c. c_kind c = Ue \<and> show_uri (c_uri c) = show_uri (up_uri u));
                   ts' = ts @ concat (map retired_tokens (filter gone cs));
                   conns' = conns @ concat (map retired_connections (filter gone cs));
                   kept = filter (\<lambda>c. \<not> gone c) cs;
                   left = (if list_ex (live_ue now) kept then kept else [])
               in Inr (left, Removed ts' conns' (left = [])))
            else
              (let c = contact_of_update now r u;
                   outcome = (\<lambda>cs' ts' conns' refresh.
                     Inr (sort_by_q cs', Stored ts' conns' (up_flow_token u) (up_connection_id u)
                            (is_stream_transport (up_source_transport u)) refresh))
               in case replace_index u cs of
                    Some i \<Rightarrow>
                      outcome (cs[i := c]) (ts @ retired_tokens (cs ! i)) (conns @ retired_connections (cs ! i)) True
                  | None \<Rightarrow>
                      if max_contacts (reg_config r) \<le> length cs
                      then Inl (TooManyContacts (max_contacts (reg_config r)))
                      else outcome (cs @ [c]) ts conns False)))"

fun stage_all :: "nat \<Rightarrow> registrar \<Rightarrow> contact list \<Rightarrow> contact_update list \<Rightarrow> registrar_error + contact list \<times> effect list" where
  "stage_all now r cs [] = Inr (cs, [])"
| "stage_all now r cs (u # us) =
     (case stage now r cs u of
        Inl e \<Rightarrow> Inl e
      | Inr (cs', e) \<Rightarrow>
          (case stage_all now r cs' us of Inl err \<Rightarrow> Inl err | Inr (cs'', es) \<Rightarrow> Inr (cs'', e # es)))"

definition carry_out :: "aor \<Rightarrow> registrar \<Rightarrow> effect \<Rightarrow> registrar" where
  "carry_out a r e =
     (case e of
        Removed ts conns none \<Rightarrow>
          (let r1 = forget_flows ts conns a r;
               r2 = (if none then gauge_add (-1) (drop_aor_state a r1) else r1)
           in emit_event (Deregistered a) r2)
      | Stored ts conns tok cid stream refresh \<Rightarrow>
          (let r1 = foldl (\<lambda>r t. if Some t \<noteq> tok then remove_token t r else r) r ts;
               r2 = (case tok of Some t \<Rightarrow> r1\<lparr>token_map := AList.update t a (token_map r1)\<rparr> | None \<Rightarrow> r1);
               r3 = foldl (\<lambda>r i. deindex_connection i a r) r2 conns;
               r4 = index_connection cid stream a r3
           in if refresh then emit_event (Refreshed a) r4
              else emit_event (Registered a) (gauge_add 1 r4)))"

definition alias_retired_by_clearing :: "registrar \<Rightarrow> string \<Rightarrow> aor \<Rightarrow> bool" where
  "alias_retired_by_clearing r a primary =
     (let addressed = normalize_aor a
      in addressed \<noteq> primary
         \<and> (case map_of (associated_map r) primary of
              Some uris \<Rightarrow> list_ex (\<lambda>u. normalize_aor u = addressed) uris | None \<Rightarrow> False))"

text \<open>Taking the entry of an address out of the map.\<close>

definition take_bindings :: "aor \<Rightarrow> registrar \<Rightarrow> registrar \<times> contact list option" where
  "take_bindings a r = (r\<lparr>bindings := AList.delete a (bindings r)\<rparr>, map_of (bindings r) a)"

definition release_cleared :: "hasher \<Rightarrow> aor \<Rightarrow> contact list option \<Rightarrow> registrar \<Rightarrow> registrar" where
  "release_cleared hash a contacts r =
     (let cs = (case contacts of Some cs \<Rightarrow> cs | None \<Rightarrow> []);
          r1 = r\<lparr>reg_contact_index := index_remove_all hash a cs (reg_contact_index r)\<rparr>;
          r2 = foldl (\<lambda>r c. forget_flows (retired_tokens c) (retired_connections c) a r) r1 cs
      in drop_aor_state a r2)"

definition clear_bindings :: "hasher \<Rightarrow> string \<Rightarrow> registrar \<Rightarrow> registrar" where
  "clear_bindings hash a r =
     (let primary = resolve_alias r a; (r1, removed) = take_bindings primary r
      in release_cleared hash primary removed r1)"

definition put_bindings :: "aor \<Rightarrow> contact list \<Rightarrow> registrar \<Rightarrow> registrar" where
  "put_bindings a cs r =
     r\<lparr>bindings := (if cs = [] then AList.delete a (bindings r) else AList.update a cs (bindings r))\<rparr>"

text \<open>
  The address a REGISTER is stored under, the bindings its contacts are staged on, and the commit of the
  staged list with what a forced REGISTER clears.
\<close>

definition register_key :: "registrar \<Rightarrow> string \<Rightarrow> bool \<Rightarrow> aor" where
  "register_key r a force =
     (let primary = resolve_alias r a
      in if force \<and> alias_retired_by_clearing r a primary then normalize_aor a else primary)"

definition clears_this_list :: "registrar \<Rightarrow> string \<Rightarrow> bool \<Rightarrow> bool" where
  "clears_this_list r a force \<longleftrightarrow> force \<and> register_key r a force = resolve_alias r a"

definition register_held :: "registrar \<Rightarrow> string \<Rightarrow> bool \<Rightarrow> contact list" where
  "register_held r a force = (if clears_this_list r a force then [] else bindings_of r (register_key r a force))"

definition commit_register :: "hasher \<Rightarrow> string \<Rightarrow> bool \<Rightarrow> contact list \<Rightarrow> registrar \<Rightarrow> registrar" where
  "commit_register hash a force contacts r =
     (let primary = resolve_alias r a;
          key = register_key r a force;
          r1 = r\<lparr>reg_contact_index :=
                 index_replace key (keys_of hash (register_held r a force)) (keys_of hash contacts) (reg_contact_index r)\<rparr>;
          replaced = map_of (bindings r) key;
          r2 = put_bindings key contacts r1
      in if force then
           (if clears_this_list r a force then release_cleared hash primary replaced r2
            else (let (r3, cleared) = take_bindings primary r2 in release_cleared hash primary cleared r3))
         else r2)"

definition apply_register ::
  "hasher \<Rightarrow> nat \<Rightarrow> string \<Rightarrow> contact_update list \<Rightarrow> bool \<Rightarrow> registrar \<Rightarrow> registrar \<times> registrar_error option" where
  "apply_register hash now a updates force r =
     (if updates = [] then (if force then clear_bindings hash a r else r, None)
      else
        (let key = register_key r a force
         in if \<not> is_aor_key_safe key then (r, Some InvalidAor)
            else
              (case stage_all now r (register_held r a force) updates of
                 Inl e \<Rightarrow> (r, Some e)
               | Inr (contacts, effects) \<Rightarrow>
                   (foldl (carry_out key) (commit_register hash a force contacts r) effects, None))))"

subsection \<open>Saving and removing\<close>

definition update_of ::
  "sip_uri \<Rightarrow> nat \<Rightarrow> nat \<Rightarrow> string \<Rightarrow> nat \<Rightarrow> sockaddr option \<Rightarrow> net_transport option \<Rightarrow> contact_update" where
  "update_of uri expires q call_id cseq source transport =
     \<lparr>up_uri = uri, up_expires = expires, up_q = q, up_call_id = call_id, up_cseq = cseq, up_source_addr = source,
      up_source_transport = transport, up_client_transport = None, up_sip_instance = None, up_reg_id = None,
      up_path = [], up_flow_token = None, up_local_addr = None, up_connection_id = None, up_params = [],
      up_auth_user = None\<rparr>"

definition save_full_uncapped ::
  "hasher \<Rightarrow> nat \<Rightarrow> string \<Rightarrow> contact_update \<Rightarrow> registrar \<Rightarrow> registrar \<times> registrar_error option" where
  "save_full_uncapped hash now a u r = apply_register hash now a [u\<lparr>up_auth_user := None\<rparr>] False r"

definition save_full ::
  "hasher \<Rightarrow> nat \<Rightarrow> string \<Rightarrow> contact_update \<Rightarrow> registrar \<Rightarrow> registrar \<times> registrar_error option" where
  "save_full hash now a u r =
     save_full_uncapped hash now a (u\<lparr>up_expires := min (up_expires u) (max_expires (reg_config r))\<rparr>) r"

definition save_with_source ::
  "hasher \<Rightarrow> nat \<Rightarrow> string \<Rightarrow> sip_uri \<Rightarrow> nat \<Rightarrow> nat \<Rightarrow> string \<Rightarrow> nat \<Rightarrow> sockaddr option \<Rightarrow> net_transport option
     \<Rightarrow> registrar \<Rightarrow> registrar \<times> registrar_error option" where
  "save_with_source hash now a uri expires q call_id cseq source transport r =
     save_full hash now a (update_of uri expires q call_id cseq source transport) r"

definition save_binding ::
  "hasher \<Rightarrow> nat \<Rightarrow> string \<Rightarrow> sip_uri \<Rightarrow> nat \<Rightarrow> nat \<Rightarrow> string \<Rightarrow> nat \<Rightarrow> registrar \<Rightarrow> registrar \<times> registrar_error option" where
  "save_binding hash now a uri expires q call_id cseq r =
     save_with_source hash now a uri expires q call_id cseq None None r"

definition save_with_gruu ::
  "hasher \<Rightarrow> nat \<Rightarrow> string \<Rightarrow> sip_uri \<Rightarrow> nat \<Rightarrow> nat \<Rightarrow> string \<Rightarrow> nat \<Rightarrow> sockaddr option \<Rightarrow> string option \<Rightarrow> nat option
     \<Rightarrow> registrar \<Rightarrow> registrar \<times> registrar_error option" where
  "save_with_gruu hash now a uri expires q call_id cseq source inst rid r =
     save_full hash now a
       ((update_of uri expires q call_id cseq source None)\<lparr>up_sip_instance := inst, up_reg_id := rid\<rparr>) r"

definition remove_all :: "hasher \<Rightarrow> string \<Rightarrow> registrar \<Rightarrow> registrar" where
  "remove_all hash a0 r =
     (let a = resolve_alias r a0;
          (r1, removed) = take_bindings a r;
          r2 = release_cleared hash a removed r1;
          r3 = (if removed \<noteq> None then gauge_add (-1) r2 else r2)
      in emit_event (Deregistered a) r3)"

definition remove_contact :: "hasher \<Rightarrow> nat \<Rightarrow> string \<Rightarrow> string \<Rightarrow> registrar \<Rightarrow> registrar \<times> bool" where
  "remove_contact hash now a0 contact_uri r =
     (let raw = trim_end_char CHR ''>'' (trim_start_char CHR ''<'' (trim contact_uri));
          parsed = map_option show_uri (parse_contact_target contact_uri);
          doomed = (\<lambda>c. c_kind c = Ue \<and> (show_uri (c_uri c) = raw \<or> parsed = Some (show_uri (c_uri c))));
          a = resolve_alias r a0
      in case map_of (bindings r) a of
           None \<Rightarrow> (r, False)
         | Some held \<Rightarrow>
             if \<not> list_ex doomed held then (r, False)
             else
               (let kept = filter (\<lambda>c. \<not> doomed c) held;
                    alive = list_ex (live_ue now) kept;
                    left = (if alive then kept else []);
                    gone = filter doomed held @ (if alive then [] else kept);
                    r1 = r\<lparr>reg_contact_index :=
                           index_replace a (keys_of hash held) (keys_of hash left) (reg_contact_index r)\<rparr>;
                    r2 = put_bindings a left r1
                in (carry_out a r2
                      (Removed (concat (map retired_tokens gone)) (concat (map retired_connections gone)) (left = [])),
                    True)))"

definition lookup_binding :: "nat \<Rightarrow> registrar \<Rightarrow> string \<Rightarrow> contact list" where
  "lookup_binding now r a = sort_by_preference now (filter (live_ue now) (bindings_of r (resolve_alias r a)))"

definition remove_contacts_from ::
  "hasher \<Rightarrow> nat \<Rightarrow> string \<Rightarrow> sockaddr \<Rightarrow> string list option \<Rightarrow> registrar \<Rightarrow> registrar \<times> nat" where
  "remove_contacts_from hash now a source uris r =
     (let doomed = filter (\<lambda>u. case uris of None \<Rightarrow> True | Some names \<Rightarrow> u \<in> set names)
            (map (\<lambda>c. show_uri (c_uri c)) (filter (\<lambda>c. source_addr c = Some source) (lookup_binding now r a)))
      in foldl (\<lambda>(r, n) u. let (r', removed) = remove_contact hash now a u r in (r', if removed then n + 1 else n))
           (r, 0) doomed)"

definition clamp_retry_after :: "nat option \<Rightarrow> nat \<Rightarrow> nat" where
  "clamp_retry_after soonest max_exp =
     (let ceiling = max max_exp 1
      in case soonest of
           Some s \<Rightarrow> min (max (if s < 2 ^ 32 then s else 2 ^ 32 - 1) 1) ceiling
         | None \<Rightarrow> ceiling)"

definition retry_after_secs :: "nat \<Rightarrow> registrar \<Rightarrow> string \<Rightarrow> nat" where
  "retry_after_secs now r a =
     (let rs = map (remaining_seconds now) (filter (\<lambda>c. \<not> is_expired now c) (bindings_of r (resolve_alias r a)))
      in clamp_retry_after (case rs of [] \<Rightarrow> None | x # xs \<Rightarrow> Some (foldl min x xs)) (max_expires (reg_config r)))"

text \<open>
  A list is stored with the contact index following it; the entry stays even when the list is empty,
  as it does for every path that takes the entry with \<^verbatim>\<open>or_default\<close> or \<^verbatim>\<open>get_mut\<close>.
\<close>

definition install_bindings :: "hasher \<Rightarrow> aor \<Rightarrow> contact list \<Rightarrow> registrar \<Rightarrow> registrar" where
  "install_bindings hash a cs r =
     r\<lparr>reg_contact_index := index_replace a (keys_of hash (bindings_of r a)) (keys_of hash cs) (reg_contact_index r),
       bindings := AList.update a cs (bindings r)\<rparr>"

definition remove_if_empty :: "aor \<Rightarrow> registrar \<Rightarrow> registrar" where
  "remove_if_empty a r = (if map_of (bindings r) a = Some [] then r\<lparr>bindings := AList.delete a (bindings r)\<rparr> else r)"

definition as_contact :: "nat \<Rightarrow> sip_uri \<Rightarrow> nat \<Rightarrow> nat \<Rightarrow> (string \<times> string option) list \<Rightarrow> contact" where
  "as_contact now uri expires q params =
     \<lparr>c_uri = uri, c_q = q, registered_at = now, expires_secs = expires, c_call_id = [], c_cseq = 0,
      source_addr = None, source_transport = None, client_transport = None, sip_instance = None,
      reg_id = None, c_path = [], c_pending = False, c_instance = None, flow_token = None,
      inbound_local_addr = None, inbound_connection_id = None, c_params = params, c_kind = As,
      c_auth_user = None\<rparr>"

definition as_record :: "sip_uri \<Rightarrow> contact \<Rightarrow> bool" where
  "as_record uri c \<longleftrightarrow> c_kind c = As \<and> show_uri (c_uri c) = show_uri uri"

definition save_as_contact ::
  "hasher \<Rightarrow> nat \<Rightarrow> string \<Rightarrow> sip_uri \<Rightarrow> nat \<Rightarrow> nat \<Rightarrow> (string \<times> string option) list \<Rightarrow> registrar \<Rightarrow> registrar \<times> bool" where
  "save_as_contact hash now a0 uri expires q params r =
     (let a = resolve_alias r a0;
          held = bindings_of r a;
          cs = filter (\<lambda>c. \<not> is_expired now c) held;
          conns = concat (map retired_connections (filter (is_expired now) held));
          r1 = foldl (\<lambda>r i. deindex_connection i a r) (install_bindings hash a cs r) conns
      in if expires = 0 then
           (let left = filter (\<lambda>c. \<not> as_record uri c) cs
            in if length left = length cs then (r1, False)
               else (remove_if_empty a (r1\<lparr>bindings := AList.update a left (bindings r1)\<rparr>), True))
         else if \<not> list_ex (live_ue now) cs then (r1, False)
         else
           (let c = as_contact now uri expires q params;
                cs' = (case position_of (as_record uri) cs of Some i \<Rightarrow> cs[i := c] | None \<Rightarrow> cs @ [c])
            in (r1\<lparr>bindings := AList.update a cs' (bindings r1)\<rparr>, True)))"

definition save_pending ::
  "hasher \<Rightarrow> nat \<Rightarrow> string \<Rightarrow> sip_uri \<Rightarrow> nat \<Rightarrow> nat \<Rightarrow> string \<Rightarrow> nat \<Rightarrow> registrar \<Rightarrow> registrar" where
  "save_pending hash now a0 uri expires q call_id cseq r =
     (let a = resolve_alias r a0;
          c = (contact_of_update now r (update_of uri expires q call_id cseq None None))\<lparr>c_pending := True\<rparr>;
          cs = bindings_of r a
      in install_bindings hash a
           (case position_of (\<lambda>h. show_uri (c_uri h) = show_uri uri) cs of Some i \<Rightarrow> cs[i := c] | None \<Rightarrow> cs @ [c]) r)"

definition confirm_pending :: "string \<Rightarrow> registrar \<Rightarrow> registrar" where
  "confirm_pending a0 r =
     (let a = resolve_alias r a0
      in case map_of (bindings r) a of
           Some cs \<Rightarrow> r\<lparr>bindings := AList.update a (map (\<lambda>c. c\<lparr>c_pending := False\<rparr>) cs) (bindings r)\<rparr>
         | None \<Rightarrow> r)"

subsection \<open>Looking up\<close>

definition lookup_all :: "nat \<Rightarrow> registrar \<Rightarrow> string \<Rightarrow> contact list" where
  "lookup_all now r a =
     sort_key (\<lambda>c. (if c_kind c = Ue then 0 else (1 :: int), - int (c_q c)))
       (filter (\<lambda>c. \<not> is_expired now c) (bindings_of r (resolve_alias r a)))"

definition is_registered :: "nat \<Rightarrow> registrar \<Rightarrow> string \<Rightarrow> bool" where
  "is_registered now r a = list_ex (live_ue now) (bindings_of r (resolve_alias r a))"

definition is_registered_by :: "nat \<Rightarrow> registrar \<Rightarrow> string \<Rightarrow> string \<Rightarrow> bool" where
  "is_registered_by now r a user =
     list_ex (\<lambda>c. live_ue now c \<and> c_auth_user c = Some user) (bindings_of r (resolve_alias r a))"

definition registered_aor :: "nat \<Rightarrow> registrar \<Rightarrow> string \<Rightarrow> aor option" where
  "registered_aor now r a =
     (let primary = resolve_alias r a in if list_ex (live_ue now) (bindings_of r primary) then Some primary else None)"

definition has_live_contact :: "nat \<Rightarrow> registrar \<Rightarrow> string \<Rightarrow> string \<Rightarrow> bool" where
  "has_live_contact now r a contact_uri =
     (case contact_target contact_uri of
        None \<Rightarrow> False
      | Some t \<Rightarrow> list_ex (\<lambda>c. live_ue now c \<and> same_contact (c_uri c) t) (bindings_of r (resolve_alias r a)))"

definition vouches :: "nat \<Rightarrow> string option \<Rightarrow> sockaddr \<Rightarrow> contact \<Rightarrow> bool" where
  "vouches now user source c \<longleftrightarrow>
     live_ue now c
     \<and> (case (user, c_auth_user c) of
          (Some presented, Some registered) \<Rightarrow> presented = registered
        | _ \<Rightarrow> source_addr c = Some source)"

definition binding_placing_request :: "nat \<Rightarrow> registrar \<Rightarrow> string \<Rightarrow> string option \<Rightarrow> sockaddr \<Rightarrow> (aor \<times> string) option" where
  "binding_placing_request now r from_aor user source =
     (let primary = resolve_alias r from_aor
      in map_option (\<lambda>c. (primary, show_uri (c_uri c))) (find (vouches now user source) (bindings_of r primary)))"

definition aor_placing_request :: "nat \<Rightarrow> registrar \<Rightarrow> string \<Rightarrow> string option \<Rightarrow> sockaddr \<Rightarrow> aor option" where
  "aor_placing_request now r from_aor user source = map_option fst (binding_placing_request now r from_aor user source)"

definition registered_aors :: "nat \<Rightarrow> registrar \<Rightarrow> aor list" where
  "registered_aors now r = map fst (filter (\<lambda>(_, cs). list_ex (live_ue now) cs) (bindings r))"

definition aor_count :: "nat \<Rightarrow> registrar \<Rightarrow> nat" where
  "aor_count now r = length (filter (\<lambda>(_, cs). list_ex (live_ue now) cs) (bindings r))"

definition all_contacts :: "nat \<Rightarrow> registrar \<Rightarrow> (aor \<times> contact) list" where
  "all_contacts now r =
     concat (map (\<lambda>(a, cs). map (Pair a) (filter (\<lambda>c. \<not> is_expired now c) cs)) (bindings r))"

definition lookup_by_token :: "nat \<Rightarrow> registrar \<Rightarrow> string \<Rightarrow> (aor \<times> contact) option" where
  "lookup_by_token now r t =
     (case map_of (token_map r) t of
        None \<Rightarrow> None
      | Some a \<Rightarrow> map_option (Pair a) (find (\<lambda>c. live_ue now c \<and> flow_token c = Some t) (bindings_of r a)))"

text \<open>The bindings a contact URI leads to: those of the addresses its index entry names.\<close>

definition contact_matches :: "hasher \<Rightarrow> nat \<Rightarrow> registrar \<Rightarrow> string \<Rightarrow> (aor \<times> contact) list" where
  "contact_matches hash now r contact_uri =
     (case contact_target contact_uri of
        None \<Rightarrow> []
      | Some t \<Rightarrow>
          concat (map (\<lambda>a. map (Pair a) (filter (\<lambda>c. live_ue now c \<and> same_contact (c_uri c) t) (bindings_of r a)))
            (index_aors (reg_contact_index r) (key_of hash t))))"

definition lookup_contact :: "hasher \<Rightarrow> nat \<Rightarrow> registrar \<Rightarrow> string \<Rightarrow> contact list" where
  "lookup_contact hash now r contact_uri = sort_by_preference now (map snd (contact_matches hash now r contact_uri))"

definition is_registered_contact :: "hasher \<Rightarrow> nat \<Rightarrow> registrar \<Rightarrow> string \<Rightarrow> bool" where
  "is_registered_contact hash now r contact_uri \<longleftrightarrow> contact_matches hash now r contact_uri \<noteq> []"

definition binding_for_contact :: "hasher \<Rightarrow> nat \<Rightarrow> registrar \<Rightarrow> string \<Rightarrow> (aor \<times> string) option" where
  "binding_for_contact hash now r contact_uri =
     (case contact_matches hash now r contact_uri of
        [] \<Rightarrow> None
      | (a, c) # rest \<Rightarrow> if list_ex (\<lambda>(b, _). b \<noteq> a) rest then None else Some (a, show_uri (c_uri c)))"

definition aor_for_contact :: "hasher \<Rightarrow> nat \<Rightarrow> registrar \<Rightarrow> string \<Rightarrow> aor option" where
  "aor_for_contact hash now r contact_uri = map_option fst (binding_for_contact hash now r contact_uri)"

definition from_source :: "nat \<Rightarrow> sockaddr \<Rightarrow> contact \<Rightarrow> bool" where
  "from_source now source c \<longleftrightarrow> live_ue now c \<and> source_addr c = Some source"

definition source_matches :: "hasher \<Rightarrow> nat \<Rightarrow> registrar \<Rightarrow> sockaddr \<Rightarrow> (aor \<times> contact) list" where
  "source_matches hash now r source =
     List.map_filter (\<lambda>a. map_option (Pair a) (find (from_source now source) (bindings_of r a)))
       (index_aors (reg_contact_index r) (source_key_of hash source))"

definition binding_for_source :: "hasher \<Rightarrow> nat \<Rightarrow> registrar \<Rightarrow> sockaddr \<Rightarrow> (aor \<times> string) option" where
  "binding_for_source hash now r source =
     (case source_matches hash now r source of [(a, c)] \<Rightarrow> Some (a, show_uri (c_uri c)) | _ \<Rightarrow> None)"

definition has_live_binding_from :: "hasher \<Rightarrow> nat \<Rightarrow> registrar \<Rightarrow> sockaddr \<Rightarrow> bool" where
  "has_live_binding_from hash now r source =
     list_ex (\<lambda>a. list_ex (from_source now source) (bindings_of r a))
       (index_aors (reg_contact_index r) (source_key_of hash source))"

text \<open>The instance identifier without quotes and angle brackets: as the argument of a lookup, and as stored.\<close>

definition bare_instance :: "string \<Rightarrow> string" where
  "bare_instance s =
     (let t = trim s; or_t = (\<lambda>x. case x of Some y \<Rightarrow> y | None \<Rightarrow> t)
      in or_t (strip_suffix ''>'' (or_t (strip_prefix ''<''
           (or_t (strip_suffix [CHR 34] (or_t (strip_prefix [CHR 34] t))))))))"

definition stored_instance :: "string \<Rightarrow> string" where
  "stored_instance s0 =
     (let or_else = (\<lambda>x d. case x of Some y \<Rightarrow> y | None \<Rightarrow> d);
          s1 = or_else (strip_prefix [CHR 34] s0) s0;
          s2 = or_else (strip_suffix [CHR 34] s1) s1;
          s3 = or_else (strip_prefix ''<'' s2) s2
      in or_else (strip_suffix ''>'' s3) s3)"

definition lookup_by_instance :: "nat \<Rightarrow> registrar \<Rightarrow> string \<Rightarrow> string \<Rightarrow> contact list" where
  "lookup_by_instance now r a i =
     filter (\<lambda>c. live_ue now c \<and> map_option stored_instance (sip_instance c) = Some (bare_instance i))
       (bindings_of r (resolve_alias r a))"

definition public_gruu :: "string \<Rightarrow> string \<Rightarrow> string option" where
  "public_gruu a i =
     (let inst = bare_instance i
      in if inst = [] then None
         else map_option (\<lambda>part. ''sip:'' @ part @ '';gr='' @ inst)
                (case strip_prefix ''sip:'' a of Some p \<Rightarrow> Some p | None \<Rightarrow> strip_prefix ''sips:'' a))"

subsection \<open>State attached to an address\<close>

definition set_service_routes :: "string \<Rightarrow> string list \<Rightarrow> registrar \<Rightarrow> registrar" where
  "set_service_routes a routes r =
     (let primary = resolve_alias r a
      in r\<lparr>service_route_map := (if routes = [] then AList.delete primary (service_route_map r)
                                 else AList.update primary routes (service_route_map r))\<rparr>)"

definition service_routes :: "registrar \<Rightarrow> string \<Rightarrow> string list" where
  "service_routes r a = (case map_of (service_route_map r) (resolve_alias r a) of Some rs \<Rightarrow> rs | None \<Rightarrow> [])"

definition set_associated_uris :: "string \<Rightarrow> string list \<Rightarrow> registrar \<Rightarrow> registrar" where
  "set_associated_uris a uris r =
     (let primary = resolve_alias r a;
          r1 = install_aliases primary uris r
      in r1\<lparr>associated_map := (if uris = [] then AList.delete primary (associated_map r1)
                               else AList.update primary uris (associated_map r1))\<rparr>)"

definition associated_uris :: "registrar \<Rightarrow> string \<Rightarrow> string list" where
  "associated_uris r a = (case map_of (associated_map r) (resolve_alias r a) of Some us \<Rightarrow> us | None \<Rightarrow> [])"

definition set_asserted_identity :: "string \<Rightarrow> string \<Rightarrow> registrar \<Rightarrow> registrar" where
  "set_asserted_identity a i r = r\<lparr>asserted_map := AList.update (resolve_alias r a) i (asserted_map r)\<rparr>"

definition asserted_identity :: "registrar \<Rightarrow> string \<Rightarrow> string option" where
  "asserted_identity r a = map_of (asserted_map r) (resolve_alias r a)"

definition apply_aor_state :: "aor \<Rightarrow> string list \<Rightarrow> string option \<Rightarrow> string list \<Rightarrow> registrar \<Rightarrow> registrar" where
  "apply_aor_state a routes ident uris r =
     (let r1 = (if routes \<noteq> [] then r\<lparr>service_route_map := AList.update a routes (service_route_map r)\<rparr> else r);
          r2 = (case ident of Some i \<Rightarrow> r1\<lparr>asserted_map := AList.update a i (asserted_map r1)\<rparr> | None \<Rightarrow> r1)
      in if uris \<noteq> []
         then (let r3 = install_aliases a uris r2 in r3\<lparr>associated_map := AList.update a uris (associated_map r3)\<rparr>)
         else r2)"

subsection \<open>Sweeps over the whole table\<close>

definition rebuild_token_index :: "nat \<Rightarrow> registrar \<Rightarrow> registrar" where
  "rebuild_token_index now r =
     r\<lparr>token_map := foldl (\<lambda>m (a, c). case flow_token c of Some t \<Rightarrow> AList.update t a m | None \<Rightarrow> m) []
         (all_contacts now r)\<rparr>"

definition on_flow :: "nat \<Rightarrow> contact \<Rightarrow> bool" where
  "on_flow cid c \<longleftrightarrow> inbound_connection_id c = Some cid \<and> is_stream_transport (source_transport c)"

definition first_occurrences :: "'a list \<Rightarrow> 'a list" where
  "first_occurrences xs = rev (remdups (rev xs))"

definition bindings_for_connection :: "nat \<Rightarrow> registrar \<Rightarrow> (aor \<times> contact) list" where
  "bindings_for_connection cid r =
     (case map_of (connection_index r) cid of
        None \<Rightarrow> []
      | Some as \<Rightarrow>
          concat (map (\<lambda>a. map (Pair a) (filter (on_flow cid) (bindings_of r a))) (first_occurrences as)))"

definition close_aor ::
  "hasher \<Rightarrow> nat \<Rightarrow> nat \<Rightarrow> string list
     \<Rightarrow> registrar \<times> (aor \<times> contact) list \<times> string list \<times> aor list \<times> nat \<Rightarrow> aor
     \<Rightarrow> registrar \<times> (aor \<times> contact) list \<times> string list \<times> aor list \<times> nat" where
  "close_aor hash now cid keep acc a =
     (let (r, removed, tokens, deregistered, emptied_count) = acc
      in case map_of (bindings r) a of
           None \<Rightarrow> acc
         | Some contacts \<Rightarrow>
             (let detached = (\<lambda>c. on_flow cid c \<and> show_uri (c_uri c) \<in> set keep);
                  gone = filter (\<lambda>c. on_flow cid c \<and> \<not> detached c) contacts;
                  kept = map (\<lambda>c. if detached c then c\<lparr>inbound_connection_id := None\<rparr> else c)
                           (filter (\<lambda>c. on_flow cid c \<longrightarrow> detached c) contacts);
                  changed = (length kept < length contacts);
                  left = (if list_ex (live_ue now) kept then kept else []);
                  r1 = install_bindings hash a left r
              in (if left = [] then remove_if_empty a r1 else r1,
                  removed @ map (Pair a) gone, tokens @ concat (map retired_tokens gone),
                  if changed \<or> left = [] then deregistered @ [a] else deregistered,
                  if left = [] then emptied_count + 1 else emptied_count)))"

definition close_flow :: "hasher \<Rightarrow> nat \<Rightarrow> nat \<Rightarrow> string list \<Rightarrow> registrar \<Rightarrow> registrar \<times> (aor \<times> contact) list" where
  "close_flow hash now cid keep r =
     (case map_of (connection_index r) cid of
        None \<Rightarrow> (r, [])
      | Some as \<Rightarrow>
          (let r0 = r\<lparr>connection_index := AList.delete cid (connection_index r)\<rparr>;
               (r1, removed, tokens, deregistered, emptied_count) =
                 foldl (close_aor hash now cid keep) (r0, [], [], [], 0) (first_occurrences as);
               r2 = foldl (\<lambda>r t. remove_token t r) r1 tokens;
               r3 = gauge_add (- int emptied_count) r2
           in (foldl (\<lambda>r a. emit_event (Deregistered a) r) r3 deregistered, removed)))"

definition unregister_flow_collect :: "hasher \<Rightarrow> nat \<Rightarrow> nat \<Rightarrow> registrar \<Rightarrow> registrar \<times> (aor \<times> contact) list" where
  "unregister_flow_collect hash now cid r = close_flow hash now cid [] r"

definition unregister_flow :: "hasher \<Rightarrow> nat \<Rightarrow> nat \<Rightarrow> registrar \<Rightarrow> registrar \<times> nat" where
  "unregister_flow hash now cid r = (let (r', removed) = unregister_flow_collect hash now cid r in (r', length removed))"

definition survivors :: "nat \<Rightarrow> contact list \<Rightarrow> contact list" where
  "survivors now cs =
     (let alive = filter (\<lambda>c. \<not> is_expired now c) cs in if list_ex (\<lambda>c. c_kind c = Ue) alive then alive else [])"

definition expire_stale :: "hasher \<Rightarrow> nat \<Rightarrow> registrar \<Rightarrow> registrar \<times> nat" where
  "expire_stale hash now r =
     (let expired = concat (map (\<lambda>(a, cs). map (Pair a) (filter (is_expired now) cs)) (bindings r));
          empty_aors = map fst (filter (\<lambda>(_, cs). survivors now cs = [] \<and> cs \<noteq> []) (bindings r));
          r1 = r\<lparr>bindings := map (\<lambda>(a, cs). (a, survivors now cs)) (bindings r)\<rparr>;
          r2 = foldl (\<lambda>r t. remove_token t r) r1 (concat (map (\<lambda>(_, c). retired_tokens c) expired));
          r3 = foldl (\<lambda>r (i, a). deindex_connection i a r) r2
                 (concat (map (\<lambda>(a, c). map (\<lambda>i. (i, a)) (retired_connections c)) expired));
          r4 = r3\<lparr>reg_contact_index := foldl (\<lambda>ix (key, a). index_remove a key ix) (reg_contact_index r3)
                 (concat (map (\<lambda>(a, c). map (\<lambda>key. (key, a)) (keys_of_binding hash c)) expired))\<rparr>;
          r5 = gauge_add (- int (length empty_aors)) r4
      in (foldl (\<lambda>r a. emit_event (Expired a) (remove_aor_state_entries a (prune_aliases_to a (remove_if_empty a r))))
            r5 empty_aors,
          length empty_aors))"

definition connection_oriented :: "contact \<Rightarrow> bool" where
  "connection_oriented c =
     (to_lower (case get_param (c_uri c) ''transport'' of Some t \<Rightarrow> t | None \<Rightarrow> [])
      \<in> {''tcp'', ''tls'', ''ws'', ''wss''})"

definition evict_aor ::
  "hasher \<Rightarrow> registrar \<times> nat \<times> string list \<times> (nat \<times> aor) list \<Rightarrow> aor \<Rightarrow> registrar \<times> nat \<times> string list \<times> (nat \<times> aor) list" where
  "evict_aor hash acc a =
     (let (r, evicted, tokens, conns) = acc
      in case map_of (bindings r) a of
           None \<Rightarrow> acc
         | Some cs \<Rightarrow>
             (let gone = filter connection_oriented cs;
                  left = filter (\<lambda>c. \<not> connection_oriented c) cs;
                  r1 = install_bindings hash a left r
              in if gone = [] then (r1, evicted, tokens, conns)
                 else
                   (emit_event (Deregistered a) (if left = [] then gauge_add (-1) (remove_if_empty a r1) else r1),
                    evicted + length gone, tokens @ concat (map retired_tokens gone),
                    conns @ map (\<lambda>i. (i, a)) (concat (map retired_connections gone)))))"

definition evict_connection_oriented :: "hasher \<Rightarrow> registrar \<Rightarrow> registrar \<times> nat" where
  "evict_connection_oriented hash r =
     (let (r1, evicted, tokens, conns) = foldl (evict_aor hash) (r, 0, [], []) (map fst (bindings r));
          r2 = foldl (\<lambda>r t. remove_token t r) r1 tokens
      in (foldl (\<lambda>r (i, a). deindex_connection i a r) r2 conns, evicted))"

record evicted_binding =
  ev_aor :: aor
  ev_contact :: contact
  owned_elsewhere :: bool

definition written_elsewhere :: "registrar \<Rightarrow> contact \<Rightarrow> bool" where
  "written_elsewhere r c =
     (case (reg_identity r, c_instance c) of (Some own, Some w) \<Rightarrow> inst_id own \<noteq> inst_id w | _ \<Rightarrow> False)"

definition evict_restored_aor ::
  "hasher \<Rightarrow> nat \<Rightarrow> (contact \<Rightarrow> bool) \<Rightarrow> registrar \<times> evicted_binding list \<Rightarrow> aor \<Rightarrow> registrar \<times> evicted_binding list" where
  "evict_restored_aor hash now select acc a =
     (let (r, evicted) = acc
      in case map_of (bindings r) a of
           None \<Rightarrow> acc
         | Some cs \<Rightarrow>
             (let taken = filter select cs;
                  kept = filter (\<lambda>c. \<not> select c) cs;
                  alive = list_ex (live_ue now) kept;
                  left = (if alive then kept else []);
                  gone = taken @ (if alive then [] else kept);
                  r1 = install_bindings hash a left r
              in if taken = [] then (r1, evicted)
                 else
                   (let r2 = forget_flows (concat (map retired_tokens gone)) (concat (map retired_connections gone)) a
                               (remove_if_empty a r1);
                        r3 = (if left = [] then gauge_add (-1) (drop_aor_state a r2) else r2)
                    in (emit_event (Deregistered a) r3,
                        evicted @ map (\<lambda>c. \<lparr>ev_aor = a, ev_contact = c, owned_elsewhere = written_elsewhere r c\<rparr>) taken))))"

definition evict_restored :: "hasher \<Rightarrow> nat \<Rightarrow> (contact \<Rightarrow> bool) \<Rightarrow> registrar \<Rightarrow> registrar \<times> evicted_binding list" where
  "evict_restored hash now select r =
     foldl (evict_restored_aor hash now select) (r, [])
       (map fst (filter (\<lambda>(_, cs). list_ex select cs) (bindings r)))"

end
