(* ===== verification/Registrar_Facts.thy ===== *)
theory Registrar_Facts
  imports Registrar "HOL-Library.Multiset"
begin

text \<open>
  The contact index of the registrar follows its bindings through every operation, so that a
  lookup by contact or by source address is a scan of all bindings; what a REGISTER does to the
  table; and four places where the registrar keeps less than its comments promise.
\<close>

subsection \<open>What the contact index counts\<close>

definition holders_count :: "holders \<Rightarrow> aor \<Rightarrow> nat" where
  "holders_count h a =
     (case h of One b \<Rightarrow> if a = b then 1 else 0
      | Many counts \<Rightarrow> (case map_of counts a of Some n \<Rightarrow> n | None \<Rightarrow> 0))"

definition index_count :: "contact_index \<Rightarrow> nat \<Rightarrow> aor \<Rightarrow> nat" where
  "index_count ix key a = (case map_of ix key of Some h \<Rightarrow> holders_count h a | None \<Rightarrow> 0)"

definition holders_ok :: "holders \<Rightarrow> bool" where
  "holders_ok h =
     (case h of One _ \<Rightarrow> True
      | Many counts \<Rightarrow> distinct (map fst counts) \<and> (\<forall>a n. map_of counts a = Some n \<longrightarrow> 0 < n))"

definition index_wf :: "contact_index \<Rightarrow> bool" where
  "index_wf ix \<longleftrightarrow> (\<forall>key h. map_of ix key = Some h \<longrightarrow> holders_ok h)"

lemma map_of_delete_same: "map_of (AList.delete k xs) k = None"
  by (simp add: delete_conv')

lemma map_of_delete_other: "k' \<noteq> k \<Longrightarrow> map_of (AList.delete k xs) k' = map_of xs k'"
  by (simp add: delete_conv')

lemma map_of_delete: "map_of (AList.delete k xs) k' = (if k' = k then None else map_of xs k')"
  by (simp add: delete_conv')

lemma map_of_update: "map_of (AList.update k v xs) k' = (if k' = k then Some v else map_of xs k')"
  by (simp add: update_conv')

lemma holders_add_ok: "holders_ok h \<Longrightarrow> holders_ok (holders_add a h)"
  by (auto simp: holders_ok_def holders_add_def Let_def map_of_update distinct_update split: holders.splits if_splits)

lemma holders_add_count: "holders_count (holders_add a h) b = holders_count h b + (if b = a then 1 else 0)"
  by (auto simp: holders_count_def holders_add_def Let_def map_of_update split: holders.splits option.splits)

definition decremented :: "aor \<Rightarrow> (aor \<times> nat) list \<Rightarrow> (aor \<times> nat) list" where
  "decremented a counts =
     (case map_of counts a of
        None \<Rightarrow> counts
      | Some n \<Rightarrow> if n - 1 = 0 then AList.delete a counts else AList.update a (n - 1) counts)"

lemma decremented_ok: "holders_ok (Many counts) \<Longrightarrow> holders_ok (Many (decremented a counts))"
  by (auto simp del: map_of_eq_Some_iff simp: holders_ok_def decremented_def map_of_update map_of_delete distinct_update distinct_delete
      split: option.splits if_splits)

lemma decremented_count:
  "holders_count (Many (decremented a counts)) b = holders_count (Many counts) b - (if b = a then 1 else 0)"
  by (auto simp: holders_count_def decremented_def map_of_update map_of_delete split: option.splits)

lemma holders_remove_Many:
  "holders_remove a (Many counts) =
     (case decremented a counts of [] \<Rightarrow> (Many [], False) | [(l, Suc 0)] \<Rightarrow> (One l, True)
      | _ \<Rightarrow> (Many (decremented a counts), True))"
  unfolding holders_remove_def decremented_def by (simp add: Let_def)

lemma holders_remove_effect:
  assumes "holders_ok h" and "holders_remove a h = (h', kept)"
  shows "kept \<Longrightarrow> holders_ok h'"
    and "kept \<Longrightarrow> holders_count h' b = holders_count h b - (if b = a then 1 else 0)"
    and "\<not> kept \<Longrightarrow> holders_count h b - (if b = a then 1 else 0) = 0"
proof -
  have "(kept \<longrightarrow> holders_ok h' \<and> holders_count h' b = holders_count h b - (if b = a then 1 else 0))
        \<and> (\<not> kept \<longrightarrow> holders_count h b - (if b = a then 1 else 0) = 0)"
  proof (cases h)
    case (One c)
    then show ?thesis using assms by (auto simp: holders_remove_def holders_count_def)
  next
    case (Many counts)
    have ok: "holders_ok (Many (decremented a counts))" using assms(1) Many decremented_ok by simp
    have count: "holders_count (Many (decremented a counts)) b = holders_count h b - (if b = a then 1 else 0)"
      using Many decremented_count by simp
    have one: "holders_count (One l) b = holders_count (Many [(l, Suc 0)]) b" for l
      by (simp add: holders_count_def)
    consider "decremented a counts = []" | l where "decremented a counts = [(l, Suc 0)]"
      | "(h', kept) = (Many (decremented a counts), True)"
      using assms(2) Many by (auto simp: holders_remove_Many split: list.splits nat.splits)
    then show ?thesis
    proof cases
      case 1
      then show ?thesis using assms(2) Many count
        by (auto simp: holders_remove_Many holders_count_def)
    next
      case 2
      then show ?thesis using assms(2) Many count one by (auto simp: holders_remove_Many holders_ok_def)
    next
      case 3
      then show ?thesis using ok count by simp
    qed
  qed
  then show "kept \<Longrightarrow> holders_ok h'"
    and "kept \<Longrightarrow> holders_count h' b = holders_count h b - (if b = a then 1 else 0)"
    and "\<not> kept \<Longrightarrow> holders_count h b - (if b = a then 1 else 0) = 0" by auto
qed

lemma index_add_wf: "index_wf ix \<Longrightarrow> index_wf (index_add a key ix)"
  by (auto simp: index_wf_def index_add_def map_of_update intro: holders_add_ok split: option.splits if_splits)
    (auto simp: holders_ok_def)

lemma index_add_count:
  "index_count (index_add a key ix) k b = index_count ix k b + (if k = key \<and> b = a then 1 else 0)"
  by (auto simp: index_count_def index_add_def map_of_update holders_add_count split: option.splits)
    (auto simp: holders_count_def)

lemma index_remove_wf:
  assumes "index_wf ix" shows "index_wf (index_remove a key ix)"
proof (cases "map_of ix key")
  case None then show ?thesis using assms by (simp add: index_remove_def)
next
  case (Some h)
  obtain h' kept where r: "holders_remove a h = (h', kept)" by force
  have "holders_ok h" using assms Some by (auto simp: index_wf_def)
  then have "kept \<Longrightarrow> holders_ok h'" using holders_remove_effect(1) r by blast
  then show ?thesis using assms Some r
    by (cases kept) (auto simp: index_remove_def index_wf_def map_of_update map_of_delete split: if_splits)
qed

lemma index_remove_count:
  assumes "index_wf ix"
  shows "index_count (index_remove a key ix) k b = index_count ix k b - (if k = key \<and> b = a then 1 else 0)"
proof (cases "map_of ix key")
  case None then show ?thesis by (auto simp: index_remove_def index_count_def)
next
  case (Some h)
  obtain h' kept where r: "holders_remove a h = (h', kept)" by force
  have ok: "holders_ok h" using assms Some by (auto simp: index_wf_def)
  note eff = holders_remove_effect(2,3) [OF ok r, of b]
  show ?thesis using Some r eff
    by (cases kept) (auto simp: index_remove_def index_count_def map_of_update map_of_delete)
qed

lemma index_removes_wf: "index_wf ix \<Longrightarrow> index_wf (foldl (\<lambda>ix key. index_remove a key ix) ix ks)"
  by (induction ks arbitrary: ix) (auto intro: index_remove_wf)

lemma index_removes_count:
  "index_wf ix \<Longrightarrow>
   index_count (foldl (\<lambda>ix key. index_remove a key ix) ix ks) k b
     = index_count ix k b - (if b = a then count_list ks k else 0)"
  by (induction ks arbitrary: ix) (auto simp: index_remove_wf index_remove_count)

lemma index_merge_wf: "index_wf ix \<Longrightarrow> index_wf (index_merge a old new ix)"
  by (induction a old new ix rule: index_merge.induct) (auto intro: index_add_wf index_remove_wf)

lemma index_merge_count:
  "index_wf ix \<Longrightarrow> (\<And>k. count_list old k \<le> index_count ix k a) \<Longrightarrow>
   index_count (index_merge a old new ix) k b
     = (if b = a then index_count ix k a + count_list new k - count_list old k else index_count ix k b)"
proof (induction a old new ix rule: index_merge.induct)
  case (1 a gone old added new ix)
  have le: "count_list old k \<le> index_count ix k a" for k using 1(5) [of k] by (auto split: if_splits)
  have rem: "count_list old k \<le> index_count (index_remove a gone ix) k a" for k
    using 1(5) [of k] by (auto simp: index_remove_count [OF 1(4)] split: if_splits)
  have add: "count_list (gone # old) k \<le> index_count (index_add a added ix) k a" for k
    using 1(5) [of k] by (simp add: index_add_count)
  consider "gone = added" | "gone \<noteq> added" "added < gone" | "gone \<noteq> added" "\<not> added < gone" by blast
  then show ?case
  proof cases
    case 1
    then show ?thesis using "1.IH"(1) [OF 1 "1.prems"(1) le] by simp
  next
    case 2
    then show ?thesis using "1.IH"(2) [OF 2 index_add_wf [OF "1.prems"(1)] add]
      by (auto simp: index_add_count)
  next
    case 3
    then show ?thesis using "1.IH"(3) [OF 3 index_remove_wf [OF "1.prems"(1)] rem] "1.prems"(2) [of gone]
      by (auto simp: index_remove_count [OF "1.prems"(1)])
  qed
next
  case (2 a gone old ix)
  have rem: "count_list old k \<le> index_count (index_remove a gone ix) k a" for k
    using 2(3) [of k] by (auto simp: index_remove_count [OF 2(2)] split: if_splits)
  then show ?case using 2(1) [OF index_remove_wf [OF 2(2)] rem] 2(3) [of gone]
    by (auto simp: index_remove_count [OF 2(2)])
next
  case (3 a added new ix)
  show ?case using 3(1) [OF index_add_wf [OF 3(2)]] by (auto simp: index_add_count)
next
  case (4 a ix)
  then show ?case by simp
qed

lemma count_list_sort [simp]: "count_list (sort xs) k = count_list xs k"
  by (metis count_mset mset_sort)

lemma index_replace_wf: "index_wf ix \<Longrightarrow> index_wf (index_replace a before after ix)"
  by (simp add: index_replace_def index_merge_wf)

lemma index_replace_count:
  assumes "index_wf ix" and "\<And>k. count_list before k \<le> index_count ix k a"
  shows "index_count (index_replace a before after ix) k b
     = (if b = a then index_count ix k a + count_list after k - count_list before k else index_count ix k b)"
  using index_merge_count [OF assms(1), of "sort before" a "sort after" k b] assms(2)
  by (auto simp: index_replace_def)

subsection \<open>Bindings and index in step\<close>

definition tracks :: "contact_index \<Rightarrow> (aor \<Rightarrow> nat \<Rightarrow> nat) \<Rightarrow> bool" where
  "tracks ix f \<longleftrightarrow> index_wf ix \<and> (\<forall>key a. index_count ix key a = f a key)"

definition bound :: "(aor \<times> contact list) list \<Rightarrow> aor \<Rightarrow> contact list" where
  "bound bs a = (case map_of bs a of Some cs \<Rightarrow> cs | None \<Rightarrow> [])"

definition binding_keys :: "hasher \<Rightarrow> (aor \<times> contact list) list \<Rightarrow> aor \<Rightarrow> nat \<Rightarrow> nat" where
  "binding_keys hash bs a key = count_list (keys_of hash (bound bs a)) key"

text \<open>One entry of the index per binding of a device, and no other.\<close>

definition contact_index_is_consistent :: "hasher \<Rightarrow> registrar \<Rightarrow> bool" where
  "contact_index_is_consistent hash r \<longleftrightarrow>
     distinct (map fst (bindings r)) \<and> tracks (reg_contact_index r) (binding_keys hash (bindings r))"

lemma tracks_replace:
  assumes "tracks ix f" and "\<And>k. count_list before k \<le> f a k"
  shows "tracks (index_replace a before after ix) (f(a := \<lambda>k. f a k + count_list after k - count_list before k))"
proof -
  have wf: "index_wf ix" and eq: "\<And>k b. index_count ix k b = f b k" using assms(1) by (auto simp: tracks_def)
  have le: "\<And>k. count_list before k \<le> index_count ix k a" using assms(2) eq by simp
  show ?thesis unfolding tracks_def
    using index_replace_wf [OF wf] index_replace_count [OF wf le] eq by auto
qed

lemma tracks_remove_all:
  "tracks ix f \<Longrightarrow>
   tracks (index_remove_all hash a cs ix) (f(a := \<lambda>k. f a k - count_list (keys_of hash cs) k))"
  unfolding tracks_def index_remove_all_def by (auto simp: index_removes_wf index_removes_count)

lemma keys_of_Nil [simp]: "keys_of hash [] = []"
  by (simp add: keys_of_def)

lemma keys_of_append [simp]: "keys_of hash (xs @ ys) = keys_of hash xs @ keys_of hash ys"
  by (simp add: keys_of_def)

lemma bound_bindings_of: "bound (bindings r) a = bindings_of r a"
  by (simp add: bound_def bindings_of_def)

lemma binding_keys_at: "binding_keys hash (bindings r) a = count_list (keys_of hash (bindings_of r a))"
  by (simp add: binding_keys_def fun_eq_iff bound_bindings_of)

lemma binding_keys_update:
  "binding_keys hash (AList.update a cs bs) = (binding_keys hash bs)(a := count_list (keys_of hash cs))"
  by (auto simp: binding_keys_def bound_def map_of_update fun_eq_iff)

lemma binding_keys_delete: "binding_keys hash (AList.delete a bs) = (binding_keys hash bs)(a := \<lambda>_. 0)"
  by (auto simp: binding_keys_def bound_def map_of_delete fun_eq_iff)

lemma consistent_cong:
  "bindings r' = bindings r \<Longrightarrow> reg_contact_index r' = reg_contact_index r \<Longrightarrow>
   contact_index_is_consistent hash r' = contact_index_is_consistent hash r"
  by (simp add: contact_index_is_consistent_def)

lemma consistent_new: "contact_index_is_consistent hash (registrar_new cfg)"
  by (simp add: contact_index_is_consistent_def registrar_new_def tracks_def index_wf_def index_count_def
      binding_keys_def bound_def)

lemma tracks_rebind:
  assumes "contact_index_is_consistent hash r"
  shows "tracks (index_replace a (keys_of hash (bindings_of r a)) (keys_of hash cs) (reg_contact_index r))
           ((binding_keys hash (bindings r))(a := count_list (keys_of hash cs)))"
proof -
  have t: "tracks (reg_contact_index r) (binding_keys hash (bindings r))"
    using assms by (simp add: contact_index_is_consistent_def)
  show ?thesis
    using tracks_replace [OF t, of "keys_of hash (bindings_of r a)" a "keys_of hash cs"]
    by (simp add: binding_keys_at)
qed

lemma consistent_install:
  assumes "contact_index_is_consistent hash r"
  shows "contact_index_is_consistent hash (install_bindings hash a cs r)"
  using assms tracks_rebind [OF assms]
  by (simp add: contact_index_is_consistent_def install_bindings_def binding_keys_update distinct_update)

lemma count_list_Nil_fun: "count_list [] = (\<lambda>_. 0)"
  by auto

lemma consistent_put:
  assumes "contact_index_is_consistent hash r"
    and "reg_contact_index r' = index_replace a (keys_of hash (bindings_of r a)) (keys_of hash cs) (reg_contact_index r)"
    and "bindings r' = bindings r"
  shows "contact_index_is_consistent hash (put_bindings a cs r')"
  using assms tracks_rebind [OF assms(1), of a cs]
  by (cases "cs = []") (simp_all add: contact_index_is_consistent_def put_bindings_def binding_keys_update
      binding_keys_delete distinct_update distinct_delete count_list_Nil_fun)

lemma consistent_remove_if_empty:
  assumes "contact_index_is_consistent hash r"
  shows "contact_index_is_consistent hash (remove_if_empty a r)"
proof (cases "map_of (bindings r) a = Some []")
  case True
  then have "(binding_keys hash (bindings r))(a := \<lambda>_. 0) = binding_keys hash (bindings r)"
    by (auto simp: binding_keys_def bound_def fun_eq_iff)
  then show ?thesis using assms
    by (simp add: contact_index_is_consistent_def remove_if_empty_def binding_keys_delete distinct_delete)
qed (use assms in \<open>simp add: remove_if_empty_def\<close>)

text \<open>The operations on the rest of the state leave bindings and contact index alone.\<close>

definition same_table :: "registrar \<Rightarrow> registrar \<Rightarrow> bool" where
  "same_table r r' \<longleftrightarrow>
     bindings r' = bindings r \<and> reg_contact_index r' = reg_contact_index r \<and> reg_config r' = reg_config r
     \<and> reg_identity r' = reg_identity r"

lemma same_table_refl: "same_table r r"
  by (simp add: same_table_def)

lemma same_table_trans: "same_table r s \<Longrightarrow> same_table s t \<Longrightarrow> same_table r t"
  by (simp add: same_table_def)

lemma same_table_foldl: "(\<And>r x. same_table r (f r x)) \<Longrightarrow> same_table r (foldl f r xs)"
proof (induction xs arbitrary: r)
  case (Cons x xs)
  then show ?case using same_table_trans [of r "f r x"] by simp
qed (simp add: same_table_refl)

lemma same_table_state:
  "same_table r (emit_event e r)" "same_table r (gauge_add n r)" "same_table r (remove_token t r)"
  "same_table r (prune_aliases_to a r)" "same_table r (remove_aor_state_entries a r)"
  "same_table r (deindex_connection i a r)" "same_table r (index_connection cid st a r)"
  by (simp_all add: same_table_def emit_event_def gauge_add_def remove_token_def prune_aliases_to_def
      remove_aor_state_entries_def deindex_connection_def index_connection_def Let_def split: option.splits)

lemma same_table_install_aliases: "same_table r (install_aliases a us r)"
  using same_table_state(4) [of r a] by (simp add: same_table_def install_aliases_def Let_def)

lemma same_table_drop: "same_table r (drop_aor_state a r)"
  unfolding drop_aor_state_def by (blast intro: same_table_trans same_table_state)

lemma same_table_forget: "same_table r (forget_flows ts cs a r)"
  unfolding forget_flows_def by (rule same_table_trans; rule same_table_foldl; rule same_table_state)

lemma same_table_carry_out: "same_table r (carry_out a r e)"
proof (cases e)
  case (Removed ts cs emptied)
  have "same_table r (if emptied then gauge_add (-1) (drop_aor_state a (forget_flows ts cs a r)) else forget_flows ts cs a r)"
    using same_table_forget same_table_drop same_table_state(2) by (simp, blast intro: same_table_trans)
  then show ?thesis using Removed same_table_state(1) by (auto simp: carry_out_def Let_def intro: same_table_trans)
next
  case (Stored ts cs tok cid stream ref)
  define r1 where "r1 = foldl (\<lambda>r t. if Some t \<noteq> tok then remove_token t r else r) r ts"
  define r2 where "r2 = (case tok of Some t \<Rightarrow> r1\<lparr>token_map := AList.update t a (token_map r1)\<rparr> | None \<Rightarrow> r1)"
  define r3 where "r3 = foldl (\<lambda>r i. deindex_connection i a r) r2 cs"
  define r4 where "r4 = index_connection cid stream a r3"
  have 1: "same_table r r1" unfolding r1_def
    by (rule same_table_foldl) (simp add: same_table_state same_table_refl)
  have 2: "same_table r1 r2" by (simp add: r2_def same_table_def split: option.splits)
  have 3: "same_table r2 r3" unfolding r3_def by (rule same_table_foldl) (rule same_table_state)
  have 4: "same_table r3 r4" unfolding r4_def by (rule same_table_state)
  have "same_table r r4" using 1 2 3 4 same_table_trans by blast
  moreover have "carry_out a r e = (if ref then emit_event (Refreshed a) r4 else emit_event (Registered a) (gauge_add 1 r4))"
    unfolding r1_def r2_def r3_def r4_def Stored carry_out_def Let_def by simp
  ultimately show ?thesis using same_table_state(1,2) by (simp, blast intro: same_table_trans)
qed

lemmas same_table_intros =
  same_table_refl same_table_trans [OF _ same_table_state(1)] same_table_trans [OF _ same_table_state(2)]
  same_table_trans [OF _ same_table_drop] same_table_trans [OF _ same_table_forget]

lemma same_table_tokens: "same_table r (foldl (\<lambda>r t. remove_token t r) r ts)"
  by (rule same_table_foldl) (rule same_table_state)

lemma same_table_events: "same_table r (foldl (\<lambda>r a. emit_event (f a) r) r as)"
  by (rule same_table_foldl) (rule same_table_state)

lemma same_table_connections: "same_table r (foldl (\<lambda>r (i, a). deindex_connection i a r) r ps)"
  by (rule same_table_foldl) (auto simp: same_table_state)

lemma consistent_same_table:
  "same_table r r' \<Longrightarrow> contact_index_is_consistent hash r \<Longrightarrow> contact_index_is_consistent hash r'"
  by (simp add: same_table_def contact_index_is_consistent_def)

definition released :: "aor \<Rightarrow> contact list \<Rightarrow> registrar \<Rightarrow> registrar" where
  "released a cs r = drop_aor_state a (foldl (\<lambda>r c. forget_flows (retired_tokens c) (retired_connections c) a r) r cs)"

lemma same_table_released: "same_table r (released a cs r)"
  unfolding released_def
  by (rule same_table_trans, rule same_table_foldl, rule same_table_forget, rule same_table_drop)

lemma release_cleared_eq:
  "release_cleared hash a contacts r =
     released a (case contacts of Some cs \<Rightarrow> cs | None \<Rightarrow> [])
       (r\<lparr>reg_contact_index := index_remove_all hash a (case contacts of Some cs \<Rightarrow> cs | None \<Rightarrow> []) (reg_contact_index r)\<rparr>)"
  by (simp add: release_cleared_def released_def Let_def)

lemma consistent_release:
  assumes "contact_index_is_consistent hash r" and "taken = map_of (bindings r) a"
  shows "contact_index_is_consistent hash (release_cleared hash a taken (r\<lparr>bindings := AList.delete a (bindings r)\<rparr>))"
proof -
  have t: "tracks (reg_contact_index r) (binding_keys hash (bindings r))"
    using assms by (simp add: contact_index_is_consistent_def)
  have "tracks (index_remove_all hash a (bindings_of r a) (reg_contact_index r)) ((binding_keys hash (bindings r))(a := \<lambda>_. 0))"
    using tracks_remove_all [OF t, of hash a "bindings_of r a"] by (simp add: binding_keys_at)
  then show ?thesis
    unfolding release_cleared_eq
    by (intro consistent_same_table [OF same_table_released])
      (use assms in \<open>auto simp: contact_index_is_consistent_def binding_keys_delete distinct_delete bindings_of_def\<close>)
qed

text \<open>A cleared list whose successor is already stored: its entries go, those of the successor stay.\<close>

lemma consistent_replace_cleared:
  assumes "contact_index_is_consistent hash r"
    and "r' = put_bindings a cs (r\<lparr>reg_contact_index := index_replace a [] (keys_of hash cs) (reg_contact_index r)\<rparr>)"
  shows "contact_index_is_consistent hash (release_cleared hash a (map_of (bindings r) a) r')"
proof -
  have t: "tracks (reg_contact_index r) (binding_keys hash (bindings r))"
    using assms by (simp add: contact_index_is_consistent_def)
  let ?ix = "index_replace a [] (keys_of hash cs) (reg_contact_index r)"
  have "tracks ?ix ((binding_keys hash (bindings r))
          (a := \<lambda>k. count_list (keys_of hash (bindings_of r a)) k + count_list (keys_of hash cs) k))"
    using tracks_replace [OF t, of "[]" a "keys_of hash cs"] by (simp add: binding_keys_at)
  then have "tracks (index_remove_all hash a (bindings_of r a) ?ix)
      ((binding_keys hash (bindings r))(a := count_list (keys_of hash cs)))"
    by (drule_tac tracks_remove_all [where hash = hash and a = a and cs = "bindings_of r a"]) simp
  then show ?thesis
    unfolding release_cleared_eq assms(2)
    by (intro consistent_same_table [OF same_table_released])
      (use assms(1) in \<open>cases "cs = []"; simp add: contact_index_is_consistent_def put_bindings_def binding_keys_delete
          binding_keys_update distinct_update distinct_delete bindings_of_def count_list_Nil_fun\<close>)
qed

subsection \<open>Every operation keeps the index in step\<close>

lemma consistent_clear_bindings:
  "contact_index_is_consistent hash r \<Longrightarrow> contact_index_is_consistent hash (clear_bindings hash a r)"
  by (simp add: clear_bindings_def take_bindings_def Let_def consistent_release)

lemma consistent_remove_all:
  assumes "contact_index_is_consistent hash r"
  shows "contact_index_is_consistent hash (remove_all hash a r)"
proof -
  note c = consistent_release [OF assms refl, of "resolve_alias r a"]
  show ?thesis
    using consistent_same_table [OF same_table_trans [OF same_table_state(2) same_table_state(1)] c]
      consistent_same_table [OF same_table_state(1) c]
    by (auto simp: remove_all_def take_bindings_def Let_def)
qed

lemma consistent_commit:
  assumes "contact_index_is_consistent hash r"
  shows "contact_index_is_consistent hash
    (put_bindings a cs (r\<lparr>reg_contact_index :=
       index_replace a (keys_of hash (bindings_of r a)) (keys_of hash cs) (reg_contact_index r)\<rparr>))"
  by (rule consistent_put [OF assms]) simp_all

lemma consistent_commit_register:
  assumes "contact_index_is_consistent hash r"
  shows "contact_index_is_consistent hash (commit_register hash a force cs r)"
proof -
  define key where "key = register_key r a force"
  define r2 where "r2 = put_bindings key cs (r\<lparr>reg_contact_index :=
        index_replace key (keys_of hash (register_held r a force)) (keys_of hash cs) (reg_contact_index r)\<rparr>)"
  show ?thesis
  proof (cases "clears_this_list r a force")
    case True
    then have "commit_register hash a force cs r = release_cleared hash key (map_of (bindings r) key) r2"
      by (auto simp: commit_register_def Let_def key_def r2_def clears_this_list_def)
    then show ?thesis
      using consistent_replace_cleared [OF assms, of r2 key cs] True by (simp add: r2_def register_held_def)
  next
    case False
    then have "contact_index_is_consistent hash r2"
      using consistent_commit [OF assms, of key cs] by (simp add: r2_def register_held_def key_def)
    moreover have "commit_register hash a force cs r =
        (if force then release_cleared hash (resolve_alias r a) (map_of (bindings r2) (resolve_alias r a))
           (r2\<lparr>bindings := AList.delete (resolve_alias r a) (bindings r2)\<rparr>) else r2)"
      using False by (simp only: commit_register_def Let_def take_bindings_def key_def r2_def if_False prod.case)
    ultimately show ?thesis using consistent_release by simp
  qed
qed

lemma consistent_apply_register:
  assumes "contact_index_is_consistent hash r"
  shows "contact_index_is_consistent hash (fst (apply_register hash now a updates force r))"
  using assms consistent_clear_bindings
    consistent_same_table [OF same_table_foldl [OF same_table_carry_out] consistent_commit_register [OF assms]]
  by (auto simp: apply_register_def Let_def split: sum.splits)

lemma consistent_remove_contact:
  assumes "contact_index_is_consistent hash r"
  shows "contact_index_is_consistent hash (fst (remove_contact hash now a uri r))"
proof -
  have "contact_index_is_consistent hash (carry_out b (put_bindings b cs (r\<lparr>reg_contact_index :=
       index_replace b (keys_of hash held) (keys_of hash cs) (reg_contact_index r)\<rparr>)) e)"
    if "map_of (bindings r) b = Some held" for b cs e held
    using consistent_same_table [OF same_table_carry_out consistent_commit [OF assms], of b b cs e] that
    by (simp add: bindings_of_def)
  then show ?thesis using assms
    by (simp add: remove_contact_def Let_def split: option.splits)
qed

lemma consistent_remove_contacts_from:
  assumes "contact_index_is_consistent hash r"
  shows "contact_index_is_consistent hash (fst (remove_contacts_from hash now a source uris r))"
proof -
  have "contact_index_is_consistent hash (fst (foldl
      (\<lambda>(r, n) u. let (r', removed) = remove_contact hash now a u r in (r', if removed then n + 1 else n)) (r, n) us))"
    for us n
    using assms
  proof (induction us arbitrary: r n)
    case (Cons u us)
    then show ?case
      using Cons.IH [OF consistent_remove_contact [OF Cons.prems, of now a u]]
      by (simp add: case_prod_beta Let_def)
  qed simp
  then show ?thesis by (simp add: remove_contacts_from_def Let_def)
qed

text \<open>Changes that are not in the index: records of application servers, and marks on a binding.\<close>

lemma consistent_same_keys:
  assumes "contact_index_is_consistent hash r" and "keys_of hash cs = keys_of hash (bindings_of r a)"
  shows "contact_index_is_consistent hash (r\<lparr>bindings := AList.update a cs (bindings r)\<rparr>)"
proof -
  have "(binding_keys hash (bindings r))(a := count_list (keys_of hash cs)) = binding_keys hash (bindings r)"
    using assms(2) by (auto simp: binding_keys_at fun_upd_idem)
  then show ?thesis using assms(1)
    by (simp add: contact_index_is_consistent_def binding_keys_update distinct_update)
qed

lemma consistent_deindexed:
  "contact_index_is_consistent hash r \<Longrightarrow>
   contact_index_is_consistent hash (foldl (\<lambda>r i. deindex_connection i a r) r is)"
  by (erule consistent_same_table [rotated]) (rule same_table_foldl, rule same_table_state)

lemma keys_of_device_records: "(\<And>c. c \<in> set cs \<Longrightarrow> \<not> P c \<Longrightarrow> c_kind c = As) \<Longrightarrow> keys_of hash (filter P cs) = keys_of hash cs"
  by (induction cs) (auto simp: keys_of_def keys_of_binding_def)

lemma keys_of_as_update:
  "i < length cs \<Longrightarrow> c_kind (cs ! i) = As \<Longrightarrow> c_kind c = As \<Longrightarrow> keys_of hash (cs[i := c]) = keys_of hash cs"
  by (induction cs arbitrary: i) (auto simp: keys_of_def keys_of_binding_def split: nat.splits)

lemma bindings_of_install [simp]: "bindings_of (install_bindings hash a cs r) a = cs"
  by (simp add: bindings_of_def install_bindings_def map_of_update)

lemma bindings_of_same_table: "same_table r r' \<Longrightarrow> bindings_of r' a = bindings_of r a"
  by (simp add: same_table_def bindings_of_def)

lemma consistent_save_as_contact:
  assumes "contact_index_is_consistent hash r"
  shows "contact_index_is_consistent hash (fst (save_as_contact hash now a0 uri expires q params r))"
proof -
  define a where "a = resolve_alias r a0"
  define cs where "cs = filter (\<lambda>c. \<not> is_expired now c) (bindings_of r a)"
  define r1 where "r1 = foldl (\<lambda>r i. deindex_connection i a r) (install_bindings hash a cs r)
    (concat (map retired_connections (filter (is_expired now) (bindings_of r a))))"
  have ok: "contact_index_is_consistent hash r1"
    unfolding r1_def by (intro consistent_deindexed consistent_install assms)
  have bound: "bindings_of r1 a = cs"
    unfolding r1_def
    by (subst bindings_of_same_table [OF same_table_foldl]) (simp_all add: same_table_state)
  have stored: "contact_index_is_consistent hash (r1\<lparr>bindings := AList.update a cs' (bindings r1)\<rparr>)"
    if "keys_of hash cs' = keys_of hash cs" for cs'
    using consistent_same_keys [OF ok] that bound by simp
  have removed: "keys_of hash (filter (\<lambda>c. \<not> as_record uri c) cs) = keys_of hash cs"
    by (rule keys_of_device_records) (auto simp: as_record_def)
  have added: "keys_of hash (case position_of (as_record uri) cs of
      Some i \<Rightarrow> cs[i := as_contact now uri expires q params] | None \<Rightarrow> cs @ [as_contact now uri expires q params])
      = keys_of hash cs"
    using keys_of_as_update [of _ cs "as_contact now uri expires q params"]
    by (auto simp: keys_of_def keys_of_binding_def as_record_def as_contact_def position_of_Some split: option.splits)
  show ?thesis
    using ok consistent_remove_if_empty [OF stored [OF removed]] stored [OF added]
    unfolding save_as_contact_def Let_def
      a_def [symmetric] cs_def [symmetric] r1_def [symmetric]
    by simp
qed

lemma consistent_save_pending:
  "contact_index_is_consistent hash r \<Longrightarrow> contact_index_is_consistent hash (save_pending hash now a uri e q cid cs r)"
  by (simp add: save_pending_def Let_def consistent_install)

lemma consistent_confirm_pending:
  assumes "contact_index_is_consistent hash r"
  shows "contact_index_is_consistent hash (confirm_pending a r)"
proof -
  have "keys_of hash (map (\<lambda>c. c\<lparr>c_pending := False\<rparr>) cs) = keys_of hash cs" for cs
    by (induction cs) (auto simp: keys_of_def keys_of_binding_def)
  then show ?thesis
    using assms consistent_same_keys [OF assms, of _ "resolve_alias r a"]
    by (auto simp: confirm_pending_def Let_def bindings_of_def split: option.splits)
qed

lemma consistent_close_aor:
  assumes "contact_index_is_consistent hash (fst acc)"
  shows "contact_index_is_consistent hash (fst (close_aor hash now cid keep acc a))"
  using assms consistent_install consistent_remove_if_empty
  by (auto simp: close_aor_def Let_def case_prod_beta split: option.splits)

lemma consistent_foldl:
  assumes "\<And>acc a. contact_index_is_consistent hash (fst acc) \<Longrightarrow> contact_index_is_consistent hash (fst (f acc a))"
    and "contact_index_is_consistent hash (fst acc)"
  shows "contact_index_is_consistent hash (fst (foldl f acc xs))"
  using assms(2)
proof (induction xs arbitrary: acc)
  case (Cons x xs)
  then show ?case using Cons.IH [OF assms(1)] by simp
qed simp

lemma consistent_close_flow:
  assumes "contact_index_is_consistent hash r"
  shows "contact_index_is_consistent hash (fst (close_flow hash now cid keep r))"
proof (cases "map_of (connection_index r) cid")
  case None
  then show ?thesis using assms by (simp add: close_flow_def)
next
  case (Some as)
  let ?r0 = "r\<lparr>connection_index := AList.delete cid (connection_index r)\<rparr>"
  obtain r1 removed tokens gone n where
    f: "foldl (close_aor hash now cid keep) (?r0, [], [], [], 0) (first_occurrences as) = (r1, removed, tokens, gone, n)"
    by (metis prod_cases5)
  have "contact_index_is_consistent hash ?r0" using assms by (simp add: contact_index_is_consistent_def)
  then have 1: "contact_index_is_consistent hash r1"
    using consistent_foldl [where f = "close_aor hash now cid keep" and acc = "(?r0, [], [], [], 0)" and hash = hash
        and xs = "first_occurrences as", OF consistent_close_aor] f
    by simp
  have "same_table r1 (foldl (\<lambda>r a. emit_event (Deregistered a) r)
      (gauge_add (- int n) (foldl (\<lambda>r t. remove_token t r) r1 tokens)) gone)"
    by (intro same_table_trans [OF _ same_table_events] same_table_intros(3) same_table_tokens)
  then show ?thesis
    using consistent_same_table [OF _ 1] Some f by (simp add: close_flow_def Let_def)
qed

lemma consistent_evict_aor:
  assumes "contact_index_is_consistent hash (fst acc)"
  shows "contact_index_is_consistent hash (fst (evict_aor hash acc a))"
proof -
  have "contact_index_is_consistent hash r \<Longrightarrow> contact_index_is_consistent hash (emit_event e (gauge_add n r))"
    "contact_index_is_consistent hash r \<Longrightarrow> contact_index_is_consistent hash (emit_event e r)" for r e n
    by (erule consistent_same_table [rotated], intro same_table_intros)+
  then show ?thesis
    using assms consistent_install consistent_remove_if_empty
    by (auto simp: evict_aor_def Let_def case_prod_beta split: option.splits)
qed

lemma consistent_evict_connection_oriented:
  assumes "contact_index_is_consistent hash r"
  shows "contact_index_is_consistent hash (fst (evict_connection_oriented hash r))"
proof -
  obtain r1 n tokens conns where
    f: "foldl (evict_aor hash) (r, 0, [], []) (map fst (bindings r)) = (r1, n, tokens, conns)" by (metis prod_cases4)
  have 1: "contact_index_is_consistent hash r1"
    using consistent_foldl [where f = "evict_aor hash" and acc = "(r, 0, [], [])" and hash = hash
        and xs = "map fst (bindings r)", OF consistent_evict_aor] f assms by simp
  show ?thesis
    using consistent_same_table [OF same_table_trans [OF same_table_tokens same_table_connections] 1] f
    by (simp add: evict_connection_oriented_def Let_def)
qed

lemma consistent_evict_restored_aor:
  assumes "contact_index_is_consistent hash (fst acc)"
  shows "contact_index_is_consistent hash (fst (evict_restored_aor hash now select acc a))"
proof -
  have "contact_index_is_consistent hash r \<Longrightarrow>
      contact_index_is_consistent hash (emit_event e (gauge_add n (drop_aor_state a (forget_flows ts cs a r))))"
    "contact_index_is_consistent hash r \<Longrightarrow> contact_index_is_consistent hash (emit_event e (forget_flows ts cs a r))"
    for r e n ts cs
    by (erule consistent_same_table [rotated], intro same_table_intros)+
  then show ?thesis
    using assms consistent_install consistent_remove_if_empty
    by (auto simp: evict_restored_aor_def Let_def case_prod_beta split: option.splits)
qed

lemma consistent_evict_restored:
  "contact_index_is_consistent hash r \<Longrightarrow> contact_index_is_consistent hash (fst (evict_restored hash now select r))"
  unfolding evict_restored_def
  by (rule consistent_foldl) (auto intro: consistent_evict_restored_aor)

text \<open>The expiry sweep forgets the entries of the expired bindings one by one.\<close>

lemma index_pairs_wf: "index_wf ix \<Longrightarrow> index_wf (foldl (\<lambda>ix (key, a). index_remove a key ix) ix ps)"
  by (induction ps arbitrary: ix) (auto intro: index_remove_wf)

lemma index_pairs_count:
  "index_wf ix \<Longrightarrow>
   index_count (foldl (\<lambda>ix (key, a). index_remove a key ix) ix ps) k b = index_count ix k b - count_list ps (k, b)"
proof (induction ps arbitrary: ix)
  case (Cons p ps)
  then show ?case by (cases p) (auto simp: index_remove_wf index_remove_count)
qed simp

lemma count_pairs: "count_list (map (\<lambda>key. (key, a)) ks) (k, b) = (if a = b then count_list ks k else 0)"
  by (induction ks) auto

lemma survivors_keys: "keys_of hash (survivors now cs) = keys_of hash (filter (\<lambda>c. \<not> is_expired now c) cs)"
proof -
  let ?alive = "filter (\<lambda>c. \<not> is_expired now c) cs"
  have none: "(\<And>c. c \<in> set xs \<Longrightarrow> c_kind c \<noteq> Ue) \<Longrightarrow> keys_of hash xs = []" for xs
    by (induction xs) (auto simp: keys_of_def keys_of_binding_def)
  show ?thesis
  proof (cases "list_ex (\<lambda>c. c_kind c = Ue) ?alive")
    case False
    then have "keys_of hash ?alive = []" by (intro none) (auto simp: list_ex_iff)
    then show ?thesis using False by (simp add: survivors_def)
  qed (simp add: survivors_def)
qed

lemma count_keys_split:
  "count_list (keys_of hash cs) k
     = count_list (keys_of hash (filter P cs)) k + count_list (keys_of hash (filter (\<lambda>c. \<not> P c) cs)) k"
  by (induction cs) (auto simp: keys_of_def)

definition expired_pairs :: "hasher \<Rightarrow> nat \<Rightarrow> (aor \<times> contact list) list \<Rightarrow> (nat \<times> aor) list" where
  "expired_pairs hash now bs =
     concat (map (\<lambda>(a, c). map (\<lambda>key. (key, a)) (keys_of_binding hash c))
       (concat (map (\<lambda>(a, cs). map (Pair a) (filter (is_expired now) cs)) bs)))"

lemma expired_pairs_Cons:
  "expired_pairs hash now ((a, cs) # bs) =
     map (\<lambda>key. (key, a)) (keys_of hash (filter (is_expired now) cs)) @ expired_pairs hash now bs"
  by (induction cs) (auto simp: expired_pairs_def keys_of_def)

lemma count_expired_pairs:
  "distinct (map fst bs) \<Longrightarrow>
   count_list (expired_pairs hash now bs) (k, b) = count_list (keys_of hash (filter (is_expired now) (bound bs b))) k"
proof (induction bs)
  case Nil
  then show ?case by (simp add: expired_pairs_def bound_def)
next
  case (Cons x bs)
  obtain a cs where x: "x = (a, cs)" by force
  have "a \<notin> fst ` set bs" using Cons.prems x by auto
  then have "map_of bs a = None" by (simp add: map_of_eq_None_iff)
  then show ?case using Cons x by (auto simp: expired_pairs_Cons count_pairs bound_def)
qed

lemma bound_survivors:
  "bound (map (\<lambda>(a, cs). (a, survivors now cs)) bs) a = survivors now (bound bs a)"
  by (induction bs) (auto simp: bound_def survivors_def)

lemma consistent_expired_entry:
  assumes "contact_index_is_consistent hash r"
  shows "contact_index_is_consistent hash
    (emit_event e (remove_aor_state_entries a (prune_aliases_to a (remove_if_empty a r))))"
  by (rule consistent_same_table [OF _ consistent_remove_if_empty [OF assms, of a]])
    (intro same_table_intros(2) same_table_trans [OF same_table_state(4) same_table_state(5)])

lemma consistent_expire_stale:
  assumes "contact_index_is_consistent hash r"
  shows "contact_index_is_consistent hash (fst (expire_stale hash now r))"
proof -
  let ?bs = "map (\<lambda>(a, cs). (a, survivors now cs)) (bindings r)"
  define r1 where "r1 = r\<lparr>bindings := ?bs\<rparr>"
  define expired where "expired = concat (map (\<lambda>(a, cs). map (Pair a) (filter (is_expired now) cs)) (bindings r))"
  define r3 where "r3 = foldl (\<lambda>r (i, a). deindex_connection i a r)
    (foldl (\<lambda>r t. remove_token t r) r1 (concat (map (\<lambda>(_, c). retired_tokens c) expired)))
    (concat (map (\<lambda>(a, c). map (\<lambda>i. (i, a)) (retired_connections c)) expired))"
  define r4 where "r4 = r3\<lparr>reg_contact_index := foldl (\<lambda>ix (key, a). index_remove a key ix) (reg_contact_index r3)
    (expired_pairs hash now (bindings r))\<rparr>"
  define aors where "aors = map fst (filter (\<lambda>(_, cs). survivors now cs = [] \<and> cs \<noteq> []) (bindings r))"
  have wf: "index_wf (reg_contact_index r)" and d: "distinct (map fst (bindings r))"
    and ct: "index_count (reg_contact_index r) k a = count_list (keys_of hash (bound (bindings r) a)) k" for k a
    using assms by (auto simp: contact_index_is_consistent_def tracks_def binding_keys_def)
  have same: "same_table r1 r3"
    unfolding r3_def by (rule same_table_trans [OF same_table_tokens same_table_connections])
  have "index_count (reg_contact_index r4) k a = binding_keys hash ?bs a k" for k a
    using count_keys_split [of hash "bound (bindings r) a" k "is_expired now"] same
    by (simp add: r4_def same_table_def r1_def index_pairs_count [OF wf] count_expired_pairs [OF d] ct
        binding_keys_def bound_survivors survivors_keys)
  moreover have "index_wf (reg_contact_index r4)"
    using same by (simp add: r4_def same_table_def r1_def index_pairs_wf [OF wf])
  moreover have "distinct (map fst ?bs)" using d by (simp add: comp_def case_prod_beta)
  ultimately have 4: "contact_index_is_consistent hash r4"
    using same by (simp add: contact_index_is_consistent_def tracks_def r4_def same_table_def r1_def del: map_map)
  have "contact_index_is_consistent hash (foldl (\<lambda>r a. emit_event (Expired a)
      (remove_aor_state_entries a (prune_aliases_to a (remove_if_empty a r)))) r' as)"
    if "contact_index_is_consistent hash r'" for r' as
    using that by (induction as arbitrary: r') (auto intro: consistent_expired_entry)
  from this [OF consistent_same_table [OF same_table_state(2) 4]] show ?thesis
    by (simp add: expire_stale_def Let_def r1_def expired_def r3_def r4_def expired_pairs_def)
qed

subsection \<open>The life of a registrar\<close>

text \<open>A registrar from its construction on, through every operation that changes it.\<close>

inductive reg_reachable :: "hasher \<Rightarrow> registrar_config \<Rightarrow> registrar \<Rightarrow> bool"
  for hash :: hasher and cfg :: registrar_config where
  reg_start: "reg_reachable hash cfg (registrar_new cfg)"
| reg_identity: "reg_reachable hash cfg r \<Longrightarrow> reg_reachable hash cfg (set_instance_identity i r)"
| reg_restore: "reg_reachable hash cfg r \<Longrightarrow> reg_reachable hash cfg (install_bindings hash a cs r)"
| reg_restore_state: "reg_reachable hash cfg r \<Longrightarrow> reg_reachable hash cfg (apply_aor_state a routes ident uris r)"
| reg_register: "reg_reachable hash cfg r \<Longrightarrow> reg_reachable hash cfg (fst (apply_register hash now a us force r))"
| reg_remove_all: "reg_reachable hash cfg r \<Longrightarrow> reg_reachable hash cfg (remove_all hash a r)"
| reg_clear: "reg_reachable hash cfg r \<Longrightarrow> reg_reachable hash cfg (clear_bindings hash a r)"
| reg_remove_contact:
    "reg_reachable hash cfg r \<Longrightarrow> reg_reachable hash cfg (fst (remove_contact hash now a uri r))"
| reg_remove_from:
    "reg_reachable hash cfg r \<Longrightarrow> reg_reachable hash cfg (fst (remove_contacts_from hash now a source uris' r))"
| reg_as_contact:
    "reg_reachable hash cfg r \<Longrightarrow> reg_reachable hash cfg (fst (save_as_contact hash now a u e q params r))"
| reg_pending: "reg_reachable hash cfg r \<Longrightarrow> reg_reachable hash cfg (save_pending hash now a u e q cid cseq r)"
| reg_confirm: "reg_reachable hash cfg r \<Longrightarrow> reg_reachable hash cfg (confirm_pending a r)"
| reg_close: "reg_reachable hash cfg r \<Longrightarrow> reg_reachable hash cfg (fst (close_flow hash now conn keep r))"
| reg_expire: "reg_reachable hash cfg r \<Longrightarrow> reg_reachable hash cfg (fst (expire_stale hash now r))"
| reg_evict: "reg_reachable hash cfg r \<Longrightarrow> reg_reachable hash cfg (fst (evict_connection_oriented hash r))"
| reg_evict_restored:
    "reg_reachable hash cfg r \<Longrightarrow> reg_reachable hash cfg (fst (evict_restored hash now select r))"
| reg_tokens: "reg_reachable hash cfg r \<Longrightarrow> reg_reachable hash cfg (rebuild_token_index now r)"
| reg_routes: "reg_reachable hash cfg r \<Longrightarrow> reg_reachable hash cfg (set_service_routes a routes r)"
| reg_associated: "reg_reachable hash cfg r \<Longrightarrow> reg_reachable hash cfg (set_associated_uris a uris r)"
| reg_asserted: "reg_reachable hash cfg r \<Longrightarrow> reg_reachable hash cfg (set_asserted_identity a i' r)"

lemma table_apply_aor_state:
  "bindings (apply_aor_state a routes ident uris r) = bindings r"
  "reg_contact_index (apply_aor_state a routes ident uris r) = reg_contact_index r"
  using same_table_install_aliases [of _ a uris]
  by (auto simp: apply_aor_state_def Let_def same_table_def split: option.splits)

lemma table_of_setters:
  "bindings (set_instance_identity i r) = bindings r"
  "reg_contact_index (set_instance_identity i r) = reg_contact_index r"
  "bindings (rebuild_token_index now r) = bindings r"
  "reg_contact_index (rebuild_token_index now r) = reg_contact_index r"
  "bindings (set_service_routes a routes r) = bindings r"
  "reg_contact_index (set_service_routes a routes r) = reg_contact_index r"
  "bindings (set_asserted_identity a s r) = bindings r"
  "reg_contact_index (set_asserted_identity a s r) = reg_contact_index r"
  by (simp_all add: set_instance_identity_def rebuild_token_index_def set_service_routes_def
      set_asserted_identity_def Let_def split: option.splits)

lemma table_set_associated_uris:
  "bindings (set_associated_uris a uris r) = bindings r"
  "reg_contact_index (set_associated_uris a uris r) = reg_contact_index r"
  using same_table_install_aliases [of r "resolve_alias r a" uris]
  by (simp_all add: set_associated_uris_def Let_def same_table_def)

lemmas consistent_setters =
  consistent_cong [OF table_apply_aor_state] consistent_cong [OF table_of_setters(1,2)]
  consistent_cong [OF table_of_setters(3,4)] consistent_cong [OF table_of_setters(5,6)]
  consistent_cong [OF table_of_setters(7,8)] consistent_cong [OF table_set_associated_uris]

lemma reachable_consistent: "reg_reachable hash cfg r \<Longrightarrow> contact_index_is_consistent hash r"
  by (induction rule: reg_reachable.induct)
    (simp_all add: consistent_new consistent_setters consistent_install consistent_apply_register consistent_remove_all
      consistent_clear_bindings consistent_remove_contact consistent_remove_contacts_from consistent_save_as_contact
      consistent_save_pending consistent_confirm_pending consistent_close_flow consistent_expire_stale
      consistent_evict_connection_oriented consistent_evict_restored)

subsection \<open>Lookups through the index\<close>

lemma index_aors_iff:
  assumes "contact_index_is_consistent hash r"
  shows "a \<in> set (index_aors (reg_contact_index r) key) \<longleftrightarrow> key \<in> set (keys_of hash (bindings_of r a))"
proof -
  have wf: "index_wf (reg_contact_index r)"
    and ct: "index_count (reg_contact_index r) key a = count_list (keys_of hash (bindings_of r a)) key"
    using assms by (auto simp: contact_index_is_consistent_def tracks_def binding_keys_at)
  have "a \<in> set (index_aors (reg_contact_index r) key) \<longleftrightarrow> 0 < index_count (reg_contact_index r) key a"
  proof (cases "map_of (reg_contact_index r) key")
    case (Some h)
    then have ok: "holders_ok h" using wf by (auto simp: index_wf_def)
    then show ?thesis using Some
      by (cases h) (auto simp: index_aors_def index_count_def holders_aors_def holders_count_def holders_ok_def
          map_of_eq_None_iff [symmetric] intro: rev_image_eqI split: option.splits)
  qed (simp add: index_aors_def index_count_def)
  then show ?thesis using ct by (simp add: count_list_0_iff flip: neq0_conv)
qed

lemma index_aors_distinct:
  assumes "contact_index_is_consistent hash r" shows "distinct (index_aors (reg_contact_index r) key)"
proof (cases "map_of (reg_contact_index r) key")
  case (Some h)
  then have "holders_ok h" using assms by (auto simp: contact_index_is_consistent_def tracks_def index_wf_def)
  then show ?thesis using Some by (cases h) (auto simp: index_aors_def holders_aors_def holders_ok_def)
qed (simp add: index_aors_def)

text \<open>The scans of all bindings that the index replaces.\<close>

definition contact_scan :: "nat \<Rightarrow> registrar \<Rightarrow> string \<Rightarrow> (aor \<times> contact) list" where
  "contact_scan now r contact_uri =
     (case contact_target contact_uri of
        None \<Rightarrow> []
      | Some t \<Rightarrow>
          concat (map (\<lambda>(a, cs). map (Pair a) (filter (\<lambda>c. live_ue now c \<and> same_contact (c_uri c) t) cs)) (bindings r)))"

lemma mset_concat_distinct: "distinct xs \<Longrightarrow> mset (concat (map g xs)) = (\<Sum>x \<in> set xs. mset (g x))"
  by (induction xs) auto

lemma same_contact_key: "same_contact u t \<Longrightarrow> key_of hash u = key_of hash t"
  by (simp add: same_contact_def key_of_def uri_identity_def)

lemma keys_of_live_ue: "c \<in> set cs \<Longrightarrow> live_ue now c \<Longrightarrow> key_of hash (c_uri c) \<in> set (keys_of hash cs)"
  by (auto simp: keys_of_def keys_of_binding_def live_ue_def intro!: bexI [of _ c])

lemma keys_of_source: "c \<in> set cs \<Longrightarrow> from_source now s c \<Longrightarrow> source_key_of hash s \<in> set (keys_of hash cs)"
  by (cases s) (auto simp: keys_of_def keys_of_binding_def from_source_def live_ue_def intro!: bexI [of _ c])

lemma bindings_of_entry: "distinct (map fst (bindings r)) \<Longrightarrow> (a, cs) \<in> set (bindings r) \<Longrightarrow> bindings_of r a = cs"
  by (simp add: bindings_of_def)

lemma bindings_of_absent: "a \<notin> fst ` set (bindings r) \<Longrightarrow> bindings_of r a = []"
  by (simp add: bindings_of_def map_of_eq_None_iff [THEN iffD2])

lemma contact_matches_scan:
  assumes "contact_index_is_consistent hash r"
  shows "mset (contact_matches hash now r uri) = mset (contact_scan now r uri)"
proof (cases "contact_target uri")
  case None
  then show ?thesis by (simp add: contact_matches_def contact_scan_def)
next
  case (Some t)
  define g where "g = (\<lambda>a. map (Pair a) (filter (\<lambda>c. live_ue now c \<and> same_contact (c_uri c) t) (bindings_of r a)))"
  let ?ix = "index_aors (reg_contact_index r) (key_of hash t)"
  have d: "distinct (map fst (bindings r))" using assms by (simp add: contact_index_is_consistent_def)
  have "contact_scan now r uri = concat (map g (map fst (bindings r)))"
    using Some bindings_of_entry [OF d]
    by (auto simp: contact_scan_def g_def comp_def intro!: arg_cong [where f = concat])
  moreover have "contact_matches hash now r uri = concat (map g ?ix)"
    using Some by (simp add: contact_matches_def g_def)
  moreover have "g a = []" if "a \<notin> set ?ix" for a
  proof -
    have "key_of hash t \<notin> set (keys_of hash (bindings_of r a))" using that index_aors_iff [OF assms] by simp
    then show ?thesis using keys_of_live_ue same_contact_key by (fastforce simp: g_def filter_empty_conv)
  qed
  moreover have "set ?ix \<subseteq> set (map fst (bindings r))"
    using index_aors_iff [OF assms] bindings_of_absent by (fastforce simp: keys_of_def)
  ultimately show ?thesis
    using sum.mono_neutral_left [of "set (map fst (bindings r))" "set ?ix" "\<lambda>a. mset (g a)"]
    by (simp add: mset_concat_distinct [OF d] mset_concat_distinct [OF index_aors_distinct [OF assms]] del: set_map map_map)
qed

lemma source_index_scan:
  assumes "contact_index_is_consistent hash r"
  shows "has_live_binding_from hash now r s \<longleftrightarrow> list_ex (\<lambda>(a, cs). list_ex (from_source now s) cs) (bindings r)"
proof -
  have d: "distinct (map fst (bindings r))" using assms by (simp add: contact_index_is_consistent_def)
  have a: "a \<in> set (index_aors (reg_contact_index r) (source_key_of hash s))" if "list_ex (from_source now s) (bindings_of r a)" for a
    using that unfolding list_ex_iff index_aors_iff [OF assms] by (blast dest: keys_of_source)
  show ?thesis
  proof
    assume "has_live_binding_from hash now r s"
    then obtain a where l: "list_ex (from_source now s) (bindings_of r a)" by (auto simp: has_live_binding_from_def list_ex_iff)
    then have "a \<in> fst ` set (bindings r)" using bindings_of_absent [of a r] by force
    then show "list_ex (\<lambda>(a, cs). list_ex (from_source now s) cs) (bindings r)"
      using l bindings_of_entry [OF d] unfolding list_ex_iff by fastforce
  next
    assume "list_ex (\<lambda>(a, cs). list_ex (from_source now s) cs) (bindings r)"
    then obtain a cs where "(a, cs) \<in> set (bindings r)" "list_ex (from_source now s) cs" unfolding list_ex_iff by auto
    then have "list_ex (from_source now s) (bindings_of r a)" using bindings_of_entry [OF d] by simp
    then show "has_live_binding_from hash now r s"
      using a unfolding has_live_binding_from_def list_ex_iff [of _ "index_aors _ _"] by blast
  qed
qed

lemma aor_for_contact_unique:
  assumes "contact_index_is_consistent hash r"
  shows "aor_for_contact hash now r uri = Some a \<longleftrightarrow> fst ` set (contact_scan now r uri) = {a}"
proof -
  have "set (contact_scan now r uri) = set (contact_matches hash now r uri)"
    using contact_matches_scan [OF assms] by (metis set_mset_mset)
  moreover have "aor_for_contact hash now r uri = Some a \<longleftrightarrow> fst ` set (contact_matches hash now r uri) = {a}"
    by (auto simp: aor_for_contact_def binding_for_contact_def list_ex_iff split: list.splits if_splits)
  ultimately show ?thesis by simp
qed

subsection \<open>What a REGISTER does\<close>




lemma set_sort_by_q [simp]: "set (sort_by_q cs) = set cs" and length_sort_by_q [simp]: "length (sort_by_q cs) = length cs"
  by (simp_all add: sort_by_q_def)












definition reg_hash :: hasher where
  "reg_hash i = (case i of ContactIdentity _ _ h p \<Rightarrow> length h + p | SourceIdentity (_, p) \<Rightarrow> p)"

definition tcp_contact :: "string \<Rightarrow> nat \<Rightarrow> contact_update" where
  "tcp_contact host expires =
     (update_of ((uri_new host)\<lparr>uri_user := Some ''a''\<rparr>) expires 1000 ''c'' 1 None (Some NetTcp))
       \<lparr>up_connection_id := Some 7\<rparr>"

definition two_on_one :: registrar where
  "two_on_one = fst (apply_register reg_hash 0 ''sip:a@h'' [tcp_contact ''x'' 600, tcp_contact ''y'' 600] False
     (registrar_new config_default))"

definition one_left :: registrar where
  "one_left = fst (apply_register reg_hash 0 ''sip:a@h'' [tcp_contact ''x'' 0] False two_on_one)"

lemma two_on_one_reachable: "reg_reachable reg_hash config_default two_on_one"
  unfolding two_on_one_def by (intro reg_register reg_start)

lemma one_left_reachable: "reg_reachable reg_hash config_default one_left"
  unfolding one_left_def by (intro reg_register two_on_one_reachable)

text \<open>
  C9. Through every operation of the registrar, from its construction on, the contact index holds exactly one
  entry per binding of a device under each of its keys: what rebuilding it from the bindings would give.
\<close>

theorem registrar_index_invariant: "reg_reachable hash cfg r \<Longrightarrow> contact_index_is_consistent hash r"
  by (rule reachable_consistent)

theorem registrar_index_invariant_witness:
  "reg_reachable reg_hash config_default two_on_one \<and> contact_index_is_consistent reg_hash two_on_one
   \<and> index_count (reg_contact_index two_on_one) 5061 ''sip:a@h'' = 2"
proof -
  have "index_count (reg_contact_index two_on_one) 5061 ''sip:a@h'' = 2" by code_simp
  then show ?thesis using registrar_index_invariant [OF two_on_one_reachable] two_on_one_reachable by simp
qed

text \<open>
  C15. In every reachable registrar and for every hash function, collisions included, a lookup through the
  contact index answers as a scan of all bindings would: the same bindings, in order of preference; whether
  there is one; the one address when all of them belong to it, and none when they belong to two; and whether
  a live binding came from a source address.
\<close>

theorem lookup_contact_is_scan:
  assumes "reg_reachable hash cfg r"
  shows "mset (lookup_contact hash now r uri) = mset (map snd (contact_scan now r uri))
    \<and> sorted (map (\<lambda>c. (- int (c_q c), age_seconds now c)) (lookup_contact hash now r uri))
    \<and> (is_registered_contact hash now r uri \<longleftrightarrow> contact_scan now r uri \<noteq> [])
    \<and> (aor_for_contact hash now r uri = Some a \<longleftrightarrow> fst ` set (contact_scan now r uri) = {a})
    \<and> (has_live_binding_from hash now r s \<longleftrightarrow> list_ex (\<lambda>(_, cs). list_ex (from_source now s) cs) (bindings r))"
proof -
  note ok = reachable_consistent [OF assms]
  note scan = contact_matches_scan [OF ok, of now uri]
  have "mset (lookup_contact hash now r uri) = mset (map snd (contact_scan now r uri))"
    using scan by (simp add: lookup_contact_def sort_by_preference_def)
  moreover have "contact_matches hash now r uri \<noteq> [] \<longleftrightarrow> contact_scan now r uri \<noteq> []"
    using scan by (metis mset_zero_iff)
  ultimately show ?thesis
    using aor_for_contact_unique [OF ok, of now uri a] source_index_scan [OF ok, of now s]
    by (simp add: is_registered_contact_def lookup_contact_def sort_by_preference_def)
qed

theorem lookup_contact_is_scan_witness:
  "reg_reachable reg_hash config_default two_on_one
   \<and> map (\<lambda>c. show_uri (c_uri c)) (lookup_contact reg_hash 0 two_on_one ''<sip:a@X:5060>'') = [''sip:a@x'']
   \<and> mset (lookup_contact reg_hash 0 two_on_one ''<sip:a@X:5060>'')
       = mset (map snd (contact_scan 0 two_on_one ''<sip:a@X:5060>''))"
proof -
  have "map (\<lambda>c. show_uri (c_uri c)) (lookup_contact reg_hash 0 two_on_one ''<sip:a@X:5060>'') = [''sip:a@x'']"
    by code_simp
  then show ?thesis
    using lookup_contact_is_scan [OF two_on_one_reachable, of 0 "''<sip:a@X:5060>''"] two_on_one_reachable by simp
qed




end
