(* ===== verification/Stream_Framing.thy ===== *)
theory Stream_Framing
  imports Sip_Parser "HOL-Library.AList"
begin

text \<open>
  SIP on a stream: the framer of \<^verbatim>\<open>src/src/transport/tcp.rs\<close> that finds where a message ends, the
  keepalives of RFC 5626 (\<^verbatim>\<open>src/src/transport/crlf_keepalive.rs\<close>), and the read loop and protocol
  sniffing of \<^verbatim>\<open>src/src/transport/stream.rs\<close>.  A connection is the list of what its reads return;
  what the loop does (messages handed on, pongs, a 513, a malformed message counted) is a list of effects in
  order.  \<^verbatim>\<open>usize\<close> has 64 bits.  Sending a frame to the peer is an effect and does not fail here.
\<close>

subsection \<open>Where a message ends\<close>

definition ends_with :: "string \<Rightarrow> string \<Rightarrow> bool" where
  "ends_with p s \<longleftrightarrow> strip_suffix p s \<noteq> None"

definition is_sip_start_line :: "bytes \<Rightarrow> bool" where
  "is_sip_start_line line \<longleftrightarrow> starts_with ''SIP/2.0 '' line \<or> ends_with '' SIP/2.0'' line"

definition continues :: "bytes \<Rightarrow> bool" where
  "continues line = (case line of c # _ \<Rightarrow> c = SP \<or> c = HT | [] \<Rightarrow> False)"

definition strip_cr :: "bytes \<Rightarrow> bytes" where
  "strip_cr line = (case strip_suffix [CR] line of Some l \<Rightarrow> l | None \<Rightarrow> line)"

definition block_lines :: "bytes \<Rightarrow> bytes list" where
  "block_lines block = filter (\<lambda>l. l \<noteq> []) (map strip_cr (split_on LF block))"

fun scan_content_length :: "bytes list \<Rightarrow> nat option" where
  "scan_content_length [] = None"
| "scan_content_length (line # ls) =
     (if continues line then scan_content_length ls
      else case split_once CHR '':'' line of
        None \<Rightarrow> scan_content_length ls
      | Some (name, v) \<Rightarrow>
          if trim_ascii (to_lower name) \<notin> {''content-length'', ''l''} then scan_content_length ls
          else
            (let folded = v @ concat (map (\<lambda>l. SP # l) (takeWhile continues ls))
             in if utf8_valid folded then parse_uint u64_max (trim folded) else None))"

definition extract_content_length :: "bytes \<Rightarrow> nat option" where
  "extract_content_length block =
     (case block_lines block of [] \<Rightarrow> None | _ # ls \<Rightarrow> scan_content_length ls)"

definition extract_sip_message_length :: "bytes \<Rightarrow> nat option" where
  "extract_sip_message_length buffer =
     (let prefix = leading_crlf_len buffer; rest = drop prefix buffer
      in case find_sub (crlf @ crlf) rest of
           None \<Rightarrow> None
         | Some header_end \<Rightarrow>
             (let content_length = (case extract_content_length (take header_end rest) of Some n \<Rightarrow> n | None \<Rightarrow> 0)
              in Some (min (prefix + header_end + 4 + content_length) u64_max)))"

definition MAX_INCOMPLETE_HEADER_BYTES :: nat where
  "MAX_INCOMPLETE_HEADER_BYTES = 65536"

definition control_byte :: "char \<Rightarrow> bool" where
  "control_byte c \<longleftrightarrow> of_char c < (32 :: nat) \<and> c \<noteq> CR \<and> c \<noteq> LF \<and> c \<noteq> HT"

datatype stream_verdict = MaybeSip | GarbageBytes

definition classify_incomplete_stream :: "bytes \<Rightarrow> stream_verdict" where
  "classify_incomplete_stream buffer =
     (if MAX_INCOMPLETE_HEADER_BYTES < length buffer then GarbageBytes
      else if list_ex control_byte (take 512 buffer) then GarbageBytes
      else case find_sub crlf buffer of
        Some line_end \<Rightarrow> if is_sip_start_line (take line_end buffer) then MaybeSip else GarbageBytes
      | None \<Rightarrow> MaybeSip)"

datatype frame_verdict =
    Complete nat
  | NeedMore
  | Oversized nat nat
  | Garbage

definition frame_sip_message :: "bytes \<Rightarrow> nat \<Rightarrow> frame_verdict" where
  "frame_sip_message buffer max_bytes =
     (case extract_sip_message_length buffer of
        None \<Rightarrow> (case classify_incomplete_stream buffer of MaybeSip \<Rightarrow> NeedMore | GarbageBytes \<Rightarrow> Garbage)
      | Some len \<Rightarrow>
          (let prefix = leading_crlf_len buffer; rest = drop prefix buffer;
               line = (case find_sub crlf rest of Some e \<Rightarrow> take e rest | None \<Rightarrow> rest)
           in if \<not> is_sip_start_line line then Garbage
              else if max_bytes < len then
                Oversized len (case find_sub (crlf @ crlf) rest of Some e \<Rightarrow> prefix + e + 4 | None \<Rightarrow> length buffer)
              else if len \<le> length buffer then Complete len
              else NeedMore))"

subsection \<open>Keepalives\<close>

record crlf_pong_tracker =
  missed :: "(nat \<times> nat) list"
  pong_seen :: "nat list"

definition tracker_new :: crlf_pong_tracker where
  "tracker_new = \<lparr>missed = [], pong_seen = []\<rparr>"

definition record_pong :: "nat \<Rightarrow> crlf_pong_tracker \<Rightarrow> crlf_pong_tracker" where
  "record_pong i t = \<lparr>missed = AList.delete i (missed t), pong_seen = List.insert i (pong_seen t)\<rparr>"

definition has_seen_pong :: "crlf_pong_tracker \<Rightarrow> nat \<Rightarrow> bool" where
  "has_seen_pong t i \<longleftrightarrow> i \<in> set (pong_seen t)"

definition record_ping :: "nat \<Rightarrow> crlf_pong_tracker \<Rightarrow> crlf_pong_tracker \<times> nat" where
  "record_ping i t =
     (let n = (case map_of (missed t) i of Some n \<Rightarrow> n | None \<Rightarrow> 0) + 1
      in (t\<lparr>missed := AList.update i n (missed t)\<rparr>, n))"

definition tracker_remove :: "nat \<Rightarrow> crlf_pong_tracker \<Rightarrow> crlf_pong_tracker" where
  "tracker_remove i t = \<lparr>missed = AList.delete i (missed t), pong_seen = removeAll i (pong_seen t)\<rparr>"

datatype keepalive_action = SendPing | CloseDead | StopTracking

text \<open>One round of the prober over one connection.\<close>

definition probe_connection :: "nat \<Rightarrow> nat \<Rightarrow> crlf_pong_tracker \<Rightarrow> crlf_pong_tracker \<times> keepalive_action" where
  "probe_connection threshold i t =
     (let (t1, n) = record_ping i t
      in if threshold < n
         then (tracker_remove i t1, if has_seen_pong t1 i then CloseDead else StopTracking)
         else (t1, SendPing))"

datatype stream_effect =
    PongSent
  | PongSeen
  | Deliver bytes
  | Reply513 bytes
  | CountMalformed

fun drain_leading_crlf_keepalives :: "bytes \<Rightarrow> stream_effect list \<times> bytes" where
  "drain_leading_crlf_keepalives (a # b # c # d # rest) =
     (if [a, b, c, d] = crlf @ crlf then apfst (Cons PongSent) (drain_leading_crlf_keepalives rest)
      else if [a, b] = crlf then apfst (Cons PongSeen) (drain_leading_crlf_keepalives (c # d # rest))
      else ([], a # b # c # d # rest))"
| "drain_leading_crlf_keepalives (a # b # rest) =
     (if [a, b] = crlf then apfst (Cons PongSeen) (drain_leading_crlf_keepalives rest) else ([], a # b # rest))"
| "drain_leading_crlf_keepalives buffer = ([], buffer)"

subsection \<open>The read loop\<close>

lemma drain_shorter: "length (snd (drain_leading_crlf_keepalives b)) \<le> length b"
  by (induction b rule: drain_leading_crlf_keepalives.induct) auto

lemma frame_Complete_bounds: "frame_sip_message b m = Complete len \<Longrightarrow> 0 < len \<and> len \<le> length b"
  by (auto simp: frame_sip_message_def extract_sip_message_length_def Let_def
      split: option.splits if_splits stream_verdict.splits)

text \<open>
  Everything complete in the buffer: the effects, what stays in the buffer, and whether the
  connection is still open.
\<close>

definition refuse_oversized :: "bytes \<Rightarrow> stream_effect list" where
  "refuse_oversized header_block =
     (case parse_sip_headers_only header_block of
        Inl _ \<Rightarrow> []
      | Inr request \<Rightarrow>
          if is_request request
          then [Reply513 (to_bytes (build_response_skeleton request 513 ''Message Too Large''))] else [])
     @ [CountMalformed]"

function extract_buffered :: "nat \<Rightarrow> bytes \<Rightarrow> stream_effect list \<times> bytes \<times> bool" where
  "extract_buffered max_bytes buffer =
     (let (keepalives, acc) = drain_leading_crlf_keepalives buffer
      in if acc = [] then (keepalives, [], True)
         else
           (case frame_sip_message acc max_bytes of
              Complete len \<Rightarrow>
                (let (effects, rest, alive) = extract_buffered max_bytes (drop len acc)
                 in (keepalives @ Deliver (take len acc) # effects, rest, alive))
            | NeedMore \<Rightarrow> (keepalives, acc, True)
            | Oversized _ header_len \<Rightarrow> (keepalives @ refuse_oversized (take header_len acc), acc, False)
            | Garbage \<Rightarrow> (keepalives @ [CountMalformed], acc, False)))"
  by pat_completeness auto
termination
proof (relation "measure (\<lambda>(m, buffer). length buffer)", goal_cases)
  case (2 m buffer x keepalives acc len)
  have "length acc \<le> length buffer" using drain_shorter [of buffer] 2(1,2) by (metis snd_conv)
  then show ?case using frame_Complete_bounds [OF 2(4)] by auto
qed simp

declare extract_buffered.simps [simp del]

text \<open>What a read returns: octets, or one of the ways a connection ends.\<close>

datatype read_result = Data bytes | Eof | ReadError | TimedOut

fun read_loop :: "nat \<Rightarrow> bytes \<Rightarrow> read_result list \<Rightarrow> stream_effect list \<times> bytes \<times> bool" where
  "read_loop max_bytes acc reads =
     (let (effects, rest, alive) = extract_buffered max_bytes acc
      in if \<not> alive then (effects, rest, False)
         else case reads of
           Data chunk # reads' \<Rightarrow>
             (let (effects', rest', alive') = read_loop max_bytes (rest @ chunk) reads'
              in (effects @ effects', rest', alive'))
         | [] \<Rightarrow> (effects, rest, True)
         | _ # _ \<Rightarrow> (effects, rest, False))"

declare read_loop.simps [simp del]

subsection \<open>Which protocol\<close>

datatype stream_protocol = SipStream | WebSocketStream

datatype sniff = SniffMore | Decided stream_protocol | SniffGarbage | ProxyHeaderNotEnabled

definition MAX_SNIFF_BYTES :: nat where
  "MAX_SNIFF_BYTES = 4096"

definition V1_PREFIX :: bytes where
  "V1_PREFIX = ''PROXY ''"

definition V2_SIGNATURE :: bytes where
  "V2_SIGNATURE = [CR, LF, CR, LF, CHR 0x00, CR, LF, CHR 0x51, CHR 0x55, CHR 0x49, CHR 0x54, LF]"

definition sniff_first_line :: "bytes \<Rightarrow> sniff" where
  "sniff_first_line buffer =
     (if starts_with V1_PREFIX buffer \<or> starts_with V2_SIGNATURE buffer then ProxyHeaderNotEnabled
      else if list_ex control_byte (take 512 buffer) then SniffGarbage
      else
        (let rest = dropWhile (\<lambda>c. c = CR \<or> c = LF) buffer
         in case find_sub crlf rest of
              None \<Rightarrow> if MAX_SNIFF_BYTES < length buffer then SniffGarbage else SniffMore
            | Some line_end \<Rightarrow>
                (let line = take line_end rest
                 in if starts_with ''SIP/2.0 '' line \<or> ends_with '' SIP/2.0'' line then Decided SipStream
                    else if ends_with '' HTTP/1.1'' line \<or> ends_with '' HTTP/1.0'' line then Decided WebSocketStream
                    else SniffGarbage)))"

datatype sniff_error = InvalidData | ConnectionRefused | UnexpectedEnd | SniffReadError

text \<open>The sniffing reads, with what is left for the caller to read when they are done.\<close>

fun sniff_stream :: "bytes \<Rightarrow> read_result list \<Rightarrow> (sniff_error + stream_protocol \<times> bytes) \<times> read_result list" where
  "sniff_stream buffer reads =
     (case sniff_first_line buffer of
        Decided p \<Rightarrow> (Inr (p, buffer), reads)
      | SniffGarbage \<Rightarrow> (Inl InvalidData, reads)
      | ProxyHeaderNotEnabled \<Rightarrow> (Inl ConnectionRefused, reads)
      | SniffMore \<Rightarrow>
          (case reads of
             [] \<Rightarrow> (Inr (SipStream, buffer), [])
           | Eof # reads' \<Rightarrow> (Inl UnexpectedEnd, reads')
           | Data chunk # reads' \<Rightarrow> sniff_stream (buffer @ chunk) reads'
           | ReadError # reads' \<Rightarrow> (Inl SniffReadError, reads')
           | TimedOut # reads' \<Rightarrow> (Inr (SipStream, buffer), reads')))"

declare sniff_stream.simps [simp del]

datatype sip_only_verdict = Serve bytes | Abuse string | Gone | ProxyNotEnabled

definition classify_sip_only :: "read_result list \<Rightarrow> sip_only_verdict \<times> read_result list" where
  "classify_sip_only reads =
     (let (res, left) = sniff_stream [] reads
      in (case res of
            Inr (SipStream, prefix) \<Rightarrow> Serve prefix
          | Inr (WebSocketStream, _) \<Rightarrow> Abuse ''an HTTP request line''
          | Inl InvalidData \<Rightarrow> Abuse ''non-SIP bytes''
          | Inl ConnectionRefused \<Rightarrow> ProxyNotEnabled
          | Inl _ \<Rightarrow> Gone, left))"

text \<open>A connection on a listener for SIP alone, from its first read on.\<close>

definition serve_connection :: "nat \<Rightarrow> read_result list \<Rightarrow> stream_effect list \<times> bytes \<times> bool" where
  "serve_connection max_bytes reads =
     (case classify_sip_only reads of
        (Serve seed, left) \<Rightarrow> read_loop max_bytes seed left
      | (Abuse _, _) \<Rightarrow> ([CountMalformed], [], False)
      | _ \<Rightarrow> ([], [], False))"

end
