(* ===== verification/Stream_Framing_Facts.thy ===== *)
theory Stream_Framing_Facts
  imports Stream_Framing
begin

text \<open>
  Framing does not depend on how a stream is cut into reads, except in the places shown at the end.
\<close>

subsection \<open>Stability of what has been found\<close>

lemma starts_with_append: "starts_with p s \<Longrightarrow> starts_with p (s @ t)"
  by (auto simp: starts_with_iff)

lemma starts_with_take: "starts_with p s \<longleftrightarrow> take (length p) s = p"
  by (auto simp: starts_with_iff) (metis append_take_drop_id)

lemma starts_with_prefix: "starts_with p (s @ t) \<Longrightarrow> length p \<le> length s \<Longrightarrow> starts_with p s"
  by (simp add: starts_with_take)

lemma starts_with_short: "starts_with p s \<Longrightarrow> length p \<le> length s"
  by (auto simp: starts_with_iff)

lemma find_sub_append: "find_sub pat p = Some i \<Longrightarrow> find_sub pat (p @ q) = Some i"
proof (induction pat p arbitrary: i rule: find_sub.induct)
  case (1 pat)
  then show ?case by (cases q) (auto simp: starts_with_def split: if_splits)
next
  case (2 pat c s)
  show ?case
  proof (cases "starts_with pat (c # s)")
    case True
    then show ?thesis using 2 starts_with_append [of pat "c # s" q] by simp
  next
    case False
    then obtain j where j: "find_sub pat s = Some j" "i = Suc j" using 2 by auto
    have "length pat \<le> length s" using find_sub_Some [OF j(1)] by simp
    then have "\<not> starts_with pat (c # s @ q)" using False starts_with_prefix [of pat "c # s" q] by auto
    then show ?thesis using 2(1) [OF False j(1)] j(2) by simp
  qed
qed

lemma find_sub_prefix: "find_sub pat (p @ q) = Some i \<Longrightarrow> i + length pat \<le> length p \<Longrightarrow> find_sub pat p = Some i"
proof (induction p arbitrary: i)
  case Nil
  then show ?case by auto
next
  case (Cons c p)
  show ?case
  proof (cases "starts_with pat (c # p @ q)")
    case True
    then have "i = 0" using Cons.prems by simp
    then show ?thesis using True Cons.prems starts_with_prefix [of pat "c # p" q] by simp
  next
    case False
    then obtain j where "find_sub pat (p @ q) = Some j" "i = Suc j" using Cons.prems by auto
    moreover have "\<not> starts_with pat (c # p)" using False starts_with_append [of pat "c # p" q] by auto
    ultimately show ?thesis using Cons by simp
  qed
qed

lemma find_sub_shorter_pattern: "find_sub (crlf @ crlf) s = Some i \<Longrightarrow> \<exists>j \<le> i. find_sub crlf s = Some j"
proof (induction s arbitrary: i)
  case Nil
  then show ?case by (simp add: crlf_def)
next
  case (Cons c s)
  show ?case
  proof (cases "starts_with crlf (c # s)")
    case False
    then have "\<not> starts_with (crlf @ crlf) (c # s)" by (auto simp: starts_with_iff)
    then obtain k where "find_sub (crlf @ crlf) s = Some k" "i = Suc k" using Cons.prems by auto
    then show ?thesis using Cons.IH [of k] False by auto
  qed simp
qed

subsection \<open>Skipping keepalives\<close>

definition skip_crlf :: "bytes \<Rightarrow> bytes" where
  "skip_crlf b = drop (leading_crlf_len b) b"

definition settled :: "bytes \<Rightarrow> bool" where
  "settled b \<longleftrightarrow> \<not> starts_with crlf b"

definition significant :: "stream_effect list \<Rightarrow> stream_effect list" where
  "significant es = filter (\<lambda>e. e \<noteq> PongSent \<and> e \<noteq> PongSeen) es"

lemma significant_simps [simp]:
  "significant [] = []" "significant (PongSent # es) = significant es" "significant (PongSeen # es) = significant es"
  "significant (Deliver x # es) = Deliver x # significant es" "significant (es @ fs) = significant es @ significant fs"
  "significant (Reply513 x # es) = Reply513 x # significant es"
  "significant (CountMalformed # es) = CountMalformed # significant es"
  by (simp_all add: significant_def)

lemma drain_skips: "snd (drain_leading_crlf_keepalives b) = skip_crlf b"
  by (induction b rule: drain_leading_crlf_keepalives.induct) (auto simp: skip_crlf_def crlf_def)

lemma drain_insignificant: "significant (fst (drain_leading_crlf_keepalives b)) = []"
  by (induction b rule: drain_leading_crlf_keepalives.induct) auto

lemma settled_leading: "settled b \<longleftrightarrow> leading_crlf_len b = 0"
  by (cases b rule: leading_crlf_len.cases) (auto simp: settled_def starts_with_iff crlf_def)

lemma skip_settled [simp]: "settled b \<Longrightarrow> skip_crlf b = b"
  by (simp add: skip_crlf_def settled_leading)

lemma settled_skip [simp]: "settled (skip_crlf b)"
  by (induction b rule: leading_crlf_len.induct) (auto simp: skip_crlf_def settled_leading)

lemma skip_crlf_Cons2 [simp]: "skip_crlf (CR # LF # b) = skip_crlf b"
  by (simp add: skip_crlf_def)

lemma skip_append: "skip_crlf (b @ c) = skip_crlf (skip_crlf b @ c)"
proof (induction b rule: leading_crlf_len.induct)
  case (1 x y rest)
  show ?case
  proof (cases "x = CR \<and> y = LF")
    case False
    then have "settled (x # y # rest)" by (auto simp: settled_leading)
    then show ?thesis by simp
  qed (use 1 in auto)
qed (simp_all add: skip_crlf_def)

lemma settled_append: "settled a \<Longrightarrow> 2 \<le> length a \<Longrightarrow> settled (a @ b)"
  using starts_with_prefix [of crlf a b] by (auto simp: settled_def crlf_def)

lemma settled_prefix: "settled (a @ b) \<Longrightarrow> settled a"
  using starts_with_append by (auto simp: settled_def)

subsection \<open>The frames of a whole stream\<close>

text \<open>The reference: one pass over everything the peer sent, keepalives skipped.\<close>

function extract_frames :: "nat \<Rightarrow> bytes \<Rightarrow> stream_effect list \<times> bytes \<times> bool" where
  "extract_frames max_bytes stream =
     (let acc = skip_crlf stream
      in if acc = [] then ([], [], True)
         else
           (case frame_sip_message acc max_bytes of
              Complete len \<Rightarrow>
                (let (effects, rest, alive) = extract_frames max_bytes (drop len acc)
                 in (Deliver (take len acc) # effects, rest, alive))
            | NeedMore \<Rightarrow> ([], acc, True)
            | Oversized _ header_len \<Rightarrow> (refuse_oversized (take header_len acc), acc, False)
            | Garbage \<Rightarrow> ([CountMalformed], acc, False)))"
  by pat_completeness auto
termination
proof (relation "measure (\<lambda>(m, stream). length stream)", goal_cases)
  case (2 m stream acc len)
  have "length acc \<le> length stream" using 2(1) by (simp add: skip_crlf_def)
  then show ?case using frame_Complete_bounds [OF 2(3)] by auto
qed simp

declare extract_frames.simps [simp del]

lemma extract_frames_unfold:
  "skip_crlf s = [] \<Longrightarrow> extract_frames m s = ([], [], True)"
  "skip_crlf s \<noteq> [] \<Longrightarrow> frame_sip_message (skip_crlf s) m = NeedMore \<Longrightarrow> extract_frames m s = ([], skip_crlf s, True)"
  "skip_crlf s \<noteq> [] \<Longrightarrow> frame_sip_message (skip_crlf s) m = Garbage \<Longrightarrow>
     extract_frames m s = ([CountMalformed], skip_crlf s, False)"
  "skip_crlf s \<noteq> [] \<Longrightarrow> frame_sip_message (skip_crlf s) m = Oversized d h \<Longrightarrow>
     extract_frames m s = (refuse_oversized (take h (skip_crlf s)), skip_crlf s, False)"
  "skip_crlf s \<noteq> [] \<Longrightarrow> frame_sip_message (skip_crlf s) m = Complete len \<Longrightarrow>
     extract_frames m s = apfst (Cons (Deliver (take len (skip_crlf s)))) (extract_frames m (drop len (skip_crlf s)))"
  by (subst extract_frames.simps; simp add: Let_def case_prod_beta apfst_def map_prod_def)+

lemma significant_refuse [simp]: "significant (refuse_oversized h) = refuse_oversized h"
  by (auto simp: refuse_oversized_def split: sum.splits)

lemma extract_buffered_frames: "apfst significant (extract_buffered m b) = extract_frames m b"
proof (induction m b rule: extract_frames.induct)
  case (1 m s)
  obtain k acc where d: "drain_leading_crlf_keepalives s = (k, acc)" by force
  have acc: "acc = skip_crlf s" and k: "significant k = []"
    using drain_skips [of s] drain_insignificant [of s] d by simp_all
  show ?case
  proof (cases "acc = []")
    case True
    then show ?thesis using acc k d by (subst extract_buffered.simps) (simp add: extract_frames_unfold)
  next
    case ne: False
    show ?thesis
    proof (cases "frame_sip_message acc m")
      case (Complete len)
      then have "apfst significant (extract_buffered m (drop len acc)) = extract_frames m (drop len acc)"
        using 1 [OF acc ne Complete] by simp
      then show ?thesis using Complete ne acc k d
        by (subst extract_buffered.simps) (auto simp: extract_frames_unfold(5) case_prod_beta prod_eq_iff)
    qed (use ne acc k d in \<open>subst extract_buffered.simps, simp add: extract_frames_unfold\<close>)+
  qed
qed

subsection \<open>Reading on\<close>

lemma extract_length_append:
  assumes "settled a" and "extract_sip_message_length a = Some len"
  shows "extract_sip_message_length (a @ b) = Some len" and "4 \<le> length a"
proof -
  obtain e where e: "find_sub (crlf @ crlf) a = Some e"
    using assms by (auto simp: extract_sip_message_length_def Let_def settled_leading split: option.splits)
  have l: "e + 4 \<le> length a" using find_sub_Some [OF e] by (simp add: crlf_def)
  then have "settled (a @ b)" using settled_append [OF assms(1)] by simp
  then show "extract_sip_message_length (a @ b) = Some len"
    using assms e find_sub_append [OF e, of b] l
    by (simp add: extract_sip_message_length_def Let_def settled_leading)
  show "4 \<le> length a" using l by simp
qed

lemma frame_first_line_append:
  assumes "settled a" and "extract_sip_message_length a = Some len"
  obtains e where "find_sub crlf a = Some e" and "\<And>b. find_sub crlf (a @ b) = Some e" and "e \<le> length a"
proof -
  obtain e where "find_sub (crlf @ crlf) a = Some e"
    using assms by (auto simp: extract_sip_message_length_def Let_def settled_leading split: option.splits)
  then obtain j where j: "find_sub crlf a = Some j" using find_sub_shorter_pattern by blast
  then show thesis using that [OF j] find_sub_append [OF j] find_sub_Some [OF j] by auto
qed

lemma frame_Complete_extract:
  assumes "frame_sip_message a m = Complete len"
  shows "extract_sip_message_length a = Some len"
  using assms by (auto simp: frame_sip_message_def Let_def split: option.splits stream_verdict.splits if_splits)

lemma frame_Complete_append:
  assumes "settled a" and "frame_sip_message a m = Complete len"
  shows "frame_sip_message (a @ b) m = Complete len" and "settled (a @ b)"
proof -
  note ex = frame_Complete_extract [OF assms(2)]
  note ap = extract_length_append [OF assms(1) ex]
  show s: "settled (a @ b)" using settled_append [OF assms(1)] ap(2) by simp
  obtain e where e: "find_sub crlf a = Some e" "find_sub crlf (a @ b) = Some e" "e \<le> length a"
    using frame_first_line_append [OF assms(1) ex] by metis
  show "frame_sip_message (a @ b) m = Complete len"
    using assms(2) ap(1) ex e s assms(1)
    by (auto simp: frame_sip_message_def Let_def settled_leading split: if_splits)
qed

lemma apfst_ident [simp]: "apfst (\<lambda>a. a) p = p"
  by (cases p) simp

lemma extract_frames_skip: "extract_frames m (skip_crlf s) = extract_frames m s"
  by (subst (1 2) extract_frames.simps) simp

lemma extract_frames_append:
  "extract_frames m b = (es, r, True) \<Longrightarrow> extract_frames m (b @ c) = apfst (append es) (extract_frames m (r @ c))"
proof (induction m b arbitrary: es r rule: extract_frames.induct)
  case (1 m b)
  define acc where "acc = skip_crlf b"
  have more: "extract_frames m (b @ c) = extract_frames m (acc @ c)"
    using extract_frames_skip [of m "b @ c"] extract_frames_skip [of m "acc @ c"] skip_append [of b c] by (simp add: acc_def)
  show ?case
  proof (cases "acc = []")
    case True
    then show ?thesis using 1(2) more by (auto simp: acc_def extract_frames_unfold prod_eq_iff)
  next
    case ne: False
    show ?thesis
    proof (cases "frame_sip_message acc m")
      case (Complete len)
      have st: "settled acc" by (simp add: acc_def)
      note fa = frame_Complete_append [OF st Complete, of c]
      have len: "len \<le> length acc" using frame_Complete_bounds [OF Complete] by simp
      obtain es1 where es1: "extract_frames m (drop len acc) = (es1, r, True)" "es = Deliver (take len acc) # es1"
        using 1(2) extract_frames_unfold(5) [of b m len] ne Complete
        by (cases "extract_frames m (drop len acc)") (auto simp: acc_def)
      have "extract_frames m (acc @ c) = apfst (Cons (Deliver (take len acc))) (extract_frames m (drop len acc @ c))"
        using extract_frames_unfold(5) [of "acc @ c" m len] fa len ne by simp
      then show ?thesis
        using 1(1) [OF acc_def ne Complete es1(1)] more es1(2) by (simp add: apfst_def map_prod_def case_prod_beta)
    qed (use 1(2) ne more in \<open>simp_all add: acc_def extract_frames_unfold\<close>)
  qed
qed

lemma read_loop_frames:
  "read_loop m acc (map Data cs) = (es, r, True) \<Longrightarrow> extract_frames m (acc @ concat cs) = (significant es, r, True)"
proof (induction cs arbitrary: acc es)
  case Nil
  then have "extract_buffered m acc = (es, r, True)"
    by (subst (asm) read_loop.simps) (auto simp: case_prod_beta prod_eq_iff split: if_splits)
  then show ?case using extract_buffered_frames [of m acc] by simp
next
  case (Cons c cs)
  obtain es1 r1 es2 where 1: "extract_buffered m acc = (es1, r1, True)"
    and 2: "read_loop m (r1 @ c) (map Data cs) = (es2, r, True)" and es: "es = es1 @ es2"
    using Cons.prems by (subst (asm) read_loop.simps) (auto simp: case_prod_beta prod_eq_iff split: if_splits)
  have "extract_frames m acc = (significant es1, r1, True)" using extract_buffered_frames [of m acc] 1 by simp
  from extract_frames_append [OF this, of "c @ concat cs"] show ?case
    using Cons.IH [OF 2] es by simp
qed

subsection \<open>Streams that are safe to cut anywhere\<close>

definition tame :: "bytes \<Rightarrow> bool" where
  "tame x =
     (case find_sub (crlf @ crlf) x of
        None \<Rightarrow> True
      | Some e \<Rightarrow> e + 4 \<le> MAX_INCOMPLETE_HEADER_BYTES \<and> \<not> list_ex control_byte (take 512 (take (e + 4) x)))"

definition tame_stream :: "nat \<Rightarrow> bytes \<Rightarrow> bool" where
  "tame_stream m s =
     (case extract_frames m s of (es, r, alive) \<Rightarrow> alive \<and> list_all (\<lambda>e. case e of Deliver x \<Rightarrow> tame x | _ \<Rightarrow> True) es \<and> tame r)"

lemma classify_prefix:
  assumes "classify_incomplete_stream (p @ q) = MaybeSip"
  shows "classify_incomplete_stream p = MaybeSip"
proof -
  have "length p \<le> MAX_INCOMPLETE_HEADER_BYTES" "\<not> list_ex control_byte (take 512 p)"
    using assms by (auto simp: classify_incomplete_stream_def split: if_splits)
  moreover have "is_sip_start_line (take e p)" if "find_sub crlf p = Some e" for e
    using assms find_sub_append [OF that, of q] find_sub_Some [OF that]
    by (auto simp: classify_incomplete_stream_def split: if_splits)
  ultimately show ?thesis by (auto simp: classify_incomplete_stream_def split: option.splits)
qed

lemma extract_length_None: "settled a \<Longrightarrow> extract_sip_message_length a = None \<longleftrightarrow> find_sub (crlf @ crlf) a = None"
  by (simp add: extract_sip_message_length_def Let_def settled_leading split: option.splits)

lemma frame_header_incomplete:
  assumes "settled (p @ q)" and "find_sub (crlf @ crlf) p = None" and "find_sub (crlf @ crlf) (p @ q) = Some e"
    and "frame_sip_message (p @ q) m \<noteq> Garbage" and "tame (p @ q)"
  shows "frame_sip_message p m = NeedMore"
proof -
  have short: "length p < e + 4"
    using find_sub_prefix [OF assms(3)] assms(2) by (fastforce simp: crlf_def not_less)
  have tame: "e + 4 \<le> MAX_INCOMPLETE_HEADER_BYTES" "\<not> list_ex control_byte (take 512 (take (e + 4) (p @ q)))"
    using assms(3,5) by (simp_all add: tame_def)
  have "set (take 512 p) \<subseteq> set (take 512 (take (e + 4) (p @ q)))"
    using short by (simp add: min_def take_Cons') 
  then have ctl: "\<not> list_ex control_byte (take 512 p)" using tame(2) unfolding list_ex_iff by blast
  obtain len where len: "extract_sip_message_length (p @ q) = Some len"
    using assms(1,3) extract_length_None [of "p @ q"] by auto
  have line: "is_sip_start_line (take j p)" if "find_sub crlf p = Some j" for j
    using assms(1,4) len find_sub_append [OF that, of q] find_sub_Some [OF that]
    by (auto simp: frame_sip_message_def Let_def settled_leading split: if_splits)
  have "classify_incomplete_stream p = MaybeSip"
    using short tame(1) ctl line by (auto simp: classify_incomplete_stream_def split: option.splits)
  moreover have "extract_sip_message_length p = None"
    using assms(2) extract_length_None [OF settled_prefix [OF assms(1)]] by simp
  ultimately show ?thesis by (simp add: frame_sip_message_def)
qed

lemma frame_header_complete:
  assumes "settled p" and "extract_sip_message_length p = Some len"
    and "frame_sip_message (p @ q) m = NeedMore \<or> frame_sip_message (p @ q) m = Complete n"
  shows "frame_sip_message p m = NeedMore \<or> frame_sip_message p m = Complete len"
proof -
  note ap = extract_length_append [OF assms(1,2)]
  have s: "settled (p @ q)" using settled_append [OF assms(1)] ap(2) by simp
  obtain e where e: "find_sub crlf p = Some e" "find_sub crlf (p @ q) = Some e" "e \<le> length p"
    using frame_first_line_append [OF assms(1,2)] by metis
  show ?thesis using assms ap(1) s e
    by (auto simp: frame_sip_message_def Let_def settled_leading split: if_splits)
qed

lemma frame_prefix:
  assumes "settled (p @ q)" and "tame (p @ q)"
    and "frame_sip_message (p @ q) m = NeedMore \<or> frame_sip_message (p @ q) m = Complete n"
  shows "frame_sip_message p m = NeedMore \<or> (\<exists>len. frame_sip_message p m = Complete len)"
proof (cases "extract_sip_message_length p")
  case (Some len)
  then show ?thesis using frame_header_complete [OF settled_prefix [OF assms(1)] Some assms(3)] by blast
next
  case None
  then have f: "find_sub (crlf @ crlf) p = None"
    using extract_length_None [OF settled_prefix [OF assms(1)]] by simp
  show ?thesis
  proof (cases "find_sub (crlf @ crlf) (p @ q)")
    case None
    then have "extract_sip_message_length (p @ q) = None" using extract_length_None [OF assms(1)] by simp
    then have "classify_incomplete_stream (p @ q) = MaybeSip"
      using assms(3) by (auto simp: frame_sip_message_def split: stream_verdict.splits)
    then show ?thesis
      using classify_prefix \<open>extract_sip_message_length p = None\<close> by (simp add: frame_sip_message_def)
  next
    case (Some e)
    then show ?thesis using frame_header_incomplete [OF assms(1) f Some] assms(2,3) by auto
  qed
qed

lemma tame_take: "tame (take len a) \<Longrightarrow> find_sub (crlf @ crlf) a = Some e \<Longrightarrow> e + 4 \<le> len \<Longrightarrow> len \<le> length a \<Longrightarrow> tame a"
  using find_sub_prefix [of "crlf @ crlf" "take len a" "drop len a" e]
  by (auto simp: tame_def crlf_def min_def)

lemma frame_Complete_header:
  assumes "settled a" and "frame_sip_message a m = Complete len" and "len < u64_max"
  obtains e where "find_sub (crlf @ crlf) a = Some e" and "e + 4 \<le> len"
proof -
  have "extract_sip_message_length a = Some len" by (rule frame_Complete_extract [OF assms(2)])
  then show thesis using that assms(1,3)
    by (auto simp: extract_sip_message_length_def Let_def settled_leading min_def split: option.splits if_splits)
qed

lemma tame_prefix_open:
  "tame_stream m (p @ q) \<Longrightarrow> length (p @ q) < u64_max \<Longrightarrow> snd (snd (extract_frames m p))"
proof (induction m p rule: extract_frames.induct)
  case (1 m p)
  define acc where "acc = skip_crlf p"
  have same: "extract_frames m (p @ q) = extract_frames m (acc @ q)"
    using extract_frames_skip [of m "p @ q"] extract_frames_skip [of m "acc @ q"] skip_append [of p q] by (simp add: acc_def)
  have short: "length (acc @ q) < u64_max" using 1(3) by (simp add: acc_def skip_crlf_def)
  show ?case
  proof (cases "acc = []")
    case True
    then show ?thesis by (simp add: acc_def extract_frames_unfold)
  next
    case ne: False
    have st: "settled acc" by (simp add: acc_def)
    show ?thesis
    proof (cases "settled (acc @ q)")
      case False
      then have "length acc = 1" using settled_append [OF st, of q] ne by (cases acc) (auto simp: not_le Suc_le_eq less_Suc_eq)
      then obtain c where "acc = [c]" by (auto simp: length_Suc_conv)
      moreover then have "c = CR" using False by (auto simp: settled_def starts_with_iff crlf_def)
      ultimately have "frame_sip_message acc m = NeedMore" by (simp only:) code_simp
      then show ?thesis using ne by (simp add: acc_def extract_frames_unfold)
    next
      case sq: True
      have ext: "skip_crlf (acc @ q) = acc @ q" using sq by simp
      have alive: "snd (snd (extract_frames m (acc @ q)))"
        using 1(2) same by (auto simp: tame_stream_def split: prod.splits)
      then have fr: "frame_sip_message (acc @ q) m = NeedMore \<or> (\<exists>n. frame_sip_message (acc @ q) m = Complete n)"
        using ne ext extract_frames_unfold(3,4) [of "acc @ q" m]
        by (cases "frame_sip_message (acc @ q) m") auto
      have tm: "tame (acc @ q)"
        using fr
      proof (elim disjE exE)
        assume "frame_sip_message (acc @ q) m = NeedMore"
        then show ?thesis using extract_frames_unfold(2) [of "acc @ q" m] ne ext 1(2) same by (simp add: tame_stream_def)
      next
        fix n assume n: "frame_sip_message (acc @ q) m = Complete n"
        have b: "n \<le> length (acc @ q)" using frame_Complete_bounds [OF n] by simp
        obtain e where e: "find_sub (crlf @ crlf) (acc @ q) = Some e" "e + 4 \<le> n"
          using frame_Complete_header [OF sq n] b short by auto
        have "tame (take n (acc @ q))"
          using extract_frames_unfold(5) [of "acc @ q" m n] ne ext n 1(2) same
          by (cases "extract_frames m (drop n (acc @ q))") (simp add: tame_stream_def)
        then show ?thesis using tame_take e b by blast
      qed
      have fp: "frame_sip_message acc m = NeedMore \<or> (\<exists>len. frame_sip_message acc m = Complete len)"
        using fr frame_prefix [OF sq tm] by blast
      show ?thesis
      proof (cases "frame_sip_message acc m")
        case (Complete len)
        note fa = frame_Complete_append [OF st Complete, of q]
        have len: "len \<le> length acc" using frame_Complete_bounds [OF Complete] by simp
        have "extract_frames m (acc @ q) = apfst (Cons (Deliver (take len acc))) (extract_frames m (drop len acc @ q))"
          using extract_frames_unfold(5) [of "acc @ q" m len] fa(1) ext ne len by simp
        then have "tame_stream m (drop len acc @ q)"
          using 1(2) same by (cases "extract_frames m (drop len acc @ q)") (simp add: tame_stream_def)
        then show ?thesis
          using 1(1) [OF acc_def ne Complete] short extract_frames_unfold(5) [of p m len] ne Complete
          by (simp add: acc_def)
      qed (use fp ne in \<open>simp_all add: acc_def extract_frames_unfold\<close>)
    qed
  qed
qed

lemma tame_rest:
  assumes "tame_stream m (p @ q)" and "extract_frames m p = (es, r, True)"
  shows "tame_stream m (r @ q)"
  using assms(1) extract_frames_append [OF assms(2), of q]
  by (cases "extract_frames m (r @ q)") (auto simp: tame_stream_def)

lemma rest_shorter: "length (fst (snd (extract_frames m p))) \<le> length p"
proof (induction m p rule: extract_frames.induct)
  case (1 m p)
  have l: "length (skip_crlf p) \<le> length p" by (simp add: skip_crlf_def)
  show ?case
  proof (cases "skip_crlf p = []")
    case ne: False
    show ?thesis
    proof (cases "frame_sip_message (skip_crlf p) m")
      case (Complete len)
      then show ?thesis using 1 [OF refl ne Complete] l ne by (simp add: extract_frames_unfold(5))
    qed (use l ne in \<open>simp_all add: extract_frames_unfold\<close>)
  qed (simp add: extract_frames_unfold)
qed

lemma tame_stays_open:
  "tame_stream m (acc @ concat cs) \<Longrightarrow> length (acc @ concat cs) < u64_max \<Longrightarrow> snd (snd (read_loop m acc (map Data cs)))"
proof (induction cs arbitrary: acc)
  case Nil
  then have "snd (snd (extract_frames m acc))" using tame_prefix_open [of m acc "[]"] by simp
  then have "snd (snd (extract_buffered m acc))" by (simp flip: extract_buffered_frames)
  then show ?case by (subst read_loop.simps) (simp add: case_prod_beta)
next
  case (Cons c cs)
  have "snd (snd (extract_frames m acc))" using tame_prefix_open [of m acc "concat (c # cs)"] Cons.prems by simp
  then obtain es r where b: "extract_buffered m acc = (es, r, True)"
    by (cases "extract_buffered m acc") (auto simp flip: extract_buffered_frames)
  then have f: "extract_frames m acc = (significant es, r, True)" using extract_buffered_frames [of m acc] by simp
  then have "tame_stream m (r @ c @ concat cs)" using tame_rest [of m acc "concat (c # cs)"] Cons.prems(1) by simp
  moreover have "length r \<le> length acc" using rest_shorter [of m acc] f by simp
  ultimately have "snd (snd (read_loop m (r @ c) (map Data cs)))" using Cons.IH [of "r @ c"] Cons.prems(2) by simp
  then show ?case using b by (subst read_loop.simps) (simp add: case_prod_beta)
qed

lemma read_loop_tame:
  assumes "tame_stream m (acc @ concat cs)" and "length (acc @ concat cs) < u64_max"
  shows "apfst significant (read_loop m acc (map Data cs)) = extract_frames m (acc @ concat cs)"
  using tame_stays_open [OF assms] read_loop_frames [of m acc cs]
  by (cases "read_loop m acc (map Data cs)") auto

subsection \<open>What the sniffing reads is replayed\<close>

lemma sniff_replays:
  "sniff_stream buffer (map Data cs) = (Inr (p, seed), left) \<Longrightarrow>
     \<exists>cs'. left = map Data cs' \<and> seed @ concat cs' = buffer @ concat cs"
proof (induction cs arbitrary: buffer)
  case Nil
  then have "left = map Data [] \<and> seed @ concat [] = buffer @ concat []"
    by (subst (asm) sniff_stream.simps) (auto split: sniff.splits)
  then show ?case by blast
next
  case (Cons c cs)
  show ?case
  proof (cases "sniff_first_line buffer = SniffMore")
    case True
    then have "sniff_stream (buffer @ c) (map Data cs) = (Inr (p, seed), left)"
      using Cons.prems by (subst (asm) sniff_stream.simps) simp
    from Cons.IH [OF this] show ?thesis by simp
  next
    case False
    then have "left = map Data (c # cs) \<and> seed @ concat (c # cs) = buffer @ concat (c # cs)"
      using Cons.prems by (subst (asm) sniff_stream.simps) (auto split: sniff.splits)
    then show ?thesis by blast
  qed
qed

lemma serve_replays:
  assumes "classify_sip_only (map Data cs) = (Serve seed, left)"
  obtains cs' where "serve_connection m (map Data cs) = read_loop m seed (map Data cs')" and "seed @ concat cs' = concat cs"
proof -
  obtain res where r: "sniff_stream [] (map Data cs) = (res, left)" and "res = Inr (SipStream, seed)"
    using assms by (auto simp: classify_sip_only_def split: prod.splits sum.splits stream_protocol.splits sniff_error.splits)
  then have "sniff_stream [] (map Data cs) = (Inr (SipStream, seed), left)" by simp
  from sniff_replays [OF this] obtain cs' where "left = map Data cs'" "seed @ concat cs' = concat cs" by auto
  then show thesis using that assms by (simp add: serve_connection_def)
qed

subsection \<open>A pipeline of messages\<close>

text \<open>One message as a sender writes it: no leading line break, framed as exactly itself, its header tame.\<close>

definition whole_frame :: "nat \<Rightarrow> bytes \<Rightarrow> bool" where
  "whole_frame m w \<longleftrightarrow> settled w \<and> frame_sip_message w m = Complete (length w) \<and> tame w"

text \<open>Messages, each after some number of line breaks.\<close>

definition pipeline :: "(nat \<times> bytes) list \<Rightarrow> bytes" where
  "pipeline ws = concat (map (\<lambda>(k, w). concat (replicate k crlf) @ w) ws)"

lemma skip_replicate [simp]: "skip_crlf (concat (replicate k crlf) @ s) = skip_crlf s"
  by (induction k) (simp_all add: crlf_def)

lemma extract_frames_pipeline:
  "\<forall>(k, w) \<in> set ws. whole_frame m w \<Longrightarrow> extract_frames m (pipeline ws) = (map (Deliver \<circ> snd) ws, [], True)"
proof (induction ws)
  case Nil
  then show ?case by (simp add: pipeline_def extract_frames_unfold skip_crlf_def)
next
  case (Cons kw ws)
  obtain k w where kw: "kw = (k, w)" by force
  have w: "whole_frame m w" using Cons.prems kw by auto
  then have c: "settled w" "frame_sip_message w m = Complete (length w)" by (simp_all add: whole_frame_def)
  have ne: "w \<noteq> []" using frame_Complete_bounds [OF c(2)] by auto
  define rest where "rest = pipeline ws"
  have p: "pipeline (kw # ws) = concat (replicate k crlf) @ w @ rest" by (simp add: pipeline_def kw rest_def)
  note fa = frame_Complete_append [OF c, of rest]
  have sk: "skip_crlf (pipeline (kw # ws)) = w @ rest" using fa(2) by (simp add: p)
  have IH: "extract_frames m rest = (map (Deliver \<circ> snd) ws, [], True)" using Cons by (simp add: rest_def)
  show ?case
    using extract_frames_unfold(5) [of "pipeline (kw # ws)" m "length w"] sk fa(1) ne IH kw by simp
qed

lemma tame_pipeline:
  assumes "\<forall>(k, w) \<in> set ws. whole_frame m w"
  shows "tame_stream m (pipeline ws)"
proof -
  have "list_all (\<lambda>e. case e of Deliver x \<Rightarrow> tame x | _ \<Rightarrow> True) (map (Deliver \<circ> snd) ws)"
    using assms by (auto simp: list_all_iff whole_frame_def)
  moreover have "tame []" by (simp add: tame_def crlf_def starts_with_def)
  ultimately show ?thesis using extract_frames_pipeline [OF assms] by (simp add: tame_stream_def)
qed

text \<open>
  C6.  Messages pipelined on one connection, with any number of line breaks between them, are handed on one by
  one, whole, in order and nothing else, however the network cuts the stream into reads; the connection stays
  open and its buffer ends empty.  The same holds from the first read of a connection that the protocol
  sniffing accepts as SIP: what it read to decide is replayed.
\<close>

theorem pipelined_messages_delivered:
  assumes "\<forall>(k, w) \<in> set ws. whole_frame m w"
    and "concat cs = pipeline ws"
    and "length (pipeline ws) < u64_max"
  shows "apfst significant (read_loop m [] (map Data cs)) = (map (Deliver \<circ> snd) ws, [], True) \<and>
    (\<forall>seed left. classify_sip_only (map Data cs) = (Serve seed, left) \<longrightarrow>
       apfst significant (serve_connection m (map Data cs)) = (map (Deliver \<circ> snd) ws, [], True))"
proof (intro conjI allI impI)
  note t = tame_pipeline [OF assms(1)] and f = extract_frames_pipeline [OF assms(1)]
  show "apfst significant (read_loop m [] (map Data cs)) = (map (Deliver \<circ> snd) ws, [], True)"
    using read_loop_tame [of m "[]" cs] t f assms(2,3) by simp
  fix seed left assume "classify_sip_only (map Data cs) = (Serve seed, left)"
  then obtain cs' where "serve_connection m (map Data cs) = read_loop m seed (map Data cs')" "seed @ concat cs' = concat cs"
    by (rule serve_replays)
  then show "apfst significant (serve_connection m (map Data cs)) = (map (Deliver \<circ> snd) ws, [], True)"
    using read_loop_tame [of m seed cs'] t f assms(2,3) by simp
qed

definition sample_frames :: "(nat \<times> bytes) list" where
  "sample_frames =
     [(2, ''OPTIONS sip:a SIP/2.0'' @ crlf @ ''l: 2'' @ crlf @ crlf @ ''hi''),
      (1, ''SIP/2.0 200 OK'' @ crlf @ ''Content-Length'' @ [SP, HT] @ '': 0'' @ crlf @ crlf)]"

definition sample_segments :: "bytes list" where
  "sample_segments = [take 3 (pipeline sample_frames), take 40 (drop 3 (pipeline sample_frames)), drop 43 (pipeline sample_frames)]"

lemma sample_whole: "\<forall>(k, w) \<in> set sample_frames. whole_frame 100 w"
  by code_simp

theorem pipelined_messages_delivered_witness:
  "apfst significant (read_loop 100 [] (map Data sample_segments)) = (map (Deliver \<circ> snd) sample_frames, [], True) \<and>
   apfst significant (serve_connection 100 (map Data sample_segments)) = (map (Deliver \<circ> snd) sample_frames, [], True)"
proof -
  have "concat sample_segments = pipeline sample_frames"
    by code_simp
  moreover have "length (pipeline sample_frames) < u64_max" by code_simp
  moreover have "\<exists>seed left. classify_sip_only (map Data sample_segments) = (Serve seed, left)"
    by (intro exI) code_simp
  ultimately show ?thesis using pipelined_messages_delivered [OF sample_whole] by blast
qed

lemma read_loop_Data:
  "read_loop m acc (Data c # reads) =
     (case extract_buffered m acc of
        (es, r, True) \<Rightarrow> (let (es', r', alive) = read_loop m (r @ c) reads in (es @ es', r', alive))
      | (es, r, False) \<Rightarrow> (es, r, False))"
  by (subst read_loop.simps) (simp add: case_prod_beta split: bool.splits)

lemma read_loop_Nil: "read_loop m acc [] = extract_buffered m acc"
  by (subst read_loop.simps) (simp add: case_prod_beta prod_eq_iff)

lemma extract_buffered_Nil [simp]: "extract_buffered m [] = ([], [], True)"
  by (subst extract_buffered.simps) simp

lemma drain_settled: "settled w \<Longrightarrow> drain_leading_crlf_keepalives w = ([], w)"
  by (cases w rule: drain_leading_crlf_keepalives.cases) (auto simp: settled_def starts_with_iff crlf_def)

lemma extract_buffered_one:
  assumes "settled w" and "frame_sip_message w m = Complete (length w)"
  shows "extract_buffered m w = ([Deliver w], [], True)"
  using frame_Complete_bounds [OF assms(2)] assms
  by (subst extract_buffered.simps) (auto simp: drain_settled)

text \<open>
  C40.  Where the cut between two reads does show.  A ping of two line breaks is answered when one read brings
  it, and is taken for two pongs and never answered when each line break comes in a read of its own.  A message
  with a control octet among its first 512 octets is handed on when a read brings it whole, but when the first
  read stops before the end of its header, after that octet, the connection is dropped as garbage; and it is
  dropped, wherever the octet is (in the body too), when the message is the first on its connection.
\<close>

theorem segmentation_gaps:
  "fst (read_loop m [] [Data (crlf @ crlf)]) = [PongSent] \<and>
   fst (read_loop m [] [Data crlf, Data crlf]) = [PongSeen, PongSeen] \<and>
   (\<forall>w. settled w \<and> frame_sip_message w m = Complete (length w) \<and> list_ex control_byte (take 512 w) \<longrightarrow>
      read_loop m [] [Data w] = ([Deliver w], [], True) \<and>
      (\<forall>p q. w = p @ q \<and> p \<noteq> [] \<and> find_sub (crlf @ crlf) p = None \<and> list_ex control_byte (take 512 p) \<longrightarrow>
         read_loop m [] [Data p, Data q] = ([CountMalformed], p, False)) \<and>
      (\<not> starts_with V1_PREFIX w \<longrightarrow> serve_connection m [Data w] = ([CountMalformed], [], False)))"
proof (intro conjI allI impI)
  show "fst (read_loop m [] [Data (crlf @ crlf)]) = [PongSent]"
    by (simp add: read_loop_Data read_loop_Nil extract_buffered.simps [of m "[CR, LF, CR, LF]"] crlf_def)
  show "fst (read_loop m [] [Data crlf, Data crlf]) = [PongSeen, PongSeen]"
    by (simp add: read_loop_Data read_loop_Nil extract_buffered.simps [of m "[CR, LF]"] crlf_def)
next
  fix w
  assume w: "settled w \<and> frame_sip_message w m = Complete (length w) \<and> list_ex control_byte (take 512 w)"
  show "read_loop m [] [Data w] = ([Deliver w], [], True)"
    using w by (simp add: read_loop_Data read_loop_Nil extract_buffered_one)
  show "serve_connection m [Data w] = ([CountMalformed], [], False)" if "\<not> starts_with V1_PREFIX w"
  proof -
    have "\<not> starts_with V2_SIGNATURE w" using w by (auto simp: settled_def V2_SIGNATURE_def starts_with_iff crlf_def)
    then have "sniff_first_line w = SniffGarbage" using that w by (simp add: sniff_first_line_def)
    moreover have "sniff_first_line [] = SniffMore"
      by (simp add: sniff_first_line_def starts_with_def V1_PREFIX_def V2_SIGNATURE_def crlf_def)
    ultimately show ?thesis
      by (simp add: serve_connection_def classify_sip_only_def sniff_stream.simps [of "[]"] sniff_stream.simps [of w])
  qed
  fix p q
  assume p: "w = p @ q \<and> p \<noteq> [] \<and> find_sub (crlf @ crlf) p = None \<and> list_ex control_byte (take 512 p)"
  then have st: "settled p" using w settled_prefix by blast
  then have "frame_sip_message p m = Garbage"
    using p by (simp add: frame_sip_message_def extract_length_None [THEN iffD2] classify_incomplete_stream_def)
  then have "extract_buffered m p = ([CountMalformed], p, False)"
    using p st by (subst extract_buffered.simps) (simp add: drain_settled)
  then show "read_loop m [] [Data p, Data q] = ([CountMalformed], p, False)"
    by (simp add: read_loop_Data)
qed

definition sample_binary :: bytes where
  "sample_binary = ''MESSAGE sip:a SIP/2.0'' @ crlf @ ''l: 2'' @ crlf @ crlf @ [CHR 0x00, CHR 0x01]"

theorem segmentation_gaps_witness:
  "read_loop 100 [] [Data sample_binary] = ([Deliver sample_binary], [], True) \<and>
   serve_connection 100 [Data sample_binary] = ([CountMalformed], [], False)"
proof -
  have "settled sample_binary \<and> frame_sip_message sample_binary 100 = Complete (length sample_binary) \<and>
      list_ex control_byte (take 512 sample_binary)" by code_simp
  moreover have "\<not> starts_with V1_PREFIX sample_binary" by code_simp
  ultimately show ?thesis using segmentation_gaps [of 100] by blast
qed

end
