(* ===== verification/Stream_Agreement.thy ===== *)
theory Stream_Agreement
  imports Stream_Framing_Facts
begin

text \<open>
  The framer of \<^verbatim>\<open>src/src/transport/tcp.rs\<close> and the parser of \<^verbatim>\<open>src/src/sip/parser.rs\<close> read the
  header block with code of their own.  Here they are shown to find the same body, through a common view of the
  block: its lines.
\<close>

subsection \<open>Words\<close>

text \<open>A text that trims to one word, compared through its words.\<close>

fun ws_words :: "string \<Rightarrow> string \<Rightarrow> string list" where
  "ws_words w [] = (if w = [] then [] else [w])"
| "ws_words w (c # s) = (if is_ws c then (if w = [] then [] else [w]) @ ws_words [] s else ws_words (w @ [c]) s)"

lemma ws_words_ws: "is_ws c \<Longrightarrow> ws_words w (a @ c # b) = ws_words w a @ ws_words [] b"
  by (induction a arbitrary: w) auto

lemma ws_words_plain: "\<forall>c \<in> set t. \<not> is_ws c \<Longrightarrow> ws_words w t = (if w @ t = [] then [] else [w @ t])"
  by (induction t arbitrary: w) auto

lemma ws_words_blank: "\<forall>c \<in> set s. is_ws c \<Longrightarrow> ws_words [] s = []"
  by (induction s) auto

lemma ws_words_Nil: "ws_words [] s = [] \<Longrightarrow> \<forall>c \<in> set s. is_ws c"
proof (induction s)
  case (Cons c s)
  have ne: "w \<noteq> [] \<Longrightarrow> ws_words w s \<noteq> []" for w by (induction s arbitrary: w) auto
  then have "is_ws c" using Cons.prems by (auto split: if_splits)
  then show ?case using Cons by simp
qed simp

lemma ws_words_prefix: "\<forall>c \<in> set a. is_ws c \<Longrightarrow> ws_words [] (a @ s) = ws_words [] s"
  by (induction a) auto

lemma trim_around:
  assumes "\<forall>c \<in> set a. is_ws c" and "\<forall>c \<in> set b. is_ws c" and "trimmed t"
  shows "trim (a @ t @ b) = t"
proof (cases "t = []")
  case True
  then have "dropWhile is_ws (a @ t @ b) = []" using assms by (simp only: dropWhile_eq_Nil_conv) auto
  then show ?thesis unfolding trim_def trim_start_def trim_end_def using True by (simp only: rev.simps dropWhile.simps)
next
  case False
  then have "trim_start (a @ t @ b) = t @ b" using assms(1,3)
    by (cases t) (auto simp: trim_start_def trimmed_def dropWhile_append)
  moreover have "trim_end (t @ b) = t"
  proof -
    have "dropWhile is_ws (rev b @ rev t) = rev t" using assms(2,3) False
      by (cases t rule: rev_cases) (auto simp: trimmed_def dropWhile_append)
    then show ?thesis by (simp add: trim_end_def)
  qed
  ultimately show ?thesis by (simp add: trim_def)
qed

lemma trim_parts: "\<exists>a b. s = a @ trim s @ b \<and> (\<forall>c \<in> set a. is_ws c) \<and> (\<forall>c \<in> set b. is_ws c)"
proof (intro exI conjI)
  let ?t = "dropWhile is_ws s"
  have "?t = trim s @ rev (takeWhile is_ws (rev ?t))"
    unfolding trim_def trim_start_def trim_end_def by (metis rev_append rev_rev_ident takeWhile_dropWhile_id)
  then show "s = takeWhile is_ws s @ trim s @ rev (takeWhile is_ws (rev ?t))" by (metis takeWhile_dropWhile_id)
qed (auto dest: set_takeWhileD)

lemma ws_words_one:
  "ws_words w s = [t] \<Longrightarrow> w \<noteq> [] \<Longrightarrow> \<exists>u b. s = u @ b \<and> t = w @ u \<and> (\<forall>c \<in> set u. \<not> is_ws c) \<and> (\<forall>c \<in> set b. is_ws c)"
proof (induction s arbitrary: w)
  case Nil
  then show ?case by simp
next
  case (Cons c s)
  show ?case
  proof (cases "is_ws c")
    case True
    then have "t = w" "ws_words [] s = []" using Cons.prems by auto
    then show ?thesis using True ws_words_Nil [of s] by (intro exI [of _ "[]"] exI [of _ "c # s"]) auto
  next
    case False
    then have "ws_words (w @ [c]) s = [t]" using Cons.prems by simp
    from Cons.IH [OF this] obtain u b where "s = u @ b" "t = w @ c # u" "\<forall>c \<in> set u. \<not> is_ws c" "\<forall>c \<in> set b. is_ws c" by auto
    then show ?thesis using False by (intro exI [of _ "c # u"] exI [of _ b]) auto
  qed
qed

lemma one_word:
  "ws_words [] s = [t] \<Longrightarrow>
     \<exists>a b. s = a @ t @ b \<and> t \<noteq> [] \<and> (\<forall>c \<in> set a. is_ws c) \<and> (\<forall>c \<in> set t. \<not> is_ws c) \<and> (\<forall>c \<in> set b. is_ws c)"
proof (induction s)
  case Nil
  then show ?case by simp
next
  case (Cons c s)
  show ?case
  proof (cases "is_ws c")
    case True
    then have "ws_words [] s = [t]" using Cons.prems by simp
    from Cons.IH [OF this] obtain a b where "s = a @ t @ b" "t \<noteq> []" "\<forall>c \<in> set a. is_ws c" "\<forall>c \<in> set t. \<not> is_ws c"
      "\<forall>c \<in> set b. is_ws c" by blast
    then show ?thesis using True by (intro exI [of _ "c # a"] exI [of _ b]) auto
  next
    case False
    then have "ws_words [c] s = [t]" using Cons.prems by simp
    from ws_words_one [OF this] obtain u b where "s = u @ b" "t = c # u" "\<forall>c \<in> set u. \<not> is_ws c" "\<forall>c \<in> set b. is_ws c"
      by auto
    then show ?thesis using False by (intro exI [of _ "[]"] exI [of _ b]) auto
  qed
qed

lemma trimmed_plain: "\<forall>c \<in> set t. \<not> is_ws c \<Longrightarrow> trimmed t"
  by (cases "t = []") (auto simp: trimmed_def)

lemma same_word:
  assumes "ws_words [] x = ws_words [] y" and "\<forall>c \<in> set (trim x). \<not> is_ws c" and "trim x \<noteq> []"
  shows "trim y = trim x" and "set y \<subseteq> set (trim x) \<union> {c. is_ws c}"
proof -
  obtain a b where x: "x = a @ trim x @ b" and a: "\<forall>c \<in> set a. is_ws c" and b: "\<forall>c \<in> set b. is_ws c"
    using trim_parts by blast
  have "ws_words [] (trim x @ b) = [trim x]"
    using assms(2,3) b ws_words_plain [of "trim x" "[]"] ws_words_ws [of "hd b" "[]" "trim x" "tl b"] ws_words_blank [of "tl b"]
    by (cases b) auto
  then have "ws_words [] y = [trim x]" using assms(1) ws_words_prefix [OF a] x by metis
  from one_word [OF this] obtain a' b' where y: "y = a' @ trim x @ b'" "\<forall>c \<in> set a'. is_ws c" "\<forall>c \<in> set b'. is_ws c" by blast
  then show "trim y = trim x" using trim_around [of a' b' "trim x"] by simp
  show "set y \<subseteq> set (trim x) \<union> {c. is_ws c}" unfolding y(1) using y(2,3) by auto
qed

lemma parse_uint_chars: "parse_uint m t = Some n \<Longrightarrow> t \<noteq> [] \<and> (\<forall>c \<in> set t. is_digit c \<or> c = CHR ''+'')"
  by (cases t) (auto simp: parse_uint_def Let_def list_all_iff split: if_splits)

lemma utf8_ascii: "\<forall>c \<in> set s. in_range 0 127 c \<Longrightarrow> utf8_valid s"
  by (induction s) auto

lemma parse_uint_words:
  assumes "ws_words [] x = ws_words [] y" and "parse_uint m (trim x) = Some n"
  shows "parse_uint m (trim y) = Some n" and "utf8_valid y"
proof -
  note cs = parse_uint_chars [OF assms(2)]
  have "\<not> is_ws CHR ''+''" by (simp add: is_ws_def in_range_def)
  then have plain: "\<forall>c \<in> set (trim x). \<not> is_ws c" using cs is_digit_not_ws by metis
  note sw = same_word [OF assms(1) plain]
  show "parse_uint m (trim y) = Some n" using sw(1) cs assms(2) by simp
  have "\<forall>c \<in> set y. in_range 0 127 c"
    using sw(2) cs by (force simp: is_digit_def is_ws_def in_range_def)
  then show "utf8_valid y" by (rule utf8_ascii)
qed

subsection \<open>Lines\<close>

definition plain :: "bytes \<Rightarrow> bool" where
  "plain l \<longleftrightarrow> CR \<notin> set l \<and> LF \<notin> set l"

definition unlines :: "bytes list \<Rightarrow> bytes" where
  "unlines ls = concat (map (\<lambda>l. l @ crlf) ls)"

lemma unlines_simps [simp]: "unlines [] = []" "unlines (l # ls) = l @ crlf @ unlines ls"
  by (simp_all add: unlines_def)

lemma plain_simps [simp]: "plain []" "plain (c # l) \<longleftrightarrow> c \<noteq> CR \<and> c \<noteq> LF \<and> plain l"
  by (auto simp: plain_def)

lemma plain_line_append: "plain (a @ b) \<longleftrightarrow> plain a \<and> plain b"
  by (auto simp: plain_def)

lemma plain_dropWhile: "plain l \<Longrightarrow> plain (dropWhile P l)"
  by (auto simp: plain_def dest: set_dropWhileD)

lemma valid_lines:
  "line_endings_from i prev s = Inr () \<Longrightarrow> prev \<noteq> Some CR \<Longrightarrow> \<exists>ls l. s = unlines ls @ l \<and> list_all plain (l # ls)"
proof (induction s arbitrary: i prev rule: length_induct)
  case (1 s)
  show ?case
  proof (cases s)
    case Nil
    then show ?thesis by (intro exI [of _ "[]"]) simp
  next
    case (Cons c t)
    show ?thesis
    proof (cases "c = CR")
      case True
      then obtain u where t: "t = LF # u" and "line_endings_from (Suc (Suc i)) (Some LF) u = Inr ()"
        using 1(2) Cons by (auto split: if_splits list.splits)
      then obtain ls l where "u = unlines ls @ l" "list_all plain (l # ls)" using 1(1) Cons by force
      then show ?thesis using True t Cons by (intro exI [of _ "[] # ls"] exI [of _ l]) (simp add: crlf_def)
    next
      case False
      then have "line_endings_from (Suc i) (Some c) t = Inr ()" and c: "c \<noteq> LF"
        using 1(2,3) Cons by (auto split: if_splits)
      then obtain ls l where t: "t = unlines ls @ l" and p: "list_all plain (l # ls)"
        using 1(1) Cons False by force
      show ?thesis
      proof (cases ls)
        case Nil
        then show ?thesis using t p Cons False c by (intro exI [of _ "[]"] exI [of _ "c # l"]) simp
      next
        case (Cons k ks)
        then show ?thesis using t p \<open>s = c # t\<close> False c
          by (intro exI [of _ "(c # k) # ks"] exI [of _ l]) simp
      qed
    qed
  qed
qed

lemma starts_with_crlf_plain: "plain l \<Longrightarrow> l \<noteq> [] \<Longrightarrow> \<not> starts_with (CR # p) (l @ s)"
  by (cases l) (auto simp: starts_with_iff)

lemma find_sub_plain: "plain l \<Longrightarrow> find_sub (CR # p) l = None"
  by (induction l) (auto simp: starts_with_def)

lemma find_crlf: "plain l \<Longrightarrow> find_sub crlf (l @ crlf @ s) = Some (length l)"
proof (induction l)
  case Nil
  then show ?case by (simp add: crlf_def starts_with_def)
next
  case (Cons c l)
  then show ?case using starts_with_crlf_plain [of "c # l" "[LF]"] by (simp add: crlf_def)
qed

lemma find_blank_line:
  assumes "plain l"
  shows "find_sub (crlf @ crlf) (l @ crlf @ s) =
    (if starts_with crlf s then Some (length l) else map_option (\<lambda>e. length l + 2 + e) (find_sub (crlf @ crlf) s))"
  using assms
proof (induction l)
  case Nil
  have "find_sub (crlf @ crlf) (LF # s) = map_option Suc (find_sub (crlf @ crlf) s)"
    by (simp add: starts_with_def crlf_def)
  moreover have "starts_with (crlf @ crlf) (crlf @ s) = starts_with crlf s"
    by (simp add: starts_with_def crlf_def)
  ultimately show ?case by (auto simp: crlf_def option.map_comp comp_def)
next
  case (Cons c l)
  then show ?case using starts_with_crlf_plain [of "c # l" "LF # crlf"]
    by (auto simp: crlf_def option.map_comp comp_def)
qed

abbreviation text_line :: "bytes \<Rightarrow> bool" where
  "text_line l \<equiv> plain l \<and> l \<noteq> []"

lemma header_lines:
  "list_all plain (l # ls) \<Longrightarrow> settled (unlines ls @ l) \<Longrightarrow> find_sub (crlf @ crlf) (unlines ls @ l) = Some e \<Longrightarrow>
     \<exists>ks. take e (unlines ls @ l) @ crlf = unlines ks \<and> ks \<noteq> [] \<and> list_all text_line ks"
proof (induction ls arbitrary: e)
  case Nil
  then show ?case using find_sub_plain [of l "LF # crlf"] by (simp add: crlf_def)
next
  case (Cons k ls)
  let ?s = "unlines ls @ l"
  have k: "text_line k" using Cons.prems(1,2) by (cases k) (auto simp: settled_def starts_with_iff)
  have f: "find_sub (crlf @ crlf) (k @ crlf @ ?s) = Some e" using Cons.prems(3) by simp
  show ?case
  proof (cases "starts_with crlf ?s")
    case True
    then have "e = length k" using f k by (simp add: find_blank_line)
    then show ?thesis using k by (intro exI [of _ "[k]"]) simp
  next
    case False
    then obtain e' where e': "find_sub (crlf @ crlf) ?s = Some e'" "e = length k + 2 + e'"
      using f k by (auto simp: find_blank_line)
    obtain ks where "take e' ?s @ crlf = unlines ks" "list_all text_line ks"
      using Cons.IH [OF _ _ e'(1)] Cons.prems(1) False by (auto simp: settled_def)
    then show ?thesis using k e'(2) by (intro exI [of _ "k # ks"]) (simp add: crlf_def)
  qed
qed

lemma block_lines_unlines:
  "list_all text_line ks \<Longrightarrow> b @ crlf = unlines ks \<Longrightarrow> ks \<noteq> [] \<Longrightarrow> block_lines b = ks"
proof (induction ks arbitrary: b)
  case Nil
  then show ?case by simp
next
  case (Cons k ks)
  have k: "plain k" "k \<noteq> []" using Cons.prems(1) by auto
  have strip: "strip_cr k = k" "strip_cr (k @ [CR]) = k"
    using k by (auto simp: strip_cr_def strip_suffix_Some_iff plain_def split: option.splits)
  show ?case
  proof (cases "ks = []")
    case True
    then have "b = k" using Cons.prems(2) by simp
    then show ?thesis using k strip True by (simp add: block_lines_def split_on_no_sep plain_def)
  next
    case False
    then obtain b' where b': "b = k @ crlf @ b'" "b' @ crlf = unlines ks"
    proof -
      obtain k2 ks2 where "ks = k2 # ks2" using False by (cases ks) auto
      have "\<exists>u. unlines ks = u @ crlf" using False by (induction ks rule: rev_induct) (auto simp: unlines_def)
      then obtain u where "unlines ks = u @ crlf" by blast
      then show thesis using that [of u] Cons.prems(2) by simp
    qed
    have "block_lines b' = ks" using Cons.IH Cons.prems(1) b' False by simp
    moreover have "split_on LF b = (k @ [CR]) # split_on LF b'"
      using split_on_append [of LF "k @ [CR]" b'] k b' by (simp add: crlf_def plain_def)
    ultimately show ?thesis using strip k by (simp add: block_lines_def)
  qed
qed

subsection \<open>A header line and its continuation\<close>

lemma take_until_crlf: "plain l \<Longrightarrow> p_take_until crlf (l @ crlf @ s) = Some (crlf @ s, l)"
  by (simp add: p_take_until_def find_crlf)

lemma parse_crlf_crlf: "parse_crlf (crlf @ s) = Some (s, crlf)"
  by (simp add: parse_crlf_def p_alt_def p_tag_def)

abbreviation unfolded :: "bytes list \<Rightarrow> bytes" where
  "unfolded ks \<equiv> concat (map (\<lambda>k. SP # dropWhile is_blank k) (takeWhile continues ks))"

lemma not_blank_CR [simp]: "\<not> is_blank CR"
  by (simp add: is_blank_def)

lemma blank_before_crlf: "dropWhile is_blank (k @ crlf @ s) = dropWhile is_blank k @ crlf @ s"
  by (induction k) (auto simp: crlf_def)

lemma continues_blank: "continues (c # k) \<longleftrightarrow> is_blank c"
  by (simp add: continues_def is_blank_def)

lemma header_value_lines:
  "plain l \<Longrightarrow> list_all text_line ks \<Longrightarrow>
     header_value v (l @ crlf @ unlines ks @ crlf) = Some (unlines (dropWhile continues ks) @ crlf, v @ l @ unfolded ks)"
proof (induction ks arbitrary: v l)
  case Nil
  have "p_take_while1 is_blank crlf = None" "dropWhile is_blank crlf \<noteq> []" by (simp_all add: p_take_while1_def crlf_def)
  then show ?case using Nil take_until_crlf [of l crlf] parse_crlf_crlf [of crlf]
    by (subst header_value.simps) simp
next
  case (Cons k ks)
  obtain c k' where k: "k = c # k'" "plain k" using Cons.prems(2) by (cases k) auto
  let ?s = "unlines ks @ crlf"
  have until: "p_take_until crlf (l @ crlf @ unlines (k # ks) @ crlf) = Some (crlf @ k @ crlf @ ?s, l)"
    using take_until_crlf [OF Cons.prems(1)] by simp
  have more: "k @ crlf @ ?s \<noteq> []" "dropWhile is_blank (k @ crlf @ ?s) \<noteq> []"
    unfolding blank_before_crlf by (simp_all add: crlf_def)
  show ?case
  proof (cases "is_blank c")
    case True
    then have w: "p_take_while1 is_blank (k @ crlf @ ?s) = Some (dropWhile is_blank k @ crlf @ ?s, takeWhile is_blank (k @ crlf @ ?s))"
      unfolding p_take_while1_def blank_before_crlf using k by simp
    have IH: "header_value (v @ l @ '' '') (dropWhile is_blank k @ crlf @ ?s) =
        Some (unlines (dropWhile continues ks) @ crlf, (v @ l @ '' '') @ dropWhile is_blank k @ unfolded ks)"
      using Cons.IH Cons.prems(2) k plain_dropWhile by simp
    have "continues k" using True k by (simp add: continues_blank)
    then show ?thesis
      using until more w IH parse_crlf_crlf by (subst header_value.simps) simp
  next
    case False
    then have "p_take_while1 is_blank (k @ crlf @ ?s) = None" "\<not> continues k"
      using k by (simp_all add: p_take_while1_def continues_blank)
    then show ?thesis
      using until more parse_crlf_crlf by (subst header_value.simps) simp
  qed
qed

lemma lower_ascii_ws [simp]: "is_ascii_ws (lower_char c) = is_ascii_ws c"
proof (cases "is_upper c")
  case True
  then have "65 \<le> (of_char c :: nat)" "of_char (lower_char c) = (of_char c + 32 :: nat)"
    by (auto simp: is_upper_def in_range_def lower_char_def)
  moreover have "(of_char d :: nat) \<le> 32" if "is_ascii_ws d" for d using that by (auto simp: is_ascii_ws_def)
  ultimately show ?thesis by fastforce
qed (simp add: lower_char_def)

lemma trim_ascii_lower: "trim_ascii (to_lower s) = to_lower (trim_ascii s)"
  by (simp add: trim_ascii_def dropWhile_map comp_def rev_map)

lemma trim_ascii_suffix:
  assumes "\<forall>c \<in> set b. is_ascii_ws c"
  shows "trim_ascii (a @ b) = trim_ascii a"
proof (cases "\<forall>c \<in> set a. is_ascii_ws c")
  case True
  then have "dropWhile is_ascii_ws (a @ b) = []" "dropWhile is_ascii_ws a = []"
    using assms by (simp_all only: dropWhile_eq_Nil_conv) auto
  then show ?thesis by (simp only: trim_ascii_def)
next
  case False
  then have "dropWhile is_ascii_ws (a @ b) = dropWhile is_ascii_ws a @ b" by (auto simp: dropWhile_append)
  moreover have "dropWhile is_ascii_ws (rev b @ x) = dropWhile is_ascii_ws x" for x
    using assms by (intro dropWhile_append2) simp
  ultimately show ?thesis by (simp add: trim_ascii_def)
qed

lemma colon_before_crlf:
  "p_char CHR '':'' (d @ crlf @ s) = Some (w, u) \<Longrightarrow> \<exists>v. d = CHR '':'' # v \<and> w = v @ crlf @ s"
  by (cases d) (auto simp: p_tag_def crlf_def split: if_splits)

lemma parse_header_line_lines:
  assumes "text_line l" and "list_all text_line ks" and "\<not> continues l"
    and "parse_header_line (l @ crlf @ unlines ks @ crlf) = Some (r, (name, val))"
  obtains n v where "split_once CHR '':'' l = Some (n, v)" and "r = unlines (dropWhile continues ks) @ crlf"
    and "trim_ascii (to_lower n) = to_lower name" and "val = trim (dropWhile is_blank v @ unfolded ks)"
proof -
  let ?p = "\<lambda>c. c \<notin> {CHR '':'', CR, LF, SP, HT}" and ?s = "unlines ks @ crlf"
  have nb: "dropWhile is_blank (l @ crlf @ ?s) = l @ crlf @ ?s"
    using assms(1,3) by (cases l) (auto simp: continues_blank)
  have tw: "takeWhile ?p (l @ crlf @ ?s) = takeWhile ?p l" "dropWhile ?p (l @ crlf @ ?s) = dropWhile ?p l @ crlf @ ?s"
    by (induction l) (auto simp: crlf_def)
  define t where "t = takeWhile ?p l"
  define d where "d = dropWhile ?p l"
  define b where "b = takeWhile is_blank d"
  obtain w where colon: "p_char CHR '':'' (dropWhile is_blank (d @ crlf @ ?s)) = Some (w, [CHR '':''])"
    and nm: "name = trim_ascii t"
    and hv: "map_option (\<lambda>(r, val). (r, trim val)) (header_value [] (dropWhile is_blank w)) = Some (r, val)"
  proof -
    have "parse_header_line (l @ crlf @ ?s) =
        (case (if t = [] then None else Some (d @ crlf @ ?s, t)) of None \<Rightarrow> None
         | Some (s1, name) \<Rightarrow> (case p_char CHR '':'' (dropWhile is_blank s1) of None \<Rightarrow> None
            | Some (s2, _) \<Rightarrow> map_option (\<lambda>(r, value). (r, (trim_ascii name, trim value))) (header_value [] (dropWhile is_blank s2))))"
      unfolding parse_header_line_def nb Let_def p_take_while1_def tw t_def d_def ..
    with assms(4) show thesis
      using that by (cases "strip_prefix [CHR '':''] (dropWhile is_blank (d @ crlf @ ?s))") (auto simp: p_tag_def split: if_splits)
  qed
  obtain v where v: "dropWhile is_blank d = CHR '':'' # v" and w: "w = v @ crlf @ ?s"
    using colon_before_crlf [OF colon [unfolded blank_before_crlf]] by blast
  have "l = t @ d" by (simp add: t_def d_def)
  moreover have "d = b @ CHR '':'' # v" using takeWhile_dropWhile_id [of is_blank d] v by (simp add: b_def)
  ultimately have l: "l = (t @ b) @ CHR '':'' # v" by simp
  have bb: "\<forall>c \<in> set b. is_blank c" by (auto simp: b_def dest: set_takeWhileD)
  have "\<forall>c \<in> set t. c \<noteq> CHR '':''" unfolding t_def by (rule ballI, drule set_takeWhileD) simp
  moreover have "\<not> is_blank CHR '':''" by (simp add: is_blank_def)
  then have "\<forall>c \<in> set b. c \<noteq> CHR '':''" using bb by blast
  ultimately have "\<forall>c \<in> set (t @ b). c \<noteq> CHR '':''" by auto
  then have "split_once CHR '':'' l = Some (t @ b, v)" unfolding split_once_by_Some using l by blast
  moreover have "is_blank c \<Longrightarrow> is_ascii_ws c" for c by (auto simp: is_blank_def is_ascii_ws_def)
  then have "\<forall>c \<in> set b. is_ascii_ws c" using bb by blast
  then have "trim_ascii (to_lower (t @ b)) = to_lower name"
    unfolding trim_ascii_lower nm by (simp only: trim_ascii_suffix)
  moreover have "plain v" using assms(1) by (simp add: l plain_line_append)
  then have "header_value [] (dropWhile is_blank w) = Some (unlines (dropWhile continues ks) @ crlf, dropWhile is_blank v @ unfolded ks)"
    unfolding w blank_before_crlf
    using header_value_lines [of "dropWhile is_blank v" ks "[]"] assms(2) by (simp add: plain_dropWhile)
  then have "r = unlines (dropWhile continues ks) @ crlf" "val = trim (dropWhile is_blank v @ unfolded ks)" using hv by simp_all
  ultimately show thesis using that by blast
qed

subsection \<open>The whole block\<close>

lemma scan_skip: "scan_content_length (dropWhile continues ks) = scan_content_length ks"
  by (induction ks) auto

lemma is_content_length:
  "to_lower name \<in> {''content-length'', ''l''} \<longleftrightarrow> canonical_key name = canonical_key ''Content-Length''"
proof (cases "length name = 1")
  case True
  then obtain c where "name = [c]" by (auto simp: length_Suc_conv)
  moreover have "canonical_key ''Content-Length'' = ''content-length''" by code_simp
  ultimately show ?thesis
    by (auto simp: canonical_key_def compact_form_def compact_forms_def split: option.splits if_splits)
next
  case False
  moreover have "canonical_key ''Content-Length'' = ''content-length''" by code_simp
  ultimately show ?thesis by (auto simp: canonical_key_long dest: arg_cong [of _ _ length])
qed

lemma words_folded:
  "ws_words [] (dropWhile is_blank v @ unfolded ks) = ws_words [] (v @ concat (map (\<lambda>l. SP # l) (takeWhile continues ks)))"
proof -
  have sp: "is_ws SP" by (simp add: is_ws_def)
  have d: "ws_words [] (dropWhile is_blank v @ s) = ws_words [] (v @ s)" for v s
    by (induction v) (auto simp: is_blank_def is_ws_def in_range_def)
  have "ws_words [] (v @ concat (map (\<lambda>k. SP # dropWhile is_blank k) cs)) = ws_words [] (v @ concat (map (\<lambda>l. SP # l) cs))" for v cs
  proof (induction cs arbitrary: v)
    case (Cons k cs)
    have "ws_words [] (v @ concat (map (\<lambda>k. SP # dropWhile is_blank k) (k # cs))) =
        ws_words [] v @ ws_words [] (dropWhile is_blank k @ concat (map (\<lambda>k. SP # dropWhile is_blank k) cs))"
      using ws_words_ws [OF sp] by simp
    also have "\<dots> = ws_words [] v @ ws_words [] (k @ concat (map (\<lambda>l. SP # l) cs))"
      unfolding d Cons.IH ..
    also have "\<dots> = ws_words [] (v @ concat (map (\<lambda>l. SP # l) (k # cs)))" using ws_words_ws [OF sp] by simp
    finally show ?case .
  qed simp
  then show ?thesis unfolding d .
qed

abbreviation CL :: string where "CL \<equiv> ''Content-Length''"

lemma headers_scan:
  "list_all text_line ks \<Longrightarrow> parse_headers h (unlines ks @ crlf) = Some (r, h') \<Longrightarrow>
     (\<forall>vs. hdr_get_all h CL = Some vs \<longrightarrow> (\<exists>us. hdr_get_all h' CL = Some (vs @ us))) \<and>
     (hdr_get_all h CL = None \<longrightarrow>
        (hdr_get_all h' CL = None \<and> scan_content_length ks = None) \<or>
        (\<exists>val us. hdr_get_all h' CL = Some (val # us) \<and>
           (\<forall>n. parse_uint u64_max (trim val) = Some n \<longrightarrow> scan_content_length ks = Some n)))"
proof (induction "length ks" arbitrary: ks h rule: less_induct)
  case less
  show ?case
  proof (cases ks)
    case Nil
    then have "h' = h" using less.prems(2) by (simp add: parse_headers.simps crlf_def)
    then show ?thesis using Nil by simp
  next
    case (Cons k ks')
    have k: "text_line k" and ks': "list_all text_line ks'" using less.prems(1) Cons by auto
    let ?rem = "k @ crlf @ unlines ks' @ crlf" and ?rest = "dropWhile continues ks'"
    have nn: "strip_prefix crlf ?rem = None" "strip_prefix [LF] ?rem = None" "?rem \<noteq> []"
      using k by (cases k; auto simp: crlf_def)+
    obtain name val r' where line: "parse_header_line ?rem = Some (r', (name, val))" and nb: "\<not> is_blank (hd ?rem)"
      and rest: "parse_headers (hdr_add h name val) r' = Some (r, h')"
      using less.prems(2) nn Cons by (subst (asm) parse_headers.simps) (auto split: option.splits if_splits)
    have nc: "\<not> continues k" using nb k by (cases k) (auto simp: continues_blank)
    obtain n v where sp: "split_once CHR '':'' k = Some (n, v)" and r': "r' = unlines ?rest @ crlf"
      and nm: "trim_ascii (to_lower n) = to_lower name" and val: "val = trim (dropWhile is_blank v @ unfolded ks')"
      by (rule parse_header_line_lines [OF k ks' nc line])
    have "length ?rest < length ks" using Cons dropWhile_length [of continues ks'] by simp
    moreover have "list_all text_line ?rest" using ks' by (auto simp: list_all_iff dest: set_dropWhileD)
    ultimately have IH: "(\<forall>vs. hdr_get_all (hdr_add h name val) CL = Some vs \<longrightarrow> (\<exists>us. hdr_get_all h' CL = Some (vs @ us))) \<and>
     (hdr_get_all (hdr_add h name val) CL = None \<longrightarrow>
        (hdr_get_all h' CL = None \<and> scan_content_length ?rest = None) \<or>
        (\<exists>val us. hdr_get_all h' CL = Some (val # us) \<and>
           (\<forall>n. parse_uint u64_max (trim val) = Some n \<longrightarrow> scan_content_length ?rest = Some n)))"
      using less.hyps rest r' by blast
    note scan = scan_content_length.simps(2) [of k ks', unfolded nm]
    show ?thesis
    proof (cases "canonical_key CL = canonical_key name")
      case False
      then have "scan_content_length ks = scan_content_length ?rest"
        using scan is_content_length [of name] nc sp Cons by (simp add: scan_skip nm)
      then show ?thesis using IH False by (simp add: hdr.get_add)
    next
      case True
      then have "scan_content_length ks = (let folded = v @ concat (map (\<lambda>l. SP # l) (takeWhile continues ks'))
          in if utf8_valid folded then parse_uint u64_max (trim folded) else None)"
        using is_content_length [of name] nc sp Cons by (auto simp: nm)
      then have fin: "\<forall>n. parse_uint u64_max (trim val) = Some n \<longrightarrow> scan_content_length ks = Some n"
        using parse_uint_words [OF words_folded] val by (simp add: Let_def)
      have g: "hdr_get_all h name = hdr_get_all h CL" using True by (simp add: hdr_get_all_def)
      show ?thesis
      proof (cases "hdr_get_all h CL")
        case None
        then have "hdr_get_all (hdr_add h name val) CL = Some [val]" using True g by (simp add: hdr.get_add)
        then obtain us where "hdr_get_all h' CL = Some (val # us)" using IH by auto
        then show ?thesis using None fin by simp
      next
        case (Some vs)
        then have "hdr_get_all (hdr_add h name val) CL = Some (vs @ [val])" using True g by (simp add: hdr.get_add)
        then obtain us where "hdr_get_all h' CL = Some (vs @ val # us)" using IH by auto
        then show ?thesis using Some by simp
      qed
    qed
  qed
qed

lemma header_block_lines:
  assumes "parse_header_block input = Inr (l, headers, boundary)"
  obtains b k ks where "find_header_boundary (skip_crlf input) = Some b" and "boundary = leading_crlf_len input + b"
    and "block_lines (take b (skip_crlf input)) = k # ks" and "list_all text_line ks"
    and "map_option snd (parse_headers hdr_new (unlines ks @ crlf)) = Some headers"
proof -
  let ?rest = "skip_crlf input"
  obtain b where b: "find_header_boundary ?rest = Some b" and bd: "boundary = leading_crlf_len input + b"
    using assms by (auto simp: parse_header_block_def Let_def skip_crlf_def split: option.splits sum.splits if_splits prod.splits)
  define H where "H = take (b + 4) ?rest"
  have fb: "find_sub (crlf @ crlf) ?rest = Some b" using b by (simp add: find_header_boundary_def)
  have sub: "b + 4 \<le> length ?rest" "starts_with (crlf @ crlf) (drop b ?rest)"
    using find_sub_Some [OF fb] by (auto simp: crlf_def)
  have H: "drop (leading_crlf_len input) (take (min (boundary + 4) (length input)) input) = H"
    by (simp add: H_def bd skip_crlf_def take_drop min_def add_ac)
  have fH: "find_sub (crlf @ crlf) H = Some b"
    using find_sub_prefix [of "crlf @ crlf" H "drop (b + 4) ?rest" b] fb sub(1) by (simp add: H_def crlf_def)
  have "settled H" using settled_prefix [of H "drop (b + 4) ?rest"] by (simp add: H_def)
  let ?after = "case find_sub crlf H of Some pos \<Rightarrow> drop (pos + 2) H | None \<Rightarrow> []"
  have body: "(case validate_header_line_endings H of Inl e \<Rightarrow> Inl e
      | Inr _ \<Rightarrow> if \<not> utf8_valid H then Inl NonUtf8
          else (case parse_start_line H of None \<Rightarrow> Inl StartLineError
                | Some (_, l) \<Rightarrow> (case parse_headers hdr_new ?after of None \<Rightarrow> Inl HeaderError
                    | Some (_, headers) \<Rightarrow> Inr (l, headers, boundary)))) = Inr (l, headers, boundary)"
    using assms b unfolding parse_header_block_def Let_def skip_crlf_def
    by (simp only: option.case bd [symmetric] H)
  have ok: "validate_header_line_endings H = Inr ()"
    using body by (cases "validate_header_line_endings H") simp_all
  have ph: "map_option snd (parse_headers hdr_new ?after) = Some headers"
    using body ok by (cases "parse_headers hdr_new ?after"; cases "parse_start_line H") (simp_all split: if_splits prod.splits)
  obtain ls x where ls: "H = unlines ls @ x" "list_all plain (x # ls)"
    using valid_lines [of 0 None H] ok by (auto simp: validate_header_line_endings_def)
  obtain ks0 where ks0: "take b H @ crlf = unlines ks0" "ks0 \<noteq> []" "list_all text_line ks0"
    using header_lines [OF ls(2), of b] ls(1) fH \<open>settled H\<close> by auto
  have "drop b H = crlf @ crlf"
  proof -
    have "length (drop b H) = 4" using sub(1) by (simp add: H_def)
    moreover obtain r where "drop b H = (crlf @ crlf) @ r" using find_sub_Some [OF fH] by (auto simp: starts_with_iff)
    ultimately show ?thesis by (simp add: crlf_def)
  qed
  then have Hl: "H = unlines ks0 @ crlf" using ks0(1) by (metis append.assoc append_take_drop_id)
  obtain k ks where ks: "ks0 = k # ks" using ks0(2) by (cases ks0) auto
  have "find_sub crlf H = Some (length k)" using Hl ks ks0(3) find_crlf [of k] by simp
  then have "map_option snd (parse_headers hdr_new (unlines ks @ crlf)) = Some headers"
    using ph Hl ks by (simp add: crlf_def)
  moreover have "take b ?rest @ crlf = unlines ks0" using ks0(1) by (simp add: H_def min_def)
  then have "block_lines (take b ?rest) = k # ks" using block_lines_unlines [OF ks0(3) _ ks0(2)] ks by blast
  ultimately show thesis using that b bd ks ks0(3) by simp
qed

lemma header_block_agrees:
  assumes "parse_header_block input = Inr (l, headers, boundary)" and "check_content_length headers avail = None"
  shows "extract_sip_message_length input =
    Some (min (boundary + 4 + (case hdr_content_length headers of Some n \<Rightarrow> n | None \<Rightarrow> 0)) u64_max)"
proof -
  obtain b k ks where b: "find_header_boundary (skip_crlf input) = Some b" "boundary = leading_crlf_len input + b"
    and lines: "block_lines (take b (skip_crlf input)) = k # ks" and t: "list_all text_line ks"
    and ph: "map_option snd (parse_headers hdr_new (unlines ks @ crlf)) = Some headers"
    by (rule header_block_lines [OF assms(1)])
  obtain r where r: "parse_headers hdr_new (unlines ks @ crlf) = Some (r, headers)" using ph by auto
  have "extract_content_length (take b (skip_crlf input)) = scan_content_length ks"
    by (simp add: extract_content_length_def lines)
  moreover have "scan_content_length ks = hdr_content_length headers"
  proof (cases "hdr_get_all headers CL")
    case None
    then show ?thesis using headers_scan [OF t r] by (simp add: hdr_content_length_def hdr_get_get_all)
  next
    case (Some vs)
    then obtain val us where v: "vs = val # us" "\<And>n. parse_uint u64_max (trim val) = Some n \<Longrightarrow> scan_content_length ks = Some n"
      using headers_scan [OF t r] by auto
    then have "hdr_get headers CL = Some val" using Some by (simp add: hdr_get_get_all)
    then show ?thesis using assms(2) v(2)
      by (cases "parse_uint u64_max (trim val)") (auto simp: check_content_length_def hdr_content_length_def)
  qed
  ultimately show ?thesis
    using b by (simp add: extract_sip_message_length_def Let_def skip_crlf_def find_header_boundary_def)
qed

lemma leading_take: "leading_crlf_len b + 2 \<le> n \<Longrightarrow> leading_crlf_len (take n b) = leading_crlf_len b"
proof (induction b arbitrary: n rule: leading_crlf_len.induct)
  case (1 x y rest)
  then obtain n' where n: "n = Suc (Suc n')" by (cases n; cases "n - 1") auto
  then show ?case using 1 by auto
qed (auto simp: take_Cons')

lemma parse_header_block_take:
  assumes "find_header_boundary (skip_crlf b) = Some e" and "leading_crlf_len b + e + 4 \<le> n"
  shows "parse_header_block (take n b) = parse_header_block b"
proof -
  have lead: "leading_crlf_len (take n b) = leading_crlf_len b" using leading_take assms(2) by simp
  have "find_sub (crlf @ crlf) (drop (leading_crlf_len b) b) = Some e"
    using assms(1) by (simp add: find_header_boundary_def skip_crlf_def)
  moreover have "drop (leading_crlf_len b) b = drop (leading_crlf_len b) (take n b) @ drop n b" if "n \<le> length b"
    using drop_append [of "leading_crlf_len b" "take n b" "drop n b"] assms(2) that by simp
  ultimately have "find_sub (crlf @ crlf) (drop (leading_crlf_len b) (take n b)) = Some e"
    using find_sub_prefix [of "crlf @ crlf" "drop (leading_crlf_len b) (take n b)" "drop n b" e] assms(2)
    by (cases "n \<le> length b") (simp_all add: crlf_def)
  moreover have "take (min (leading_crlf_len b + e + 4) (length (take n b))) (take n b) =
      take (min (leading_crlf_len b + e + 4) (length b)) b"
    using assms(2) by (simp add: min_def)
  ultimately show ?thesis
    using assms(1) unfolding parse_header_block_def lead Let_def skip_crlf_def
    by (simp only: find_header_boundary_def option.case)
qed

text \<open>
  C5.  The framer, which decides how many octets of a stream are one message, and the parser, which decides
  where its body ends, agree whenever the parser accepts what was framed: the body is every octet of the frame
  after the blank line, and none of the next message's.  So no octets of a frame are left to be read as
  another message, and parsing before or after cutting the frame out gives the same message.
\<close>

theorem framer_parser_agree:
  assumes "frame_sip_message buffer m = Complete len"
    and "parse_sip_message_bytes (take len buffer) = Inr msg"
    and "length buffer < u64_max"
  shows "\<exists>b. find_header_boundary (skip_crlf buffer) = Some b \<and>
     msg_body msg = drop (leading_crlf_len buffer + b + 4) (take len buffer) \<and>
     len = leading_crlf_len buffer + b + 4 + length (msg_body msg) \<and>
     parse_sip_message_bytes buffer = Inr msg"
proof -
  have len: "extract_sip_message_length buffer = Some len" "len \<le> length buffer"
    using frame_Complete_extract [OF assms(1)] frame_Complete_bounds [OF assms(1)] by auto
  then obtain b where b: "find_header_boundary (skip_crlf buffer) = Some b" and le: "leading_crlf_len buffer + b + 4 \<le> len"
    using assms(3) by (auto simp: extract_sip_message_length_def Let_def skip_crlf_def find_header_boundary_def min_def
        split: option.splits if_splits)
  note same = parse_header_block_take [OF b le]
  obtain l headers bd where ph: "parse_header_block buffer = Inr (l, headers, bd)"
    and ck: "check_content_length headers (len - (bd + 4)) = None"
    using assms(2) len(2) same by (auto simp: parse_sip_message_bytes_def Let_def split: sum.splits option.splits)
  have bd: "bd = leading_crlf_len buffer + b" 
    by (rule header_block_lines [OF ph]) (simp add: b)
  define n where "n = (case hdr_content_length headers of Some n \<Rightarrow> n | None \<Rightarrow> 0)"
  have n: "len = bd + 4 + n"
    using header_block_agrees [OF ph ck] len assms(3) by (simp add: n_def min_def split: if_splits)
  have msg: "msg = \<lparr>msg_start_line = l, msg_headers = headers, msg_body = drop (bd + 4) (take len buffer)\<rparr>"
    using assms(2) same ph ck len(2) n by (auto simp: parse_sip_message_bytes_def Let_def n_def [symmetric])
  have "check_content_length headers (length buffer - (bd + 4)) = None"
    using ck n len(2) by (auto simp: check_content_length_def split: option.splits if_splits)
  moreover have "drop (bd + 4) (take len buffer) = take n (drop (bd + 4) buffer)" by (simp add: n drop_take)
  ultimately have "parse_sip_message_bytes buffer = Inr msg"
    using ph msg len(2) n by (simp add: parse_sip_message_bytes_def Let_def n_def [symmetric])
  then show ?thesis using b bd msg n len(2) by auto
qed

theorem framer_parser_agree_witness:
  "\<exists>msg. parse_sip_message_bytes (snd (hd sample_frames) @ ''OPTIONS'') = Inr msg \<and> msg_body msg = ''hi''"
proof -
  let ?w = "snd (hd sample_frames)"
  have "frame_sip_message (?w @ ''OPTIONS'') 100 = Complete (length ?w)" by code_simp
  moreover have "\<exists>msg. parse_sip_message_bytes (take (length ?w) (?w @ ''OPTIONS'')) = Inr msg"
    by (intro exI) code_simp
  moreover have "length (?w @ ''OPTIONS'') < u64_max" by code_simp
  ultimately obtain msg b where "parse_sip_message_bytes (?w @ ''OPTIONS'') = Inr msg"
    and "msg_body msg = drop (leading_crlf_len (?w @ ''OPTIONS'') + b + 4) (take (length ?w) (?w @ ''OPTIONS''))"
    and "find_header_boundary (skip_crlf (?w @ ''OPTIONS'')) = Some b"
    using framer_parser_agree [of "?w @ ''OPTIONS''" 100 "length ?w"] by blast
  moreover have "find_header_boundary (skip_crlf (?w @ ''OPTIONS'')) = Some 27" by code_simp
  moreover have "drop (leading_crlf_len (?w @ ''OPTIONS'') + 27 + 4) (take (length ?w) (?w @ ''OPTIONS'')) = ''hi''" by code_simp
  ultimately show ?thesis by (metis option.inject)
qed

end
