(* ===== verification/Admission.thy ===== *)
theory Admission
  imports Siphon_Prelude "HOL-Library.AList"
begin

text \<open>
  Admission of inbound calls: \<^verbatim>\<open>src/src/admission/mod.rs\<close> and \<^verbatim>\<open>src/src/admission/refused.rs\<close>.
  A limit state is a record; the ones a call is held against are found in a store by number, the instance's own
  at \<open>GLOBAL\<close>, which is what sharing them by reference comes to.  An instant is the number of
  nanoseconds since the epoch of the limit states.  Integers keep the width of the code.
\<close>

subsection \<open>Limits\<close>

definition NANOS_PER_SECOND :: nat where
  "NANOS_PER_SECOND = 1000000000"

record inbound_limits =
  max_concurrent_calls :: nat
  max_calls_per_second :: nat
  reject_code :: nat
  retry_after_secs :: nat

definition UNLIMITED :: inbound_limits where
  "UNLIMITED = \<lparr>max_concurrent_calls = 0, max_calls_per_second = 0, reject_code = 503, retry_after_secs = 1\<rparr>"

definition is_limited :: "inbound_limits \<Rightarrow> bool" where
  "is_limited l \<longleftrightarrow> 0 < max_concurrent_calls l \<or> 0 < max_calls_per_second l"

record limit_state =
  active :: nat
  state_limits :: inbound_limits
  theoretical_arrival_nanos :: nat

definition limit_state_new :: "inbound_limits \<Rightarrow> limit_state" where
  "limit_state_new l = \<lparr>active = 0, state_limits = l, theoretical_arrival_nanos = 0\<rparr>"

definition set_limits :: "inbound_limits \<Rightarrow> limit_state \<Rightarrow> limit_state" where
  "set_limits l s = s\<lparr>state_limits := l\<rparr>"

text \<open>
  The compare-and-swap loop: \<open>actuals\<close> are the values found by the exchanges that fail, in order; the
  loop ends with the value it found last and what it put there.
\<close>

fun update_cas :: "(nat \<Rightarrow> nat option) \<Rightarrow> nat \<Rightarrow> nat list \<Rightarrow> nat \<times> nat option" where
  "update_cas next current actuals =
     (case next current of
        None \<Rightarrow> (current, None)
      | Some replacement \<Rightarrow>
          (case actuals of
             [] \<Rightarrow> (current, Some replacement)
           | actual # rest \<Rightarrow> update_cas next actual rest))"

declare update_cas.simps [simp del]

text \<open>What the loop comes to on the value it found last: one atomic update.\<close>

definition update_atomic :: "(nat \<Rightarrow> nat option) \<Rightarrow> nat \<Rightarrow> nat \<times> bool" where
  "update_atomic next current = (case next current of None \<Rightarrow> (current, False) | Some r \<Rightarrow> (r, True))"

definition next_slot :: "nat \<Rightarrow> nat \<Rightarrow> nat option" where
  "next_slot limit current = (if current < limit then Some (current + 1) else None)"

definition try_take_slot :: "limit_state \<Rightarrow> limit_state \<times> bool" where
  "try_take_slot s =
     (let limit = max_concurrent_calls (state_limits s)
      in if limit = 0 then (s\<lparr>active := (active s + 1) mod 2 ^ 32\<rparr>, True)
         else (let (a, ok) = update_atomic (next_slot limit) (active s) in (s\<lparr>active := a\<rparr>, ok)))"

definition take_slot_unrefused :: "limit_state \<Rightarrow> limit_state" where
  "take_slot_unrefused s = s\<lparr>active := (active s + 1) mod 2 ^ 32\<rparr>"

definition release_slot :: "limit_state \<Rightarrow> limit_state" where
  "release_slot s = s\<lparr>active := fst (update_atomic (\<lambda>current. Some (current - 1)) (active s))\<rparr>"

definition emission_interval :: "nat \<Rightarrow> nat" where
  "emission_interval rate = max (NANOS_PER_SECOND div rate) 1"

definition burst_tolerance :: "nat \<Rightarrow> nat" where
  "burst_tolerance rate = min (emission_interval rate * (rate - 1)) u64_max"

definition next_arrival :: "nat \<Rightarrow> nat \<Rightarrow> nat \<Rightarrow> nat option" where
  "next_arrival rate now arrival =
     (if arrival \<le> min (now + burst_tolerance rate) u64_max
      then Some (min (max arrival now + emission_interval rate) u64_max) else None)"

definition try_take_rate :: "nat \<Rightarrow> limit_state \<Rightarrow> limit_state \<times> bool" where
  "try_take_rate now s =
     (let rate = max_calls_per_second (state_limits s)
      in if rate = 0 then (s, True)
         else (let (a, ok) = update_atomic (next_arrival rate (min now u64_max)) (theoretical_arrival_nanos s)
               in (s\<lparr>theoretical_arrival_nanos := a\<rparr>, ok)))"

subsection \<open>The decision\<close>

type_synonym limit_store = "nat \<Rightarrow> limit_state"

definition GLOBAL :: nat where
  "GLOBAL = 0"

datatype refusal_scope = Global | Gateway string

datatype refusal_reason = Concurrent | Rate

record group_limit =
  group_name :: string
  group_state :: nat

record refusal =
  scope :: refusal_scope
  reason :: refusal_reason
  answer_code :: nat
  answer_retry_after :: nat

definition group_refusal :: "limit_store \<Rightarrow> group_limit \<Rightarrow> refusal_reason \<Rightarrow> refusal" where
  "group_refusal st g r =
     \<lparr>scope = Gateway (group_name g), reason = r,
      answer_code = reject_code (state_limits (st (group_state g))),
      answer_retry_after = retry_after_secs (state_limits (st (group_state g)))\<rparr>"

definition global_refusal :: "limit_store \<Rightarrow> refusal_reason \<Rightarrow> refusal" where
  "global_refusal st r =
     \<lparr>scope = Global, reason = r, answer_code = reject_code (state_limits (st GLOBAL)),
      answer_retry_after = retry_after_secs (state_limits (st GLOBAL))\<rparr>"

record admission_permit =
  permit_global :: "nat option"
  permit_groups :: "nat list"

definition permit_slots :: "admission_permit \<Rightarrow> nat list" where
  "permit_slots p = (case permit_global p of Some g \<Rightarrow> [g] | None \<Rightarrow> []) @ permit_groups p"

definition drop_permit :: "admission_permit \<Rightarrow> limit_store \<Rightarrow> limit_store" where
  "drop_permit p st = fold (\<lambda>k st. st(k := release_slot (st k))) (permit_slots p) st"

fun take_group_slots :: "group_limit list \<Rightarrow> admission_permit \<Rightarrow> limit_store \<Rightarrow> limit_store \<times> (refusal + admission_permit)" where
  "take_group_slots [] p st = (st, Inr p)"
| "take_group_slots (g # gs) p st =
     (let (s, ok) = try_take_slot (st (group_state g)); st1 = st(group_state g := s)
      in if ok then take_group_slots gs (p\<lparr>permit_groups := permit_groups p @ [group_state g]\<rparr>) st1
         else (drop_permit p st1, Inl (group_refusal st1 g Concurrent)))"

fun take_group_rates :: "nat \<Rightarrow> group_limit list \<Rightarrow> admission_permit \<Rightarrow> limit_store \<Rightarrow> limit_store \<times> (refusal + admission_permit)" where
  "take_group_rates now [] p st = (st, Inr p)"
| "take_group_rates now (g # gs) p st =
     (let (s, ok) = try_take_rate now (st (group_state g)); st1 = st(group_state g := s)
      in if ok then take_group_rates now gs p st1
         else (drop_permit p st1, Inl (group_refusal st1 g Rate)))"

definition admit_with :: "group_limit list \<Rightarrow> nat \<Rightarrow> limit_store \<Rightarrow> limit_store \<times> (refusal + admission_permit)" where
  "admit_with groups now st =
     (case take_group_slots groups \<lparr>permit_global = None, permit_groups = []\<rparr> st of
        (st1, Inl r) \<Rightarrow> (st1, Inl r)
      | (st1, Inr p) \<Rightarrow>
          (let (s, ok) = try_take_slot (st1 GLOBAL); st2 = st1(GLOBAL := s)
           in if \<not> ok then (drop_permit p st2, Inl (global_refusal st2 Concurrent))
              else
                (let p' = p\<lparr>permit_global := Some GLOBAL\<rparr>
                 in case take_group_rates now groups p' st2 of
                      (st3, Inl r) \<Rightarrow> (st3, Inl r)
                    | (st3, Inr _) \<Rightarrow>
                        (let (s', ok') = try_take_rate now (st3 GLOBAL); st4 = st3(GLOBAL := s')
                         in if ok' then (st4, Inr p')
                            else (drop_permit p' st4, Inl (global_refusal st4 Rate))))))"

definition admit_unrefused_from :: "group_limit list \<Rightarrow> limit_store \<Rightarrow> limit_store \<times> admission_permit" where
  "admit_unrefused_from groups st =
     (let st1 = st(GLOBAL := take_slot_unrefused (st GLOBAL));
          ks = map group_state groups
      in (fold (\<lambda>k st. st(k := take_slot_unrefused (st k))) ks st1,
          \<lparr>permit_global = Some GLOBAL, permit_groups = ks\<rparr>))"

definition is_emergency_service_urn :: "string \<Rightarrow> string \<Rightarrow> bool" where
  "is_emergency_service_urn scheme rest =
     (if to_lower scheme \<noteq> ''urn'' then False
      else if length rest < 11 then False
      else to_lower (take 11 rest) = ''service:sos'' \<and> (length rest = 11 \<or> rest ! 11 = CHR ''.''))"

subsection \<open>Calls side by side\<close>

text \<open>
  The code of a call's admission and of the drop of its permit as the atomic updates it is made of, each an
  action between which other calls act.  A call that is never refused takes the instance's slot first.
\<close>

datatype call_phase = TakingSlots "nat list" | TakingRates "nat list" | CallUp | Releasing

record admission_call =
  call_refusable :: bool
  call_scopes :: "nat list"
  call_phase :: call_phase
  call_held :: "nat list"

definition arriving :: "group_limit list \<Rightarrow> admission_call" where
  "arriving groups =
     (let ks = map group_state groups @ [GLOBAL]
      in \<lparr>call_refusable = True, call_scopes = ks, call_phase = TakingSlots ks, call_held = []\<rparr>)"

definition arriving_unrefused :: "group_limit list \<Rightarrow> admission_call" where
  "arriving_unrefused groups =
     (let ks = GLOBAL # map group_state groups
      in \<lparr>call_refusable = False, call_scopes = ks, call_phase = TakingSlots ks, call_held = []\<rparr>)"

definition call_action :: "nat \<Rightarrow> limit_store \<Rightarrow> admission_call \<Rightarrow> limit_store \<times> admission_call" where
  "call_action now st c =
     (case call_phase c of
        TakingSlots (k # ks) \<Rightarrow>
          (let (s, ok) = (if call_refusable c then try_take_slot (st k) else (take_slot_unrefused (st k), True))
           in (st(k := s),
               if ok then c\<lparr>call_phase := TakingSlots ks, call_held := call_held c @ [k]\<rparr>
               else c\<lparr>call_phase := Releasing\<rparr>))
      | TakingSlots [] \<Rightarrow>
          (st, c\<lparr>call_phase := (if call_refusable c then TakingRates (call_scopes c) else CallUp)\<rparr>)
      | TakingRates (k # ks) \<Rightarrow>
          (let (s, ok) = try_take_rate now (st k)
           in (st(k := s), c\<lparr>call_phase := (if ok then TakingRates ks else Releasing)\<rparr>))
      | TakingRates [] \<Rightarrow> (st, c\<lparr>call_phase := CallUp\<rparr>)
      | CallUp \<Rightarrow> (st, c\<lparr>call_phase := Releasing\<rparr>)
      | Releasing \<Rightarrow>
          (case call_held c of
             [] \<Rightarrow> (st, c)
           | k # ks \<Rightarrow> (st(k := release_slot (st k)), c\<lparr>call_held := ks\<rparr>)))"

datatype admission_event =
    Arrive "group_limit list"
  | ArriveUnrefused "group_limit list"
  | Act nat nat
  | SetLimits nat inbound_limits

fun admission_step :: "admission_event \<Rightarrow> limit_store \<times> admission_call list \<Rightarrow> limit_store \<times> admission_call list" where
  "admission_step (Arrive groups) (st, cs) = (st, cs @ [arriving groups])"
| "admission_step (ArriveUnrefused groups) (st, cs) = (st, cs @ [arriving_unrefused groups])"
| "admission_step (Act i now) (st, cs) =
     (if i < length cs then (let (st', c) = call_action now st (cs ! i) in (st', cs[i := c])) else (st, cs))"
| "admission_step (SetLimits k l) (st, cs) = (st(k := set_limits l (st k)), cs)"

definition admission_run :: "(nat \<Rightarrow> inbound_limits) \<Rightarrow> admission_event list \<Rightarrow> limit_store \<times> admission_call list" where
  "admission_run limits es = foldl (\<lambda>s e. admission_step e s) (\<lambda>k. limit_state_new (limits k), []) es"

subsection \<open>Refusals remembered\<close>

definition REFUSAL_TTL :: nat where
  "REFUSAL_TTL = 32 * NANOS_PER_SECOND"

definition MAX_REMEMBERED :: nat where
  "MAX_REMEMBERED = 65536"

record refused_answer =
  ra_reject_code :: nat
  ra_retry_after_secs :: nat

text \<open>The hash of a Call-ID and a branch under the seed of the process is a parameter.\<close>

record refused_invites =
  ri_entries :: "(nat \<times> refused_answer \<times> nat) list"
  ri_remembered :: nat
  ri_ceiling :: nat

definition with_ceiling :: "nat \<Rightarrow> refused_invites" where
  "with_ceiling n = \<lparr>ri_entries = [], ri_remembered = 0, ri_ceiling = n\<rparr>"

definition lookup_at :: "(string \<Rightarrow> string \<Rightarrow> nat) \<Rightarrow> string \<Rightarrow> string \<Rightarrow> nat \<Rightarrow> refused_invites \<Rightarrow> refused_answer option" where
  "lookup_at hash call_id branch now t =
     (if ri_remembered t = 0 then None
      else case map_of (ri_entries t) (hash call_id branch) of
        None \<Rightarrow> None
      | Some (answer, refused_at) \<Rightarrow> if now - refused_at < REFUSAL_TTL then Some answer else None)"

definition remember :: "(string \<Rightarrow> string \<Rightarrow> nat) \<Rightarrow> string \<Rightarrow> string \<Rightarrow> refused_answer \<Rightarrow> nat \<Rightarrow> refused_invites \<Rightarrow> refused_invites" where
  "remember hash call_id branch answer now t =
     (if ri_ceiling t \<le> ri_remembered t then t
      else
        (let key = hash call_id branch; entries = AList.update key (answer, now) (ri_entries t)
         in case map_of (ri_entries t) key of
              Some _ \<Rightarrow> t\<lparr>ri_entries := entries\<rparr>
            | None \<Rightarrow> t\<lparr>ri_entries := entries, ri_remembered := ri_remembered t + 1\<rparr>))"

definition forget :: "(string \<Rightarrow> string \<Rightarrow> nat) \<Rightarrow> string \<Rightarrow> string \<Rightarrow> refused_invites \<Rightarrow> refused_invites" where
  "forget hash call_id branch t =
     (if ri_remembered t = 0 then t
      else
        (let key = hash call_id branch
         in case map_of (ri_entries t) key of
              None \<Rightarrow> t
            | Some _ \<Rightarrow> t\<lparr>ri_entries := AList.delete key (ri_entries t), ri_remembered := ri_remembered t - 1\<rparr>))"

definition prune :: "nat \<Rightarrow> refused_invites \<Rightarrow> refused_invites" where
  "prune now t =
     (if ri_remembered t = 0 then t
      else
        (let kept = filter (\<lambda>(k, a, at). now - at < REFUSAL_TTL) (ri_entries t)
         in t\<lparr>ri_entries := kept, ri_remembered := ri_remembered t - (length (ri_entries t) - length kept)\<rparr>))"

end
