(* ===== verification/Admission_Facts.thy ===== *)
theory Admission_Facts
  imports Admission "HOL-Library.Multiset"
begin

text \<open>
  Admission control keeps its counters equal to the calls that hold a slot, however the calls interleave, and
  its rate limiter is exact.
\<close>

subsection \<open>Slots\<close>

lemma update_cas_atomic:
  "\<exists>found. update_cas next current actuals = (found, next found) \<and> (found = current \<or> found \<in> set actuals)"
  by (induction actuals arbitrary: current) (subst update_cas.simps; force split: option.splits)+

definition slot_holders :: "nat \<Rightarrow> admission_call list \<Rightarrow> nat" where
  "slot_holders k cs = (\<Sum>c \<leftarrow> cs. count_list (call_held c) k)"

definition refusable_holders :: "nat \<Rightarrow> admission_call list \<Rightarrow> nat" where
  "refusable_holders k cs = slot_holders k (filter call_refusable cs)"

lemma holders_simps [simp]:
  "slot_holders k [] = 0" "slot_holders k (c # cs) = count_list (call_held c) k + slot_holders k cs"
  "slot_holders k (cs @ ds) = slot_holders k cs + slot_holders k ds"
  by (simp_all add: slot_holders_def)

lemma holders_update: "i < length cs \<Longrightarrow> slot_holders k (cs[i := c]) + count_list (call_held (cs ! i)) k = slot_holders k cs + count_list (call_held c) k"
  by (induction cs arbitrary: i) (auto split: nat.splits)

lemma refusable_update:
  "i < length cs \<Longrightarrow> call_refusable c = call_refusable (cs ! i) \<Longrightarrow>
     refusable_holders k (cs[i := c]) + (if call_refusable c then count_list (call_held (cs ! i)) k else 0)
     = refusable_holders k cs + (if call_refusable c then count_list (call_held c) k else 0)"
  by (induction cs arbitrary: i) (auto simp: refusable_holders_def split: nat.splits)

lemma refusable_le: "refusable_holders k cs \<le> slot_holders k cs"
  by (induction cs) (auto simp: refusable_holders_def)

lemma held_le: "i < length cs \<Longrightarrow> count_list (call_held (cs ! i)) k \<le> slot_holders k cs"
  by (induction cs arbitrary: i) (auto simp: nth_Cons' intro: trans_le_add2)

lemma call_action_active:
  assumes "call_action now st c = (st', c')" and "\<And>j. active (st j) < 2 ^ 32 - 1"
    and "\<And>j. count_list (call_held c) j \<le> active (st j)"
  shows "active (st' k) + count_list (call_held c) k = active (st k) + count_list (call_held c') k"
    and "count_list (call_held c') k \<le> count_list (call_held c) k + 1"
    and "call_refusable c' = call_refusable c"
    and "state_limits (st' k) = state_limits (st k)"
    and "call_refusable c \<Longrightarrow> count_list (call_held c) k < count_list (call_held c') k \<Longrightarrow>
      0 < max_concurrent_calls (state_limits (st k)) \<Longrightarrow> active (st' k) \<le> max_concurrent_calls (state_limits (st k))"
  using assms(1) assms(2) [of k] assms(3) [of k]
  by (auto simp: call_action_def try_take_slot_def take_slot_unrefused_def release_slot_def try_take_rate_def
      update_atomic_def next_slot_def Let_def split: call_phase.splits list.splits if_splits option.splits)

definition counts_right :: "limit_store \<times> admission_call list \<Rightarrow> bool" where
  "counts_right s \<longleftrightarrow> (\<forall>k. active (fst s k) = slot_holders k (snd s))"

lemma admission_step_counts:
  assumes "counts_right (st, cs)" and "\<And>k. slot_holders k cs < 2 ^ 32 - 1" and "admission_step e (st, cs) = (st', cs')"
  shows "counts_right (st', cs')" and "slot_holders k cs' \<le> slot_holders k cs + 1"
    and "(\<forall>l. e \<noteq> SetLimits k l) \<Longrightarrow> state_limits (st' k) = state_limits (st k)"
    and "refusable_holders k cs \<le> max_concurrent_calls (state_limits (st k)) \<Longrightarrow>
      0 < max_concurrent_calls (state_limits (st k)) \<Longrightarrow> refusable_holders k cs' \<le> max_concurrent_calls (state_limits (st k))"
proof -
  have "counts_right (st', cs') \<and> slot_holders k cs' \<le> slot_holders k cs + 1 \<and>
    ((\<forall>l. e \<noteq> SetLimits k l) \<longrightarrow> state_limits (st' k) = state_limits (st k)) \<and>
    (refusable_holders k cs \<le> max_concurrent_calls (state_limits (st k)) \<and>
      0 < max_concurrent_calls (state_limits (st k)) \<longrightarrow> refusable_holders k cs' \<le> max_concurrent_calls (state_limits (st k)))"
  proof (cases e)
    case (Act i now)
    show ?thesis
    proof (cases "i < length cs")
      case True
      obtain c where act: "call_action now st (cs ! i) = (st', c)" and cs': "cs' = cs[i := c]"
        using assms(3) Act True by (auto split: prod.splits)
      have act_k: "active (st j) < 2 ^ 32 - 1" "count_list (call_held (cs ! i)) j \<le> active (st j)" for j
        using assms(1,2) held_le [OF True, of j] by (auto simp: counts_right_def)
      note spec = call_action_active [OF act act_k]
      have h: "slot_holders j cs' = active (st' j)" for j
        using holders_update [OF True, of j c] spec(1) [of j] assms(1) by (simp add: cs' counts_right_def)
      have "refusable_holders k cs' \<le> max_concurrent_calls (state_limits (st k))"
        if "refusable_holders k cs \<le> max_concurrent_calls (state_limits (st k))" "0 < max_concurrent_calls (state_limits (st k))"
      proof (cases "call_refusable c \<and> count_list (call_held (cs ! i)) k < count_list (call_held c) k")
        case True
        then have "active (st' k) \<le> max_concurrent_calls (state_limits (st k))" using spec(3,5) that(2) by simp
        then show ?thesis using refusable_le [of k cs'] h [of k] by simp
      next
        case False
        then show ?thesis using refusable_update [OF True, of c k] spec(3) that(1) cs' by (auto split: if_splits)
      qed
      then show ?thesis
        using h spec(2) [of k] spec(4) [of k] holders_update [OF True, of k c]
        by (auto simp: counts_right_def cs')
    qed (use assms Act in auto)
  qed (use assms in \<open>auto simp: counts_right_def arriving_def arriving_unrefused_def refusable_holders_def set_limits_def Let_def\<close>)
  then show "counts_right (st', cs')" and "slot_holders k cs' \<le> slot_holders k cs + 1"
    and "(\<forall>l. e \<noteq> SetLimits k l) \<Longrightarrow> state_limits (st' k) = state_limits (st k)"
    and "refusable_holders k cs \<le> max_concurrent_calls (state_limits (st k)) \<Longrightarrow>
      0 < max_concurrent_calls (state_limits (st k)) \<Longrightarrow> refusable_holders k cs' \<le> max_concurrent_calls (state_limits (st k))"
    by blast+
qed

lemma admission_run_counts:
  assumes "length es < 2 ^ 32" and "admission_run limits es = (st, cs)"
  shows "counts_right (st, cs) \<and> slot_holders k cs \<le> length es"
  using assms
proof (induction es arbitrary: st cs k rule: rev_induct)
  case Nil
  then show ?case by (auto simp: admission_run_def counts_right_def limit_state_new_def)
next
  case (snoc e es)
  obtain st0 cs0 where s0: "admission_run limits es = (st0, cs0)" by force
  have IH: "counts_right (st0, cs0)" "\<And>j. slot_holders j cs0 \<le> length es" using snoc s0 by auto
  have "admission_step e (st0, cs0) = (st, cs)" using snoc.prems(2) s0 by (simp add: admission_run_def)
  from admission_step_counts [OF IH(1) _ this] show ?case
    using IH(2) snoc.prems(1) by (metis (no_types, lifting) Suc_eq_plus1 Suc_lessD add_le_mono1 add_less_le_mono
        le_trans length_append_singleton less_diff_conv order_le_less_trans)
qed

subsection \<open>One decision\<close>

definition has_room :: "limit_state \<Rightarrow> bool" where
  "has_room s \<longleftrightarrow> max_concurrent_calls (state_limits s) = 0 \<or> active s < max_concurrent_calls (state_limits s)"

definition conforms :: "nat \<Rightarrow> limit_state \<Rightarrow> bool" where
  "conforms now s \<longleftrightarrow> max_calls_per_second (state_limits s) = 0 \<or>
     theoretical_arrival_nanos s \<le> min (min now u64_max + burst_tolerance (max_calls_per_second (state_limits s))) u64_max"

definition slots_taken :: "nat list \<Rightarrow> limit_store \<Rightarrow> limit_store" where
  "slots_taken ks st = (\<lambda>k. (st k)\<lparr>active := active (st k) + count_list ks k\<rparr>)"

lemma try_take_slot_eq:
  "active s < 2 ^ 32 - 1 \<Longrightarrow> try_take_slot s = (if has_room s then (s\<lparr>active := active s + 1\<rparr>, True) else (s, False))"
  by (auto simp: try_take_slot_def has_room_def update_atomic_def next_slot_def Let_def)

lemma try_take_rate_eq:
  "snd (try_take_rate now s) = conforms now s"
  "\<not> conforms now s \<Longrightarrow> fst (try_take_rate now s) = s"
  "active (fst (try_take_rate now s)) = active s" "state_limits (fst (try_take_rate now s)) = state_limits s"
  by (auto simp: try_take_rate_def conforms_def update_atomic_def next_arrival_def Let_def)

lemma drop_slots:
  "fold (\<lambda>k st. st(k := release_slot (st k))) ks st = (\<lambda>k. (st k)\<lparr>active := active (st k) - count_list ks k\<rparr>)"
  by (induction ks arbitrary: st) (auto simp: release_slot_def update_atomic_def fun_eq_iff)

lemma drop_permit_eq: "drop_permit p st = (\<lambda>k. (st k)\<lparr>active := active (st k) - count_list (permit_slots p) k\<rparr>)"
  by (simp add: drop_permit_def drop_slots)

lemma group_refusal_limits: "(\<And>k. state_limits (st k) = state_limits (st' k)) \<Longrightarrow> group_refusal st g r = group_refusal st' g r"
  by (simp add: group_refusal_def)

lemma take_group_slots_spec:
  assumes "distinct (map group_state gs)" and "\<And>g. g \<in> set gs \<Longrightarrow> active (st (group_state g)) < 2 ^ 32 - 1" and "permit_global p = None"
  shows "(\<exists>g \<in> set gs. \<not> has_room (st (group_state g)) \<and>
       take_group_slots gs p st = (drop_permit p st, Inl (group_refusal st g Concurrent))) \<or>
     (\<forall>g \<in> set gs. has_room (st (group_state g))) \<and>
       take_group_slots gs p st = (slots_taken (map group_state gs) st, Inr (p\<lparr>permit_groups := permit_groups p @ map group_state gs\<rparr>))"
  using assms
proof (induction gs arbitrary: p st)
  case Nil
  then show ?case by (simp add: slots_taken_def)
next
  case (Cons g gs)
  let ?k = "group_state g"
  show ?case
  proof (cases "has_room (st ?k)")
    case False
    then have "take_group_slots (g # gs) p st = (drop_permit p st, Inl (group_refusal st g Concurrent))"
      using Cons.prems(2) by (simp add: try_take_slot_eq)
    then show ?thesis using False by auto
  next
    case True
    define st1 where "st1 = st(?k := (st ?k)\<lparr>active := active (st ?k) + 1\<rparr>)"
    define p1 where "p1 = p\<lparr>permit_groups := permit_groups p @ [?k]\<rparr>"
    have step: "take_group_slots (g # gs) p st = take_group_slots gs p1 st1"
      using True Cons.prems(2) by (simp add: try_take_slot_eq st1_def p1_def)
    have same: "st1 (group_state h) = st (group_state h)" if "h \<in> set gs" for h
      using that Cons.prems(1) by (auto simp: st1_def) (metis imageI)
    have undone: "drop_permit p1 st1 = drop_permit p st"
      using Cons.prems(3) by (auto simp: drop_permit_eq p1_def st1_def permit_slots_def fun_eq_iff)
    have lim: "group_refusal st1 h r = group_refusal st h r" for h r by (rule group_refusal_limits) (simp add: st1_def)
    have fin: "slots_taken (map group_state gs) st1 = slots_taken (map group_state (g # gs)) st"
      "p1\<lparr>permit_groups := permit_groups p1 @ map group_state gs\<rparr> = p\<lparr>permit_groups := permit_groups p @ map group_state (g # gs)\<rparr>"
      by (auto simp: slots_taken_def st1_def p1_def fun_eq_iff)
    have IH: "(\<exists>g \<in> set gs. \<not> has_room (st1 (group_state g)) \<and>
       take_group_slots gs p1 st1 = (drop_permit p1 st1, Inl (group_refusal st1 g Concurrent))) \<or>
     (\<forall>g \<in> set gs. has_room (st1 (group_state g))) \<and>
       take_group_slots gs p1 st1 = (slots_taken (map group_state gs) st1, Inr (p1\<lparr>permit_groups := permit_groups p1 @ map group_state gs\<rparr>))"
      using Cons.IH [of st1 p1] Cons.prems same by (simp add: p1_def)
    then show ?thesis
      unfolding step undone lim fin using True same by (metis list.set_intros(2) set_ConsD)
  qed
qed

lemma take_group_rates_spec:
  assumes "distinct (map group_state gs)"
  shows "(\<exists>g \<in> set gs. \<exists>st'. \<not> conforms now (st (group_state g)) \<and>
       take_group_rates now gs p st = (drop_permit p st', Inl (group_refusal st g Rate)) \<and>
       (\<forall>k. active (st' k) = active (st k) \<and> state_limits (st' k) = state_limits (st k))) \<or>
     (\<exists>st'. (\<forall>g \<in> set gs. conforms now (st (group_state g))) \<and> take_group_rates now gs p st = (st', Inr p) \<and>
       (\<forall>k. active (st' k) = active (st k) \<and> state_limits (st' k) = state_limits (st k)) \<and>
       (\<forall>k. k \<notin> group_state ` set gs \<longrightarrow> st' k = st k))"
  using assms
proof (induction gs arbitrary: st)
  case Nil
  then show ?case by simp
next
  case (Cons g gs)
  let ?k = "group_state g"
  obtain s ok where tr: "try_take_rate now (st ?k) = (s, ok)" by force
  have s: "ok = conforms now (st ?k)" "active s = active (st ?k)" "state_limits s = state_limits (st ?k)"
    using try_take_rate_eq [of now "st ?k"] tr by auto
  define st1 where "st1 = st(?k := s)"
  have keep: "active (st1 k) = active (st k)" "state_limits (st1 k) = state_limits (st k)" for k
    using s by (auto simp: st1_def)
  have lim: "group_refusal st1 h r = group_refusal st h r" for h r by (rule group_refusal_limits) (simp add: keep)
  show ?case
  proof (cases ok)
    case False
    then have "take_group_rates now (g # gs) p st = (drop_permit p st1, Inl (group_refusal st g Rate))"
      using tr lim by (simp add: st1_def)
    then show ?thesis using False s keep by auto
  next
    case True
    then have step: "take_group_rates now (g # gs) p st = take_group_rates now gs p st1" using tr by (simp add: st1_def)
    have same: "st1 (group_state h) = st (group_state h)" if "h \<in> set gs" for h
      using that Cons.prems by (auto simp: st1_def) (metis imageI)
    have other: "st1 k = st k" if "k \<notin> group_state ` set (g # gs)" for k using that by (simp add: st1_def)
    from Cons.prems have "distinct (map group_state gs)" by simp
    from Cons.IH [OF this, of st1] show ?thesis
      unfolding lim keep
    proof (elim disjE bexE exE conjE)
      fix h st'
      assume h: "h \<in> set gs" "\<not> conforms now (st1 (group_state h))"
        "take_group_rates now gs p st1 = (drop_permit p st', Inl (group_refusal st h Rate))"
        "\<forall>k. active (st' k) = active (st k) \<and> state_limits (st' k) = state_limits (st k)"
      then have "h \<in> set (g # gs)" "\<not> conforms now (st (group_state h))" using same by auto
      then show ?thesis unfolding step using h(3,4) by blast
    next
      fix st'
      assume h: "\<forall>g \<in> set gs. conforms now (st1 (group_state g))" "take_group_rates now gs p st1 = (st', Inr p)"
        "\<forall>k. active (st' k) = active (st k) \<and> state_limits (st' k) = state_limits (st k)"
        "\<forall>k. k \<notin> group_state ` set gs \<longrightarrow> st' k = st1 k"
      then have "\<forall>g \<in> set (g # gs). conforms now (st (group_state g))" "\<forall>k. k \<notin> group_state ` set (g # gs) \<longrightarrow> st' k = st k"
        using same other True s(1) by auto
      then show ?thesis unfolding step using h(2,3) by blast
    qed
  qed
qed

definition call_scopes_of :: "group_limit list \<Rightarrow> nat list" where
  "call_scopes_of gs = map group_state gs @ [GLOBAL]"

lemma take_global_eq:
  assumes "GLOBAL \<notin> set (map group_state gs)" and "\<And>k. active (st k) < 2 ^ 32 - 1"
  shows "try_take_slot (slots_taken (map group_state gs) st GLOBAL) =
    (if has_room (st GLOBAL) then ((st GLOBAL)\<lparr>active := active (st GLOBAL) + 1\<rparr>, True) else (st GLOBAL, False))"
proof -
  have "slots_taken (map group_state gs) st GLOBAL = st GLOBAL" using assms(1) by (simp add: slots_taken_def)
  then show ?thesis using try_take_slot_eq assms(2) by simp
qed

lemma admit_with_cases:
  assumes "distinct (call_scopes_of gs)" and "\<And>k. active (st k) < 2 ^ 32 - 1"
  obtains
    (slot) r k where "admit_with gs now st = (st, Inl r)" and "reason r = Concurrent" and "k \<in> set (call_scopes_of gs)"
      and "\<not> has_room (st k)"
  | (rate) st' r k where "admit_with gs now st = (st', Inl r)" and "reason r = Rate" and "k \<in> set (call_scopes_of gs)"
      and "\<not> conforms now (st k)" and "\<forall>k \<in> set (call_scopes_of gs). has_room (st k)"
      and "\<forall>k. active (st' k) = active (st k)"
  | (up) st' p where "admit_with gs now st = (st', Inr p)" and "\<forall>k \<in> set (call_scopes_of gs). has_room (st k) \<and> conforms now (st k)"
      and "permit_slots p = GLOBAL # map group_state gs" and "\<forall>k. active (st' k) = active (st k) + count_list (call_scopes_of gs) k"
proof -
  let ?p = "\<lparr>permit_global = None, permit_groups = []\<rparr>" and ?ks = "map group_state gs"
  have d: "distinct ?ks" "GLOBAL \<notin> set ?ks" using assms(1) by (auto simp: call_scopes_of_def)
  have none: "drop_permit ?p st = st" by (simp add: drop_permit_eq permit_slots_def)
  note slots = take_group_slots_spec [OF d(1), of st ?p, simplified none]
  show thesis
  proof (cases "\<forall>g \<in> set gs. has_room (st (group_state g))")
    case False
    then obtain g where "g \<in> set gs" "\<not> has_room (st (group_state g))"
      "take_group_slots gs ?p st = (st, Inl (group_refusal st g Concurrent))" using slots assms(2) by auto
    then show thesis using slot [of "group_refusal st g Concurrent" "group_state g"]
      by (simp add: admit_with_def group_refusal_def call_scopes_of_def)
  next
    case room: True
    define p1 where "p1 = ?p\<lparr>permit_groups := ?ks\<rparr>"
    define st1 where "st1 = slots_taken ?ks st"
    have t: "take_group_slots gs ?p st = (st1, Inr p1)" using slots room assms(2) by (auto simp: p1_def st1_def)
    note tg = take_global_eq [of gs st, OF d(2) assms(2), folded st1_def]
    have g0: "st1 GLOBAL = st GLOBAL" using d(2) by (simp add: st1_def slots_taken_def)
    show thesis
    proof (cases "has_room (st GLOBAL)")
      case False
      have "drop_permit p1 (st1(GLOBAL := st GLOBAL)) = st"
        using count_notin [OF d(2)] by (auto simp: drop_permit_eq p1_def permit_slots_def st1_def slots_taken_def fun_eq_iff)
      then show thesis using slot [of "global_refusal (st1(GLOBAL := st GLOBAL)) Concurrent" GLOBAL] False t tg
        by (simp add: admit_with_def global_refusal_def call_scopes_of_def)
    next
      case room0: True
      define st2 where "st2 = st1(GLOBAL := (st GLOBAL)\<lparr>active := active (st GLOBAL) + 1\<rparr>)"
      define p2 where "p2 = p1\<lparr>permit_global := Some GLOBAL\<rparr>"
      have all_room: "\<forall>k \<in> set (call_scopes_of gs). has_room (st k)" using room room0 by (auto simp: call_scopes_of_def)
      have p2: "permit_slots p2 = GLOBAL # ?ks" by (simp add: p2_def p1_def permit_slots_def)
      have a2: "active (st2 k) = active (st k) + count_list (call_scopes_of gs) k"
        "conforms now (st2 k) = conforms now (st k)" for k
        using d(2) by (auto simp: st2_def st1_def slots_taken_def call_scopes_of_def conforms_def count_notin)
      have cs: "count_list (call_scopes_of gs) k = count_list (permit_slots p2) k" for k
        by (simp add: p2 call_scopes_of_def)
      have step: "admit_with gs now st =
          (case take_group_rates now gs p2 st2 of (st3, Inl r) \<Rightarrow> (st3, Inl r)
           | (st3, Inr _) \<Rightarrow> (let (s', ok') = try_take_rate now (st3 GLOBAL); st4 = st3(GLOBAL := s')
                         in if ok' then (st4, Inr p2) else (drop_permit p2 st4, Inl (global_refusal st4 Rate))))"
        unfolding admit_with_def t prod.case sum.case st2_def p2_def Let_def by (simp add: tg room0)
      from take_group_rates_spec [OF d(1), of now st2 p2] show thesis
      proof (elim disjE bexE exE conjE)
        fix g st'
        assume g: "g \<in> set gs" "\<not> conforms now (st2 (group_state g))"
          and e: "take_group_rates now gs p2 st2 = (drop_permit p2 st', Inl (group_refusal st2 g Rate))"
          and "\<forall>k. active (st' k) = active (st2 k) \<and> state_limits (st' k) = state_limits (st2 k)"
        then have "\<forall>k. active (drop_permit p2 st' k) = active (st k)" by (simp add: drop_permit_eq a2 cs)
        then show thesis using rate [of "drop_permit p2 st'" "group_refusal st2 g Rate" "group_state g"] step e g a2(2) all_room
          by (simp add: group_refusal_def call_scopes_of_def)
      next
        fix st'
        assume c: "\<forall>g \<in> set gs. conforms now (st2 (group_state g))" and e: "take_group_rates now gs p2 st2 = (st', Inr p2)"
          and a: "\<forall>k. active (st' k) = active (st2 k) \<and> state_limits (st' k) = state_limits (st2 k)"
          and o: "\<forall>k. k \<notin> group_state ` set gs \<longrightarrow> st' k = st2 k"
        obtain s ok where tr: "try_take_rate now (st' GLOBAL) = (s, ok)" by force
        have s: "ok = conforms now (st GLOBAL)" "active s = active (st2 GLOBAL)"
          using try_take_rate_eq [of now "st' GLOBAL"] tr o d(2) a2(2) by auto
        show thesis
        proof (cases ok)
          case True
          then show thesis using up [of "st'(GLOBAL := s)" p2] step e tr s c a a2 all_room p2 by (simp add: call_scopes_of_def)
        next
          case False
          have "\<forall>k. active (drop_permit p2 (st'(GLOBAL := s)) k) = active (st k)"
            using s(2) a a2(1) by (simp add: drop_permit_eq cs)
          then show thesis
            using rate [of "drop_permit p2 (st'(GLOBAL := s))" "global_refusal (st'(GLOBAL := s)) Rate" GLOBAL] False step e tr s(1) all_room
            by (simp add: global_refusal_def call_scopes_of_def)
        qed
      qed
    qed
  qed
qed

lemma count_distinct: "distinct xs \<Longrightarrow> count_list xs k = (if k \<in> set xs then 1 else 0)"
  by (induction xs) auto

lemma drop_after_admit:
  assumes "distinct (call_scopes_of gs)" and "\<And>k. active (st k) < 2 ^ 32 - 1" and "admit_with gs now st = (st', Inr p)"
  shows "active (drop_permit p st' k) = active (st k)"
proof (rule admit_with_cases [OF assms(1,2), of now])
  fix st2 p2
  assume "admit_with gs now st = (st2, Inr p2)" and "permit_slots p2 = GLOBAL # map group_state gs"
    and "\<forall>k. active (st2 k) = active (st k) + count_list (call_scopes_of gs) k"
  then show ?thesis using assms(3) by (simp add: drop_permit_eq call_scopes_of_def)
qed (use assms(3) in auto)

text \<open>
  C19.  The admission of one call.  A call is taken exactly when every scope it counts against, its gateway groups
  and then the instance, has a slot free and its rate conforms; it then holds one slot in each, which dropping
  its permit gives back.  A call refused for want of a slot leaves no trace at all, not even in a rate schedule,
  and one refused for a rate leaves every count of slots as it was.
\<close>

theorem admission_decision:
  assumes "distinct (call_scopes_of gs)" and "\<And>k. active (st k) < 2 ^ 32 - 1"
  shows "case admit_with gs now st of
      (st', Inr p) \<Rightarrow> (\<forall>k \<in> set (call_scopes_of gs). has_room (st k) \<and> conforms now (st k)) \<and>
        (\<forall>k. active (st' k) = active (st k) + (if k \<in> set (call_scopes_of gs) then 1 else 0)) \<and>
        (\<forall>k. active (drop_permit p st' k) = active (st k))
    | (st', Inl r) \<Rightarrow>
        (case reason r of
           Concurrent \<Rightarrow> st' = st \<and> (\<exists>k \<in> set (call_scopes_of gs). \<not> has_room (st k))
         | Rate \<Rightarrow> (\<forall>k. active (st' k) = active (st k)) \<and> (\<forall>k \<in> set (call_scopes_of gs). has_room (st k)) \<and>
             (\<exists>k \<in> set (call_scopes_of gs). \<not> conforms now (st k)))"
proof (rule admit_with_cases [OF assms, of now])
  have one: "count_list (call_scopes_of gs) k = (if k \<in> set (call_scopes_of gs) then 1 else 0)" for k
    using assms(1) by (rule count_distinct)
  fix st' p
  assume "admit_with gs now st = (st', Inr p)" and "\<forall>k \<in> set (call_scopes_of gs). has_room (st k) \<and> conforms now (st k)"
    and "\<forall>k. active (st' k) = active (st k) + count_list (call_scopes_of gs) k"
  then show ?thesis using one drop_after_admit [OF assms] by simp
qed auto

subsection \<open>A call by itself\<close>

definition alone :: "nat \<Rightarrow> limit_store \<times> admission_call \<Rightarrow> limit_store \<times> admission_call \<Rightarrow> bool" where
  "alone now s s' \<longleftrightarrow> s' = call_action now (fst s) (snd s)"

lemma alone_step: "call_action now st c = s \<Longrightarrow> (alone now)\<^sup>*\<^sup>* s s' \<Longrightarrow> (alone now)\<^sup>*\<^sup>* (st, c) s'"
  by (rule converse_rtranclp_into_rtranclp) (auto simp: alone_def)

lemma unchanged:
  "call_held c = h \<Longrightarrow> c\<lparr>call_held := h\<rparr> = c" "call_phase c = ph \<Longrightarrow> c\<lparr>call_phase := ph\<rparr> = c"
  "permit_groups p = g \<Longrightarrow> p\<lparr>permit_groups := g\<rparr> = p"
  by auto

lemma alone_release:
  "call_phase c = Releasing \<Longrightarrow>
     (alone now)\<^sup>*\<^sup>* (st, c) (\<lambda>k. (st k)\<lparr>active := active (st k) - count_list (call_held c) k\<rparr>, c\<lparr>call_held := []\<rparr>)"
proof (induction "call_held c" arbitrary: c st)
  case Nil
  then show ?case by (simp add: unchanged)
next
  case (Cons k ks)
  let ?st = "st(k := release_slot (st k))" and ?c = "c\<lparr>call_held := ks\<rparr>"
  have "call_action now st c = (?st, ?c)" using Cons.prems Cons.hyps(2) [symmetric] by (simp add: call_action_def)
  moreover have "(alone now)\<^sup>*\<^sup>* (?st, ?c) (\<lambda>j. (?st j)\<lparr>active := active (?st j) - count_list ks j\<rparr>, ?c\<lparr>call_held := []\<rparr>)"
    using Cons.hyps(1) [of ?c ?st] Cons.prems by simp
  moreover have "(\<lambda>j. (?st j)\<lparr>active := active (?st j) - count_list ks j\<rparr>) =
      (\<lambda>j. (st j)\<lparr>active := active (st j) - count_list (call_held c) j\<rparr>)"
    using Cons.hyps(2) [symmetric] by (auto simp: release_slot_def update_atomic_def fun_eq_iff)
  ultimately show ?case by (intro alone_step) auto
qed

lemma alone_drop:
  assumes "call_phase c = Releasing" and "mset (call_held c) = mset (permit_slots p)"
  shows "(alone now)\<^sup>*\<^sup>* (st, c) (drop_permit p st, c\<lparr>call_held := []\<rparr>)"
  using alone_release [OF assms(1), of now st] assms(2) by (simp add: drop_permit_eq flip: count_mset)

lemma alone_slots:
  assumes "call_phase c = TakingSlots (map group_state gs @ ks)" and "call_refusable c"
    and "permit_slots p = call_held c" and "permit_global p = None"
  shows "case take_group_slots gs p st of
      (st', Inl r) \<Rightarrow> (alone now)\<^sup>*\<^sup>* (st, c) (st', c\<lparr>call_phase := Releasing, call_held := []\<rparr>)
    | (st', Inr p') \<Rightarrow> (alone now)\<^sup>*\<^sup>* (st, c) (st', c\<lparr>call_phase := TakingSlots ks, call_held := call_held c @ map group_state gs\<rparr>) \<and>
        p' = p\<lparr>permit_groups := permit_groups p @ map group_state gs\<rparr>"
  using assms
proof (induction gs arbitrary: c p st)
  case Nil
  then show ?case by (simp add: unchanged)
next
  case (Cons g gs)
  obtain s ok where t: "try_take_slot (st (group_state g)) = (s, ok)" by force
  let ?st = "st(group_state g := s)"
  show ?case
  proof (cases ok)
    case False
    then have act: "call_action now st c = (?st, c\<lparr>call_phase := Releasing\<rparr>)"
      using t Cons.prems by (simp add: call_action_def)
    have "(alone now)\<^sup>*\<^sup>* (?st, c\<lparr>call_phase := Releasing\<rparr>) (drop_permit p ?st, c\<lparr>call_phase := Releasing, call_held := []\<rparr>)"
      using alone_drop [of "c\<lparr>call_phase := Releasing\<rparr>" p now ?st] Cons.prems(3) by simp
    then show ?thesis using alone_step [OF act] t False by (simp add: Let_def)
  next
    case True
    define c1 where "c1 = c\<lparr>call_phase := TakingSlots (map group_state gs @ ks), call_held := call_held c @ [group_state g]\<rparr>"
    define p1 where "p1 = p\<lparr>permit_groups := permit_groups p @ [group_state g]\<rparr>"
    define st1 where "st1 = ?st"
    have act: "call_action now st c = (st1, c1)" using t True Cons.prems by (simp add: call_action_def c1_def st1_def)
    have c1: "call_phase c1 = TakingSlots (map group_state gs @ ks)" "call_refusable c1" "permit_slots p1 = call_held c1"
      "permit_global p1 = None" "call_held c1 = call_held c @ [group_state g]"
      "\<And>ph h. c1\<lparr>call_phase := ph, call_held := h\<rparr> = c\<lparr>call_phase := ph, call_held := h\<rparr>"
      using Cons.prems by (simp_all add: p1_def c1_def permit_slots_def)
    have p1: "p1\<lparr>permit_groups := permit_groups p1 @ map group_state gs\<rparr> = p\<lparr>permit_groups := permit_groups p @ map group_state (g # gs)\<rparr>"
      by (simp add: p1_def)
    have step: "take_group_slots (g # gs) p st = take_group_slots gs p1 st1" using t True by (simp add: p1_def st1_def)
    obtain st' res where R: "take_group_slots gs p1 st1 = (st', res)" by force
    note IH = Cons.IH [OF c1(1-4), of st1, unfolded R p1 c1(5,6) prod.case]
    show ?thesis unfolding step R prod.case
      by (cases res) (use IH alone_step [OF act] in auto)
  qed
qed

lemma alone_rates:
  assumes "call_phase c = TakingRates (map group_state gs @ ks)" and "mset (permit_slots p) = mset (call_held c)"
  shows "case take_group_rates now gs p st of
      (st', Inl r) \<Rightarrow> (alone now)\<^sup>*\<^sup>* (st, c) (st', c\<lparr>call_phase := Releasing, call_held := []\<rparr>)
    | (st', Inr p') \<Rightarrow> (alone now)\<^sup>*\<^sup>* (st, c) (st', c\<lparr>call_phase := TakingRates ks\<rparr>)"
  using assms
proof (induction gs arbitrary: c st)
  case Nil
  then show ?case by (simp add: unchanged)
next
  case (Cons g gs)
  obtain s ok where t: "try_take_rate now (st (group_state g)) = (s, ok)" by force
  let ?st = "st(group_state g := s)"
  show ?case
  proof (cases ok)
    case False
    then have act: "call_action now st c = (?st, c\<lparr>call_phase := Releasing\<rparr>)"
      using t Cons.prems by (simp add: call_action_def)
    have "(alone now)\<^sup>*\<^sup>* (?st, c\<lparr>call_phase := Releasing\<rparr>) (drop_permit p ?st, c\<lparr>call_phase := Releasing, call_held := []\<rparr>)"
      using alone_drop [of "c\<lparr>call_phase := Releasing\<rparr>" p now ?st] Cons.prems(2) by simp
    then show ?thesis using alone_step [OF act] t False by (simp add: Let_def)
  next
    case True
    define c1 where "c1 = c\<lparr>call_phase := TakingRates (map group_state gs @ ks)\<rparr>"
    define st1 where "st1 = ?st"
    have act: "call_action now st c = (st1, c1)" using t True Cons.prems by (simp add: call_action_def c1_def st1_def)
    have c1: "call_phase c1 = TakingRates (map group_state gs @ ks)" "mset (permit_slots p) = mset (call_held c1)"
      "\<And>ph. c1\<lparr>call_phase := ph\<rparr> = c\<lparr>call_phase := ph\<rparr>" using Cons.prems by (simp_all add: c1_def)
    have step: "take_group_rates now (g # gs) p st = take_group_rates now gs p st1" using t True by (simp add: st1_def)
    obtain st' res where R: "take_group_rates now gs p st1 = (st', res)" by force
    note IH = Cons.IH [OF c1(1,2), of st1, unfolded R c1(3) prod.case]
    show ?thesis unfolding step R prod.case
      by (cases res) (use IH alone_step [OF act] in auto)
  qed
qed

definition call_after :: "group_limit list \<Rightarrow> refusal + admission_permit \<Rightarrow> admission_call" where
  "call_after gs res = (arriving gs)\<lparr>call_phase := (case res of Inl _ \<Rightarrow> Releasing | Inr _ \<Rightarrow> CallUp),
     call_held := (case res of Inl _ \<Rightarrow> [] | Inr _ \<Rightarrow> call_scopes_of gs)\<rparr>"

lemma call_after_simps:
  "call_after gs (Inl r) = (arriving gs)\<lparr>call_phase := Releasing, call_held := []\<rparr>"
  "call_after gs (Inr p) = (arriving gs)\<lparr>call_phase := CallUp, call_held := call_scopes_of gs\<rparr>"
  by (simp_all add: call_after_def)

lemma take_group_rates_permit: "take_group_rates now gs p st = (st', Inr p') \<Longrightarrow> p' = p"
  by (induction gs arbitrary: st) (auto simp: Let_def split: prod.splits if_splits)

lemma admit_alone: "(alone now)\<^sup>*\<^sup>* (st, arriving gs) (fst (admit_with gs now st), call_after gs (snd (admit_with gs now st)))"
proof -
  let ?p = "\<lparr>permit_global = None, permit_groups = []\<rparr>" and ?c = "arriving gs" and ?ks = "map group_state gs"
  have c: "call_phase ?c = TakingSlots (?ks @ [GLOBAL])" "call_refusable ?c" "permit_slots ?p = call_held ?c" "permit_global ?p = None"
    "call_held ?c = []" "call_scopes ?c = ?ks @ [GLOBAL]" by (simp_all add: arriving_def permit_slots_def Let_def)
  obtain st1 res where R: "take_group_slots gs ?p st = (st1, res)" by force
  note sl = alone_slots [where st = st and now = now, OF c(1-4), unfolded R prod.case]
  show ?thesis
  proof (cases res)
    case (Inl r)
    then show ?thesis using sl R by (simp add: admit_with_def call_after_simps)
  next
    case (Inr p1)
    define c1 where "c1 = ?c\<lparr>call_phase := TakingSlots [GLOBAL], call_held := ?ks\<rparr>"
    have to1: "(alone now)\<^sup>*\<^sup>* (st, ?c) (st1, c1)" and p1: "p1 = ?p\<lparr>permit_groups := ?ks\<rparr>"
      using sl Inr c(5) by (simp_all add: c1_def)
    obtain s ok where t: "try_take_slot (st1 GLOBAL) = (s, ok)" by force
    define st2 where "st2 = st1(GLOBAL := s)"
    show ?thesis
    proof (cases ok)
      case False
      then have act: "call_action now st1 c1 = (st2, c1\<lparr>call_phase := Releasing\<rparr>)"
        using t c(2) by (simp add: call_action_def c1_def st2_def)
      have "(alone now)\<^sup>*\<^sup>* (st2, c1\<lparr>call_phase := Releasing\<rparr>) (drop_permit p1 st2, call_after gs (Inl r))" for r
        using alone_drop [of "c1\<lparr>call_phase := Releasing\<rparr>" p1 now st2] by (simp add: call_after_simps c1_def p1 permit_slots_def)
      then have "(alone now)\<^sup>*\<^sup>* (st, ?c) (drop_permit p1 st2, call_after gs (Inl r))" for r
        using rtranclp_trans [OF to1 alone_step [OF act]] by blast
      then show ?thesis using R Inr t False by (simp add: admit_with_def st2_def Let_def)
    next
      case True
      define p2 where "p2 = p1\<lparr>permit_global := Some GLOBAL\<rparr>"
      define c2 where "c2 = ?c\<lparr>call_phase := TakingRates (?ks @ [GLOBAL]), call_held := ?ks @ [GLOBAL]\<rparr>"
      have "call_action now st1 c1 = (st2, c1\<lparr>call_phase := TakingSlots [], call_held := ?ks @ [GLOBAL]\<rparr>)"
        using t c(2) True by (simp add: call_action_def c1_def st2_def)
      moreover have "call_action now st2 (c1\<lparr>call_phase := TakingSlots [], call_held := ?ks @ [GLOBAL]\<rparr>) = (st2, c2)"
        using c(2,6) by (simp add: call_action_def c1_def c2_def)
      ultimately have to2: "(alone now)\<^sup>*\<^sup>* (st, ?c) (st2, c2)"
        using rtranclp_trans [OF to1] alone_step rtranclp.rtrancl_refl by metis
      have c2: "call_phase c2 = TakingRates (?ks @ [GLOBAL])" "mset (permit_slots p2) = mset (call_held c2)"
        by (simp_all add: c2_def p2_def p1 permit_slots_def)
      obtain st3 res3 where R3: "take_group_rates now gs p2 st2 = (st3, res3)" by force
      note rt = alone_rates [where st = st2 and now = now, OF c2, unfolded R3 prod.case]
      have step: "admit_with gs now st = (case (st3, res3) of (st3, Inl r) \<Rightarrow> (st3, Inl r)
           | (st3, Inr _) \<Rightarrow> (case try_take_rate now (st3 GLOBAL) of (s', ok') \<Rightarrow>
               if ok' then (st3(GLOBAL := s'), Inr p2) else (drop_permit p2 (st3(GLOBAL := s')), Inl (global_refusal (st3(GLOBAL := s')) Rate))))"
        using R3 R Inr t True unfolding admit_with_def Let_def st2_def p2_def by simp
      show ?thesis
      proof (cases res3)
        case (Inl r)
        then have "(alone now)\<^sup>*\<^sup>* (st2, c2) (st3, call_after gs (Inl r))" using rt by (simp add: c2_def call_after_simps)
        then show ?thesis using rtranclp_trans [OF to2] step Inl by simp
      next
        case (Inr p3)
        define c3 where "c3 = c2\<lparr>call_phase := TakingRates [GLOBAL]\<rparr>"
        have to3: "(alone now)\<^sup>*\<^sup>* (st, ?c) (st3, c3)" using rtranclp_trans [OF to2] rt Inr by (simp add: c3_def)
        obtain s' ok' where t': "try_take_rate now (st3 GLOBAL) = (s', ok')" by force
        define st4 where "st4 = st3(GLOBAL := s')"
        have act: "call_action now st3 c3 = (st4, c3\<lparr>call_phase := (if ok' then TakingRates [] else Releasing)\<rparr>)"
          using t' by (simp add: call_action_def c3_def st4_def)
        show ?thesis
        proof (cases ok')
          case True
          have "call_action now st4 (c3\<lparr>call_phase := TakingRates []\<rparr>) = (st4, call_after gs (Inr p2))"
            by (simp add: call_action_def c3_def c2_def call_after_simps call_scopes_of_def)
          then have "(alone now)\<^sup>*\<^sup>* (st4, c3\<lparr>call_phase := TakingRates []\<rparr>) (st4, call_after gs (Inr p2))"
            by (rule alone_step) simp
          then have "(alone now)\<^sup>*\<^sup>* (st, ?c) (st4, call_after gs (Inr p2))"
            using rtranclp_trans [OF to3 alone_step [OF act]] True by simp
          then show ?thesis using step Inr t' True by (simp add: st4_def)
        next
          case False
          have "(alone now)\<^sup>*\<^sup>* (st4, c3\<lparr>call_phase := Releasing\<rparr>) (drop_permit p2 st4, call_after gs (Inl r))" for r
            using alone_drop [of "c3\<lparr>call_phase := Releasing\<rparr>" p2 now st4] c2(2) by (simp add: call_after_simps c3_def c2_def)
          then have "(alone now)\<^sup>*\<^sup>* (st, ?c) (drop_permit p2 st4, call_after gs (Inl r))" for r
            using rtranclp_trans [OF to3 alone_step [OF act]] False by simp
          then show ?thesis using step Inr t' False by (simp add: st4_def)
        qed
      qed
    qed
  qed
qed

subsection \<open>All calls together\<close>

lemma admission_run_bound:
  assumes "length es < 2 ^ 32" and "admission_run limits es = (st, cs)" and "\<forall>l. SetLimits k l \<notin> set es"
    and "0 < max_concurrent_calls (limits k)"
  shows "state_limits (st k) = limits k \<and> refusable_holders k cs \<le> max_concurrent_calls (limits k)"
  using assms(1-3)
proof (induction es arbitrary: st cs rule: rev_induct)
  case Nil
  then show ?case by (auto simp: admission_run_def limit_state_new_def refusable_holders_def)
next
  case (snoc e es)
  obtain st0 cs0 where s0: "admission_run limits es = (st0, cs0)" by force
  have IH: "state_limits (st0 k) = limits k" "refusable_holders k cs0 \<le> max_concurrent_calls (limits k)" using snoc s0 by auto
  have cr: "counts_right (st0, cs0)" and "\<And>j. slot_holders j cs0 \<le> length es"
    using admission_run_counts [of es limits st0 cs0] snoc.prems(1) s0 by auto
  then have small: "slot_holders j cs0 < 2 ^ 32 - 1" for j
    using snoc.prems(1) by (metis Suc_eq_plus1 le_less_trans length_append_singleton less_diff_conv)
  have "admission_step e (st0, cs0) = (st, cs)" using snoc.prems(2) s0 by (simp add: admission_run_def)
  from admission_step_counts(3,4) [OF cr small this, of k] show ?case
    using IH snoc.prems(3) assms(4) by auto
qed

lemma holders_over: "(\<forall>c \<in> set cs. call_held c = []) \<Longrightarrow> slot_holders k cs = 0"
  by (induction cs) auto

text \<open>
  C10.  However calls come, are refused, go up and end, each as a sequence of atomic updates between those of the
  others, and however limits are replaced meanwhile: the count of every scope is the number of slots its calls
  hold, it is back at zero when all calls are over, and the calls that can be refused never hold more slots of a
  scope than its limit.  A call that nothing gets between goes as the admission code says.  (The counters have
  32 bits; there are fewer events than that.)
\<close>

theorem admission_slots:
  assumes "length es < 2 ^ 32" and "admission_run limits es = (st, cs)"
  shows "(\<forall>k. active (st k) = slot_holders k cs) \<and>
     ((\<forall>c \<in> set cs. call_phase c = Releasing \<and> call_held c = []) \<longrightarrow> (\<forall>k. active (st k) = 0)) \<and>
     (\<forall>k. (\<forall>l. SetLimits k l \<notin> set es) \<and> 0 < max_concurrent_calls (limits k) \<longrightarrow>
        refusable_holders k cs \<le> max_concurrent_calls (limits k)) \<and>
     (\<forall>gs now. (alone now)\<^sup>*\<^sup>* (st, arriving gs) (fst (admit_with gs now st), call_after gs (snd (admit_with gs now st))))"
proof (intro conjI)
  show a: "\<forall>k. active (st k) = slot_holders k cs" using admission_run_counts [OF assms] by (simp add: counts_right_def)
  show "(\<forall>c \<in> set cs. call_phase c = Releasing \<and> call_held c = []) \<longrightarrow> (\<forall>k. active (st k) = 0)"
    using a holders_over by simp
  show "\<forall>k. (\<forall>l. SetLimits k l \<notin> set es) \<and> 0 < max_concurrent_calls (limits k) \<longrightarrow>
        refusable_holders k cs \<le> max_concurrent_calls (limits k)"
    using admission_run_bound [OF assms] by simp
  show "\<forall>gs now. (alone now)\<^sup>*\<^sup>* (st, arriving gs) (fst (admit_with gs now st), call_after gs (snd (admit_with gs now st)))"
    using admit_alone by blast
qed

definition sample_limits :: "nat \<Rightarrow> inbound_limits" where
  "sample_limits k = UNLIMITED\<lparr>max_concurrent_calls := 1\<rparr>"

text \<open>Two calls race for the one slot of the instance; the one that gets it goes up, the other is refused.\<close>

definition sample_race :: "admission_event list" where
  "sample_race = [Arrive [], Arrive [], Act 1 5, Act 0 5, Act 1 5, Act 1 5, Act 1 5, Act 0 5]"

theorem admission_slots_witness:
  "active (fst (admission_run sample_limits sample_race) GLOBAL) = 1 \<and>
   refusable_holders GLOBAL (snd (admission_run sample_limits sample_race)) \<le> 1"
proof -
  let ?r = "admission_run sample_limits sample_race"
  have "length sample_race < 2 ^ 32" "\<forall>l. SetLimits GLOBAL l \<notin> set sample_race" "max_concurrent_calls (sample_limits GLOBAL) = 1"
    by (simp_all add: sample_race_def sample_limits_def)
  moreover have "slot_holders GLOBAL (snd ?r) = 1" by code_simp
  ultimately show ?thesis
    using admission_slots [of sample_race sample_limits "fst ?r" "snd ?r"] by (auto dest!: spec [of _ GLOBAL])
qed

definition sample_store :: limit_store where
  "sample_store k = limit_state_new (UNLIMITED\<lparr>max_concurrent_calls := 2\<rparr>)"

theorem admission_decision_witness:
  "active (fst (admit_with [\<lparr>group_name = ''carrier'', group_state = 3\<rparr>] 7 sample_store) 3) = 1"
proof -
  let ?g = "[\<lparr>group_name = ''carrier'', group_state = 3\<rparr>]"
  have "distinct (call_scopes_of ?g)" by (simp add: call_scopes_of_def GLOBAL_def)
  moreover have "active (sample_store k) < 2 ^ 32 - 1" for k by (simp add: sample_store_def limit_state_new_def)
  moreover have "\<forall>k \<in> set (call_scopes_of ?g). has_room (sample_store k) \<and> conforms 7 (sample_store k)"
    by (simp add: call_scopes_of_def has_room_def conforms_def sample_store_def limit_state_new_def UNLIMITED_def)
  ultimately show ?thesis
    using admission_decision [of ?g sample_store 7]
    by (auto simp: sample_store_def limit_state_new_def call_scopes_of_def split: prod.splits sum.splits refusal_reason.splits)
qed

subsection \<open>The rate\<close>

text \<open>The calls that arrive at the instants \<open>ts\<close>: those the limiter takes.\<close>

fun rate_run :: "limit_state \<Rightarrow> nat list \<Rightarrow> nat list" where
  "rate_run s [] = []"
| "rate_run s (t # ts) = (let (s', ok) = try_take_rate t s in if ok then t # rate_run s' ts else rate_run s' ts)"

text \<open>
  The limit said with the calls already taken: with this one, no run of consecutive calls that ends with it
  may be longer than the time it spans allows, one call per interval and a burst on top.
\<close>

definition window_ok :: "nat \<Rightarrow> nat list \<Rightarrow> nat \<Rightarrow> bool" where
  "window_ok rate taken t \<longleftrightarrow>
     (\<forall>j < length taken. taken ! j + (length taken - j) * emission_interval rate \<le> t + burst_tolerance rate)"

fun window_run :: "nat \<Rightarrow> nat list \<Rightarrow> nat list \<Rightarrow> nat list" where
  "window_run rate taken [] = []"
| "window_run rate taken (t # ts) =
     (if window_ok rate taken t then t # window_run rate (taken @ [t]) ts else window_run rate taken ts)"

definition schedule :: "nat \<Rightarrow> nat list \<Rightarrow> nat" where
  "schedule rate taken = foldl (\<lambda>a t. max a t + emission_interval rate) 0 taken"

lemma schedule_le:
  "schedule rate taken \<le> x \<longleftrightarrow> (\<forall>j < length taken. taken ! j + (length taken - j) * emission_interval rate \<le> x)"
proof (induction taken arbitrary: x rule: rev_induct)
  case Nil
  then show ?case by (simp add: schedule_def)
next
  case (snoc t ts)
  let ?i = "emission_interval rate"
  have "schedule rate (ts @ [t]) = max (schedule rate ts) t + ?i" by (simp add: schedule_def)
  then have "schedule rate (ts @ [t]) \<le> x \<longleftrightarrow> t + ?i \<le> x \<and> ?i \<le> x \<and> schedule rate ts \<le> x - ?i" by auto
  also have "\<dots> \<longleftrightarrow> t + ?i \<le> x \<and> ?i \<le> x \<and> (\<forall>j < length ts. ts ! j + (length ts - j) * ?i \<le> x - ?i)"
    unfolding snoc.IH ..
  also have "\<dots> \<longleftrightarrow> (\<forall>j < length (ts @ [t]). (ts @ [t]) ! j + (length (ts @ [t]) - j) * ?i \<le> x)"
  proof -
    have "ts ! j + (length ts - j) * ?i \<le> x - ?i \<longleftrightarrow> ts ! j + (Suc (length ts) - j) * ?i \<le> x"
      if "j < length ts" "?i \<le> x" for j
      using that by (auto simp: Suc_diff_le)
    then show ?thesis
      by (cases "?i \<le> x") (auto simp: less_Suc_eq nth_append)
  qed
  finally show ?case .
qed

lemma schedule_window: "schedule rate taken \<le> t + burst_tolerance rate \<longleftrightarrow> window_ok rate taken t"
  by (simp add: schedule_le window_ok_def)

lemma interval_bounds: "1 \<le> emission_interval rate" "emission_interval rate \<le> NANOS_PER_SECOND"
  by (auto simp: emission_interval_def NANOS_PER_SECOND_def)

lemma tolerance_bound:
  assumes "rate \<le> u32_max"
  shows "emission_interval rate * (rate - 1) \<le> 2 ^ 32" and "burst_tolerance rate = emission_interval rate * (rate - 1)"
proof -
  show b: "emission_interval rate * (rate - 1) \<le> 2 ^ 32"
  proof (cases "1 \<le> NANOS_PER_SECOND div rate")
    case True
    then have "emission_interval rate * (rate - 1) \<le> NANOS_PER_SECOND div rate * rate" by (auto simp: emission_interval_def)
    also have "\<dots> \<le> NANOS_PER_SECOND" by simp
    finally show ?thesis by (simp add: NANOS_PER_SECOND_def)
  next
    case False
    then show ?thesis using assms by (simp add: emission_interval_def)
  qed
  then show "burst_tolerance rate = emission_interval rate * (rate - 1)" by (simp add: burst_tolerance_def)
qed

lemma rate_run_window:
  assumes "max_calls_per_second (state_limits s) = rate" and "0 < rate" and "rate \<le> u32_max"
    and "theoretical_arrival_nanos s = schedule rate taken" and "\<forall>t \<in> set ts. t < 2 ^ 63"
  shows "rate_run s ts = window_run rate taken ts"
  using assms
proof (induction ts arbitrary: s taken)
  case Nil
  then show ?case by simp
next
  case (Cons t ts)
  have t: "t < 2 ^ 63" using Cons.prems(5) by simp
  have bound: "t + burst_tolerance rate < 2 ^ 63 + 2 ^ 33"
    using tolerance_bound [OF assms(3)] t by simp
  have ok: "schedule rate taken \<le> min (t + burst_tolerance rate) u64_max \<longleftrightarrow> window_ok rate taken t"
    using bound by (simp add: min_def flip: schedule_window)
  show ?case
  proof (cases "window_ok rate taken t")
    case True
    then have le: "schedule rate taken \<le> t + burst_tolerance rate" by (simp add: schedule_window)
    have "max (schedule rate taken) t + emission_interval rate \<le> u64_max"
      using le bound interval_bounds(2) [of rate] t by (simp add: NANOS_PER_SECOND_def)
    then have sch: "min (max (schedule rate taken) t + emission_interval rate) u64_max = schedule rate (taken @ [t])"
      by (simp add: schedule_def)
    define s1 where "s1 = s\<lparr>theoretical_arrival_nanos := schedule rate (taken @ [t])\<rparr>"
    have "try_take_rate t s = (s1, True)"
      using Cons.prems(1,2,4) True ok sch t by (simp add: try_take_rate_def update_atomic_def next_arrival_def Let_def s1_def)
    moreover have "rate_run s1 ts = window_run rate (taken @ [t]) ts"
      using Cons.IH [of s1 "taken @ [t]"] Cons.prems by (simp add: s1_def)
    ultimately show ?thesis using True by simp
  next
    case False
    then have "try_take_rate t s = (s, False)"
      using Cons.prems(1,2,4) ok t by (simp add: try_take_rate_def update_atomic_def next_arrival_def Let_def)
    then show ?thesis using False Cons by simp
  qed
qed

lemma window_run_windows:
  assumes "\<And>i j. i \<le> j \<Longrightarrow> j < length taken \<Longrightarrow> taken ! i + (j - i) * emission_interval rate \<le> taken ! j + burst_tolerance rate"
    and "i \<le> j" and "j < length (taken @ window_run rate taken ts)"
  shows "(taken @ window_run rate taken ts) ! i + (j - i) * emission_interval rate \<le> (taken @ window_run rate taken ts) ! j + burst_tolerance rate"
  using assms
proof (induction ts arbitrary: taken)
  case Nil
  then show ?case by simp
next
  case (Cons t ts)
  show ?case
  proof (cases "window_ok rate taken t")
    case True
    have "(taken @ [t]) ! i + (j - i) * emission_interval rate \<le> (taken @ [t]) ! j + burst_tolerance rate"
      if "i \<le> j" "j < length (taken @ [t])" for i j
      using that Cons.prems(1) [of i j] True by (cases "j = length taken"; cases "i = j") (auto simp: nth_append window_ok_def)
    from Cons.IH [OF this Cons.prems(2)] show ?thesis using Cons.prems(3) True by simp
  next
    case False
    then show ?thesis using Cons by simp
  qed
qed

lemma window_run_burst:
  assumes "0 < rate" and "rate \<le> u32_max"
  shows "length (window_run rate (replicate m t) (replicate n t)) = min n (rate - m)"
proof (induction n arbitrary: m)
  case 0
  then show ?case by simp
next
  case (Suc n)
  have i: "0 < emission_interval rate" using interval_bounds(1) [of rate] by simp
  have "window_ok rate (replicate m t) t \<longleftrightarrow> (\<forall>j < m. (m - j) * emission_interval rate \<le> emission_interval rate * (rate - 1))"
    by (auto simp: window_ok_def tolerance_bound(2) [OF assms(2)])
  also have "\<dots> \<longleftrightarrow> (\<forall>j < m. m - j \<le> rate - 1)" using i by (simp add: mult.commute [of _ "emission_interval rate"])
  also have "\<dots> \<longleftrightarrow> m < rate" using assms(1) by (cases m) (auto dest!: spec [of _ 0])
  finally have ok: "window_ok rate (replicate m t) t \<longleftrightarrow> m < rate" .
  show ?case
  proof (cases "m < rate")
    case True
    have "replicate m t @ [t] = replicate (Suc m) t" by (simp add: replicate_append_same)
    then show ?thesis using ok True Suc.IH [of "Suc m"] by (simp del: replicate.simps(2) add: replicate.simps(2) [of n])
  next
    case False
    then show ?thesis using ok Suc.IH [of m] by simp
  qed
qed

text \<open>
  C11.  The one number the rate limiter keeps decides exactly as the calls already taken say it should: a call is
  taken if and only if every run of consecutive taken calls that would end with it stays within one call per
  interval plus the burst.  So whatever the arrivals, the intervals between the first and the last of any
  consecutive taken calls, less the burst, are no more than the time between them, and an idle limiter takes
  exactly one second's worth of calls at one instant.
\<close>

theorem rate_limiter_exact:
  assumes "0 < max_calls_per_second l" and "max_calls_per_second l \<le> u32_max" and "\<forall>t \<in> set ts. t < 2 ^ 63"
  shows "rate_run (limit_state_new l) ts = window_run (max_calls_per_second l) [] ts \<and>
    (\<forall>i j. i \<le> j \<and> j < length (rate_run (limit_state_new l) ts) \<longrightarrow>
       rate_run (limit_state_new l) ts ! i + (j - i) * emission_interval (max_calls_per_second l)
       \<le> rate_run (limit_state_new l) ts ! j + emission_interval (max_calls_per_second l) * (max_calls_per_second l - 1)) \<and>
    (\<forall>n t. ts = replicate n t \<longrightarrow> length (rate_run (limit_state_new l) ts) = min n (max_calls_per_second l))"
proof -
  have run: "rate_run (limit_state_new l) ts = window_run (max_calls_per_second l) [] ts"
    using rate_run_window [of "limit_state_new l" "max_calls_per_second l" "[]" ts] assms
    by (simp add: limit_state_new_def schedule_def)
  show ?thesis
    unfolding run using window_run_windows [of "[]" "max_calls_per_second l" _ _ ts] window_run_burst [OF assms(1,2), of 0]
    by (simp add: tolerance_bound(2) [OF assms(2)])
qed

theorem rate_limiter_exact_witness:
  "rate_run (limit_state_new (UNLIMITED\<lparr>max_calls_per_second := 2\<rparr>)) [7, 7, 7, 7, 500000007] =
     window_run 2 [] [7, 7, 7, 7, 500000007]"
  using rate_limiter_exact [of "UNLIMITED\<lparr>max_calls_per_second := 2\<rparr>" "[7, 7, 7, 7, 500000007]"] by simp

subsection \<open>Refusals remembered\<close>

definition remembered_right :: "refused_invites \<Rightarrow> bool" where
  "remembered_right t \<longleftrightarrow> distinct (map fst (ri_entries t)) \<and> ri_remembered t = length (ri_entries t) \<and> ri_remembered t \<le> ri_ceiling t"

datatype refused_event =
    Remember string string refused_answer nat
  | Forget string string
  | Prune nat

fun refused_step :: "(string \<Rightarrow> string \<Rightarrow> nat) \<Rightarrow> refused_event \<Rightarrow> refused_invites \<Rightarrow> refused_invites" where
  "refused_step hash (Remember c b a now) t = remember hash c b a now t"
| "refused_step hash (Forget c b) t = forget hash c b t"
| "refused_step hash (Prune now) t = prune now t"

lemma refused_step_right:
  assumes "remembered_right t"
  shows "remembered_right (refused_step hash e t)" and "ri_ceiling (refused_step hash e t) = ri_ceiling t"
proof -
  have upd: "length (AList.update k v al) = (if k \<in> fst ` set al then length al else Suc (length al))" for k v and al :: "(nat \<times> refused_answer \<times> nat) list"
    by (induction al) auto
  have del: "k \<in> fst ` set al \<Longrightarrow> distinct (map fst al) \<Longrightarrow> length (AList.delete k al) = length al - 1"
    for k and al :: "(nat \<times> refused_answer \<times> nat) list"
  proof (induction al)
    case (Cons x al)
    then show ?case by (cases "al = []") (auto simp: AList.delete_id neq_Nil_conv image_iff Bex_def, blast)
  qed simp
  have "remembered_right (refused_step hash e t) \<and> ri_ceiling (refused_step hash e t) = ri_ceiling t"
  proof (cases e)
    case (Remember c b a now)
    then show ?thesis using assms
      by (auto simp: remembered_right_def remember_def Let_def upd distinct_update map_of_eq_None_iff split: option.splits)
        (auto dest: map_of_SomeD simp: image_iff Bex_def)
  next
    case (Forget c b)
    then show ?thesis using assms
      by (auto simp: remembered_right_def forget_def Let_def distinct_delete split: option.splits)
        (subst del; force dest: map_of_SomeD)
  next
    case (Prune now)
    have "distinct (map fst al) \<Longrightarrow> distinct (map fst (filter P al))" for P and al :: "(nat \<times> refused_answer \<times> nat) list"
      by (rule distinct_map_filter)
    then show ?thesis using Prune assms length_filter_le
      by (auto simp: remembered_right_def prune_def Let_def intro: le_trans [OF length_filter_le])
  qed
  then show "remembered_right (refused_step hash e t)" and "ri_ceiling (refused_step hash e t) = ri_ceiling t" by auto
qed

lemma refused_run_right:
  "remembered_right (foldl (\<lambda>t e. refused_step hash e t) (with_ceiling n) es) \<and>
   ri_ceiling (foldl (\<lambda>t e. refused_step hash e t) (with_ceiling n) es) = n"
  by (induction es rule: rev_induct) (auto simp: refused_step_right, simp_all add: remembered_right_def with_ceiling_def)

text \<open>
  The table of refused INVITEs holds as many entries as its counter says and never more than its ceiling.
  Below the ceiling a refusal that was just remembered answers the retransmissions of its INVITE the same for 64
  times T1 and no longer, until the caller acknowledges it; what is remembered, forgotten or pruned meanwhile
  under other keys does not change the answer.
\<close>

theorem refused_table:
  assumes "t = foldl (\<lambda>t e. refused_step hash e t) (with_ceiling n) es"
  shows "ri_remembered t = length (ri_entries t) \<and> ri_remembered t \<le> n \<and>
    (ri_remembered t < n \<longrightarrow>
       (\<forall>now. lookup_at hash c b now (remember hash c b a at t) = (if now - at < REFUSAL_TTL then Some a else None))) \<and>
    lookup_at hash c b now (forget hash c b t) = None \<and>
    (\<forall>c' b'. hash c' b' \<noteq> hash c b \<longrightarrow>
       lookup_at hash c b now (forget hash c' b' t) = lookup_at hash c b now t \<and>
       lookup_at hash c b now (remember hash c' b' a at t) = lookup_at hash c b now t) \<and>
    (\<forall>later \<ge> now. lookup_at hash c b later (prune now t) = lookup_at hash c b later t)"
proof -
  have r: "remembered_right t" and c: "ri_ceiling t = n" using refused_run_right assms by auto
  have look: "lookup_at hash c b now t' = (case map_of (ri_entries t') (hash c b) of None \<Rightarrow> None
      | Some (answer, at) \<Rightarrow> if now - at < REFUSAL_TTL then Some answer else None)" if "remembered_right t'" for t' c b now
    using that by (auto simp: lookup_at_def remembered_right_def)
  have rr: "remembered_right (remember hash c b a at t)" "remembered_right (forget hash c b t)" "remembered_right (prune now t)" for c b a at now
    using refused_step_right(1) [OF r, of hash "Remember c b a at"] refused_step_right(1) [OF r, of hash "Forget c b"]
      refused_step_right(1) [OF r, of hash "Prune now"] by simp_all
  have rem: "map_of (ri_entries (remember hash c b a at t)) k =
      (if ri_remembered t < n \<and> k = hash c b then Some (a, at) else map_of (ri_entries t) k)" for c b a at k
    using c by (auto simp: remember_def Let_def update_conv' split: option.splits)
  have forg: "map_of (ri_entries (forget hash c b t)) k = (if k = hash c b then None else map_of (ri_entries t) k)" for c b k
    using r by (auto simp: forget_def Let_def remembered_right_def delete_conv' split: option.splits)
  have pr: "map_of (ri_entries (prune now t)) k =
      (case map_of (ri_entries t) k of Some (a, at) \<Rightarrow> if now - at < REFUSAL_TTL then Some (a, at) else None | None \<Rightarrow> None)" for k now
  proof -
    have "distinct (map fst al) \<Longrightarrow> map_of (filter (\<lambda>(k, a, at). P at) al) k =
        (case map_of al k of Some (a, at) \<Rightarrow> if P at then Some (a, at) else None | None \<Rightarrow> None)" for P and al :: "(nat \<times> refused_answer \<times> nat) list"
      by (induction al) (auto simp: map_of_eq_None_iff image_iff split: option.splits)
    then show ?thesis using r by (auto simp: prune_def Let_def remembered_right_def)
  qed
  show ?thesis
    using r c by (auto simp: remembered_right_def look [OF rr(1)] look [OF rr(2)] look [OF rr(3)] look [OF r] rem forg pr split: option.splits)
qed

theorem refused_table_witness:
  "lookup_at (\<lambda>c b. length c) ''call'' ''z9'' 9
     (remember (\<lambda>c b. length c) ''call'' ''z9'' \<lparr>ra_reject_code = 503, ra_retry_after_secs = 1\<rparr> 5
       (foldl (\<lambda>t e. refused_step (\<lambda>c b. length c) e t) (with_ceiling 1) [Prune 3]))
   = Some \<lparr>ra_reject_code = 503, ra_retry_after_secs = 1\<rparr>"
proof -
  let ?t = "foldl (\<lambda>t e. refused_step (\<lambda>c b. length c) e t) (with_ceiling 1) [Prune 3]"
  have "ri_remembered ?t < 1" by (simp add: prune_def with_ceiling_def)
  then show ?thesis
    using refused_table [of ?t "\<lambda>c b. length c" 1 "[Prune 3]" "''call''" "''z9''" "\<lparr>ra_reject_code = 503, ra_retry_after_secs = 1\<rparr>" 5]
    by (simp add: REFUSAL_TTL_def NANOS_PER_SECOND_def)
qed

end
