(* ===== verification/Send_Queue.thy ===== *)
theory Send_Queue
  imports Siphon_Prelude "HOL-Library.Multiset"
begin

text \<open>
  The outbound queue of a stream connection, bounded by octets: \<^verbatim>\<open>src/src/transport/send_queue.rs\<close>.  The
  operations come twice: whole, as functions, and as the atomic accesses they are made of (to the counter, and
  to the channel, an unbounded queue that refuses once it is closed), so that senders, the writer and the drop of
  the receiving half interleave.  \<^verbatim>\<open>usize\<close> has 64 bits; metrics and log lines are left out.
\<close>

subsection \<open>The queue\<close>

definition DEFAULT_SEND_QUEUE_BYTES :: nat where
  "DEFAULT_SEND_QUEUE_BYTES = 4 * 1024 * 1024"

record send_queue =
  queued :: nat
  queue_limit :: nat
  channel :: "string list"
  channel_closed :: bool

definition channel_with_limit :: "nat \<Rightarrow> send_queue" where
  "channel_with_limit n = \<lparr>queued = 0, queue_limit = n, channel = [], channel_closed = False\<rparr>"

definition release :: "nat \<Rightarrow> send_queue \<Rightarrow> send_queue" where
  "release bytes q = q\<lparr>queued := nat ((int (queued q) - int bytes) mod 2 ^ 64)\<rparr>"

definition reserve :: "nat \<Rightarrow> send_queue \<Rightarrow> send_queue option" where
  "reserve len q =
     (if queued q = 0 \<or> min (queued q + len) u64_max \<le> queue_limit q
      then Some (q\<lparr>queued := (queued q + len) mod 2 ^ 64\<rparr>) else None)"

datatype send_result = Sent | Full | Closed

definition try_send :: "string \<Rightarrow> send_queue \<Rightarrow> send_queue \<times> send_result" where
  "try_send frame q =
     (if channel_closed q then (q, Closed)
      else case reserve (length frame) q of
        None \<Rightarrow> (q, Full)
      | Some q1 \<Rightarrow>
          if channel_closed q1 then (release (length frame) q1, Closed)
          else (q1\<lparr>channel := channel q1 @ [frame]\<rparr>, Sent))"

text \<open>The next frame, when there is one; a writer with none to take waits.\<close>

definition recv :: "send_queue \<Rightarrow> (send_queue \<times> string) option" where
  "recv q =
     (case channel q of
        [] \<Rightarrow> None
      | frame # rest \<Rightarrow> Some (release (length frame) (q\<lparr>channel := rest\<rparr>), frame))"

definition drop_receiver :: "send_queue \<Rightarrow> send_queue \<times> string list" where
  "drop_receiver q =
     (let q1 = q\<lparr>channel_closed := True\<rparr>
      in (fold (\<lambda>frame q. release (length frame) (q\<lparr>channel := tl (channel q)\<rparr>)) (channel q1) q1, channel q1))"

subsection \<open>Senders, writer and drop side by side\<close>

datatype sender_at = Checking | Reserving | Pushing | Undoing | Done send_result

datatype receiver_at = Waiting | Taken string | Draining | Drained string | Gone

record queue_system =
  the_queue :: send_queue
  senders :: "(string \<times> sender_at) list"
  receiver :: receiver_at
  pushed :: "string list"
  written :: "string list"
  discarded :: "string list"

definition system_new :: "nat \<Rightarrow> queue_system" where
  "system_new n =
     \<lparr>the_queue = channel_with_limit n, senders = [], receiver = Waiting, pushed = [], written = [], discarded = []\<rparr>"

definition sender_action :: "string \<Rightarrow> sender_at \<Rightarrow> send_queue \<Rightarrow> send_queue \<times> sender_at \<times> string list" where
  "sender_action frame at q =
     (case at of
        Checking \<Rightarrow> (q, if channel_closed q then Done Closed else Reserving, [])
      | Reserving \<Rightarrow>
          (case reserve (length frame) q of None \<Rightarrow> (q, Done Full, []) | Some q' \<Rightarrow> (q', Pushing, []))
      | Pushing \<Rightarrow>
          if channel_closed q then (q, Undoing, []) else (q\<lparr>channel := channel q @ [frame]\<rparr>, Done Sent, [frame])
      | Undoing \<Rightarrow> (release (length frame) q, Done Closed, [])
      | Done r \<Rightarrow> (q, Done r, []))"

datatype queue_event = StartSend string | SenderActs nat | ReceiverActs | DropReceiver

fun queue_step :: "queue_event \<Rightarrow> queue_system \<Rightarrow> queue_system" where
  "queue_step (StartSend frame) s = s\<lparr>senders := senders s @ [(frame, Checking)]\<rparr>"
| "queue_step (SenderActs i) s =
     (if i < length (senders s) then
        (let (frame, at) = senders s ! i; (q, at', new) = sender_action frame at (the_queue s)
         in s\<lparr>the_queue := q, senders := (senders s)[i := (frame, at')], pushed := pushed s @ new\<rparr>)
      else s)"
| "queue_step ReceiverActs s =
     (let q = the_queue s in
      case receiver s of
        Waiting \<Rightarrow>
          (case channel q of [] \<Rightarrow> s
           | f # rest \<Rightarrow> s\<lparr>the_queue := q\<lparr>channel := rest\<rparr>, receiver := Taken f, written := written s @ [f]\<rparr>)
      | Taken f \<Rightarrow> s\<lparr>the_queue := release (length f) q, receiver := Waiting\<rparr>
      | Draining \<Rightarrow>
          (case channel q of [] \<Rightarrow> s\<lparr>receiver := Gone\<rparr>
           | f # rest \<Rightarrow> s\<lparr>the_queue := q\<lparr>channel := rest\<rparr>, receiver := Drained f, discarded := discarded s @ [f]\<rparr>)
      | Drained f \<Rightarrow> s\<lparr>the_queue := release (length f) q, receiver := Draining\<rparr>
      | Gone \<Rightarrow> s)"
| "queue_step DropReceiver s =
     (if receiver s = Waiting then s\<lparr>the_queue := (the_queue s)\<lparr>channel_closed := True\<rparr>, receiver := Draining\<rparr> else s)"

definition queue_run :: "nat \<Rightarrow> queue_event list \<Rightarrow> queue_system" where
  "queue_run n es = foldl (\<lambda>s e. queue_step e s) (system_new n) es"

subsection \<open>What is owed\<close>

text \<open>The frames the counter stands for: in the channel, reserved and not yet pushed or given back, or just taken.\<close>

definition owed_sender :: "string \<times> sender_at \<Rightarrow> string list" where
  "owed_sender s = (case snd s of Pushing \<Rightarrow> [fst s] | Undoing \<Rightarrow> [fst s] | _ \<Rightarrow> [])"

definition owed :: "queue_system \<Rightarrow> string multiset" where
  "owed s = mset (channel (the_queue s)) + mset (concat (map owed_sender (senders s))) +
     (case receiver s of Taken f \<Rightarrow> {#f#} | Drained f \<Rightarrow> {#f#} | _ \<Rightarrow> {#})"

definition octets :: "string multiset \<Rightarrow> nat" where
  "octets M = \<Sum>\<^sub># (image_mset length M)"

lemma octets_simps [simp]: "octets {#} = 0" "octets (add_mset f M) = length f + octets M" "octets (M + N) = octets M + octets N"
  by (simp_all add: octets_def)

definition within_bound :: "send_queue \<Rightarrow> string multiset \<Rightarrow> bool" where
  "within_bound q M \<longleftrightarrow> queued q \<le> queue_limit q \<or> (\<exists>f \<in># M. queued q = length f)"

definition queue_inv :: "queue_system \<Rightarrow> bool" where
  "queue_inv s \<longleftrightarrow>
     queued (the_queue s) = octets (owed s) \<and>
     within_bound (the_queue s) (owed s) \<and>
     (\<forall>f \<in># owed s. length f < 2 ^ 63) \<and>
     (\<forall>x \<in> set (senders s). length (fst x) < 2 ^ 63) \<and>
     queue_limit (the_queue s) < u64_max \<and>
     pushed s = written s @ discarded s @ channel (the_queue s) \<and>
     (channel_closed (the_queue s) \<longleftrightarrow> receiver s \<in> {Draining, Gone} \<or> (\<exists>f. receiver s = Drained f)) \<and>
     (receiver s = Gone \<longrightarrow> channel (the_queue s) = []) \<and>
     (\<not> channel_closed (the_queue s) \<longrightarrow> discarded s = [])"

lemma octets_mem: "f \<in># M \<Longrightarrow> length f \<le> octets M"
  by (induction M) auto

lemma owed_update:
  "i < length ss \<Longrightarrow> mset (concat (map owed_sender (ss[i := x]))) + mset (owed_sender (ss ! i)) =
     mset (concat (map owed_sender ss)) + mset (owed_sender x)"
proof (induction ss arbitrary: i)
  case Nil
  then show ?case by simp
next
  case (Cons a ss)
  show ?case
  proof (cases i)
    case 0
    then show ?thesis by simp
  next
    case (Suc j)
    then show ?thesis using Cons.IH [of j] Cons.prems by simp
  qed
qed

lemma owed_sender_simps [simp]:
  "owed_sender (f, Checking) = []" "owed_sender (f, Reserving) = []" "owed_sender (f, Pushing) = [f]"
  "owed_sender (f, Undoing) = [f]" "owed_sender (f, Done r) = []"
  by (simp_all add: owed_sender_def)

lemma release_owed:
  assumes "queued q = octets (add_mset f M)" and "within_bound q (add_mset f M)" and "queued q < 2 ^ 64"
  shows "queued (release (length f) q) = octets M" and "within_bound (release (length f) q) M"
    and "queue_limit (release n q) = queue_limit q" "channel (release n q) = channel q" "channel_closed (release n q) = channel_closed q"
proof -
  have "int (queued q) - int (length f) = int (octets M)" using assms(1) by simp
  moreover have "octets M < 2 ^ 64" using assms(1,3) by simp
  ultimately show r: "queued (release (length f) q) = octets M" by (simp add: release_def)
  show "queue_limit (release n q) = queue_limit q" "channel (release n q) = channel q" "channel_closed (release n q) = channel_closed q"
    by (simp_all add: release_def)
  show "within_bound (release (length f) q) M"
  proof (cases "queued q \<le> queue_limit q")
    case True
    then show ?thesis using r assms(1) by (simp add: within_bound_def release_def)
  next
    case False
    then obtain g where g: "g \<in># add_mset f M" "queued q = length g" using assms(2) by (auto simp: within_bound_def)
    show ?thesis
    proof (cases "g \<in># M")
      case True
      then have "length g \<le> octets M" by (rule octets_mem)
      then have "octets M = length g" using g(2) assms(1) by simp
      then show ?thesis using r True by (auto simp: within_bound_def)
    next
      case False
      then have "octets M = 0" using g assms(1) by simp
      then show ?thesis using r by (simp add: within_bound_def)
    qed
  qed
qed

lemma reserve_owed:
  assumes "reserve (length f) q = Some q'" and "queued q = octets M" and "queue_limit q < u64_max" and "length f < 2 ^ 63"
  shows "queued q' = octets (add_mset f M)" and "within_bound q' (add_mset f M)"
    and "queue_limit q' = queue_limit q" "channel q' = channel q" "channel_closed q' = channel_closed q"
proof -
  have g: "queued q = 0 \<or> queued q + length f \<le> queue_limit q" and q': "q' = q\<lparr>queued := (queued q + length f) mod 2 ^ 64\<rparr>"
    using assms(1,3) by (auto simp: reserve_def min_def split: if_splits)
  have n: "(queued q + length f) mod 2 ^ 64 = queued q + length f" using g assms(3,4) by auto
  show "queued q' = octets (add_mset f M)" using q' n assms(2) by simp
  show "within_bound q' (add_mset f M)" using q' n g by (auto simp: within_bound_def)
  show "queue_limit q' = queue_limit q" "channel q' = channel q" "channel_closed q' = channel_closed q" using q' by simp_all
qed

lemma queue_inv_small: "queue_inv s \<Longrightarrow> queued (the_queue s) < 2 ^ 64"
  by (auto simp: queue_inv_def within_bound_def)

lemma sender_inv:
  assumes inv: "queue_inv s" and i: "i < length (senders s)"
  shows "queue_inv (queue_step (SenderActs i) s)"
proof -
  obtain f at where x: "senders s ! i = (f, at)" by force
  obtain q at' new where a: "sender_action f at (the_queue s) = (q, at', new)" by (metis prod_cases3)
  define s' where "s' = s\<lparr>the_queue := q, senders := (senders s)[i := (f, at')], pushed := pushed s @ new\<rparr>"
  have step: "queue_step (SenderActs i) s = s'" using i x a by (simp add: s'_def)
  have small: "length f < 2 ^ 63" using inv i x nth_mem [OF i] by (auto simp: queue_inv_def)
  define R where "R = (case receiver s of Taken f \<Rightarrow> {#f#} | Drained f \<Rightarrow> {#f#} | _ \<Rightarrow> {#})"
  have upd: "mset (concat (map owed_sender (senders s'))) + mset (owed_sender (f, at)) =
      mset (concat (map owed_sender (senders s))) + mset (owed_sender (f, at'))"
    using owed_update [OF i, of "(f, at')"] x by (simp add: s'_def)
  have os: "owed s = mset (channel (the_queue s)) + mset (concat (map owed_sender (senders s))) + R"
    and os': "owed s' = mset (channel q) + mset (concat (map owed_sender (senders s'))) + R"
    by (simp_all add: owed_def R_def s'_def)
  have senders: "\<forall>x \<in> set (senders s'). length (fst x) < 2 ^ 63"
    using inv small set_update_subset_insert [of "senders s" i "(f, at')"] by (auto simp: s'_def queue_inv_def)
  have sf: "the_queue s' = q" "receiver s' = receiver s" "pushed s' = pushed s @ new" "written s' = written s" "discarded s' = discarded s"
    by (simp_all add: s'_def)
  note I = inv [unfolded queue_inv_def]
  have c: "queued (the_queue s) = octets (owed s)" "within_bound (the_queue s) (owed s)" "queue_limit (the_queue s) < u64_max"
    using I by simp_all
  show ?thesis unfolding step
  proof (cases at)
    case Checking
    then have "owed s' = owed s" "q = the_queue s" "new = []"
      using a upd os os' by (auto simp: sender_action_def split: if_splits)
    then show "queue_inv s'" using I senders by (simp add: queue_inv_def sf)
  next
    case Reserving
    show "queue_inv s'"
    proof (cases "reserve (length f) (the_queue s)")
      case None
      then have "owed s' = owed s" "q = the_queue s" "new = []"
        using a upd os os' Reserving by (auto simp: sender_action_def)
      then show ?thesis using I senders by (simp add: queue_inv_def sf)
    next
      case (Some q1)
      then have e: "q = q1" "at' = Pushing" "new = []" using a Reserving by (auto simp: sender_action_def)
      note r = reserve_owed [OF Some c(1) c(3) small]
      have "owed s' = add_mset f (owed s)" using upd os os' e r(4) Reserving by simp
      then show ?thesis using r I senders small e by (simp add: queue_inv_def sf)
    qed
  next
    case Pushing
    then have "owed s' = owed s" using a upd os os' by (auto simp: sender_action_def split: if_splits)
    then show "queue_inv s'" using I senders a Pushing
      by (auto simp: queue_inv_def sf sender_action_def within_bound_def split: if_splits)
  next
    case Undoing
    then have e: "q = release (length f) (the_queue s)" "at' = Done Closed" "new = []" using a by (auto simp: sender_action_def)
    have ch: "channel q = channel (the_queue s)" using e by (simp add: release_def)
    have os2: "owed s = add_mset f (owed s')" using upd os os' e ch Undoing by simp
    note r = release_owed [OF c(1,2) [unfolded os2] queue_inv_small [OF inv]]
    show "queue_inv s'" using r I senders e(1,3) os2 by (simp add: queue_inv_def sf)
  next
    case (Done r)
    then have "owed s' = owed s" "q = the_queue s" "new = []"
      using a upd os os' by (auto simp: sender_action_def)
    then show "queue_inv s'" using I senders by (simp add: queue_inv_def sf)
  qed
qed

lemma within_bound_channel [simp]: "within_bound (q\<lparr>channel := c\<rparr>) M = within_bound q M" "within_bound (q\<lparr>channel_closed := b\<rparr>) M = within_bound q M"
  by (simp_all add: within_bound_def)

lemma receiver_inv:
  assumes inv: "queue_inv s"
  shows "queue_inv (queue_step ReceiverActs s)"
proof -
  note I = inv [unfolded queue_inv_def]
  define S where "S = mset (concat (map owed_sender (senders s)))"
  have os: "owed s = mset (channel (the_queue s)) + S + (case receiver s of Taken f \<Rightarrow> {#f#} | Drained f \<Rightarrow> {#f#} | _ \<Rightarrow> {#})"
    by (simp add: owed_def S_def)
  have c: "queued (the_queue s) = octets (owed s)" "within_bound (the_queue s) (owed s)" using I by simp_all
  show ?thesis
  proof (cases "receiver s")
    case Waiting
    show ?thesis
  proof (cases "channel (the_queue s)")
      case Nil
      then show ?thesis using inv Waiting by (simp)
    next
      case (Cons f rest)
      define s' where "s' = s\<lparr>the_queue := (the_queue s)\<lparr>channel := rest\<rparr>, receiver := Taken f, written := written s @ [f]\<rparr>"
      have e: "queue_step ReceiverActs s = s'" using Cons Waiting by (simp add: s'_def)
      have os2: "owed s' = owed s" using Cons Waiting os by (simp add: s'_def owed_def S_def)
      have sf: "the_queue s' = (the_queue s)\<lparr>channel := rest\<rparr>" "receiver s' = Taken f" "senders s' = senders s" "pushed s' = pushed s"
        "written s' = written s @ [f]" "discarded s' = discarded s" by (simp_all add: s'_def)
      show ?thesis unfolding e using I Waiting os2 Cons by (simp add: queue_inv_def sf)
    qed
  next
    case (Taken f)
    define s' where "s' = s\<lparr>the_queue := release (length f) (the_queue s), receiver := Waiting\<rparr>"
    have e: "queue_step ReceiverActs s = s'" using Taken by (simp add: s'_def)
    have os2: "owed s = add_mset f (owed s')" using Taken os by (simp add: s'_def owed_def S_def release_def)
    note r = release_owed [OF c [unfolded os2] queue_inv_small [OF inv]]
    have sf: "the_queue s' = release (length f) (the_queue s)" "receiver s' = Waiting" "senders s' = senders s" "pushed s' = pushed s"
      "written s' = written s" "discarded s' = discarded s" by (simp_all add: s'_def)
    show ?thesis unfolding e using r I Taken os2 by (simp add: queue_inv_def sf)
  next
    case Draining
    show ?thesis
  proof (cases "channel (the_queue s)")
      case Nil
      then show ?thesis using inv Draining by (simp add: queue_inv_def owed_def)
    next
      case (Cons f rest)
      define s' where "s' = s\<lparr>the_queue := (the_queue s)\<lparr>channel := rest\<rparr>, receiver := Drained f, discarded := discarded s @ [f]\<rparr>"
      have e: "queue_step ReceiverActs s = s'" using Cons Draining by (simp add: s'_def)
      have os2: "owed s' = owed s" using Cons Draining os by (simp add: s'_def owed_def S_def)
      have sf: "the_queue s' = (the_queue s)\<lparr>channel := rest\<rparr>" "receiver s' = Drained f" "senders s' = senders s" "pushed s' = pushed s"
        "written s' = written s" "discarded s' = discarded s @ [f]" by (simp_all add: s'_def)
      show ?thesis unfolding e using I Draining os2 Cons by (simp add: queue_inv_def sf)
    qed
  next
    case (Drained f)
    define s' where "s' = s\<lparr>the_queue := release (length f) (the_queue s), receiver := Draining\<rparr>"
    have e: "queue_step ReceiverActs s = s'" using Drained by (simp add: s'_def)
    have os2: "owed s = add_mset f (owed s')" using Drained os by (simp add: s'_def owed_def S_def release_def)
    note r = release_owed [OF c [unfolded os2] queue_inv_small [OF inv]]
    have sf: "the_queue s' = release (length f) (the_queue s)" "receiver s' = Draining" "senders s' = senders s" "pushed s' = pushed s"
      "written s' = written s" "discarded s' = discarded s" by (simp_all add: s'_def)
    show ?thesis unfolding e using r I Drained os2 by (simp add: queue_inv_def sf)
  next
    case Gone
    then show ?thesis using inv by simp
  qed
qed

lemma queue_step_inv:
  assumes "queue_inv s" and "\<And>f. e = StartSend f \<Longrightarrow> length f < 2 ^ 63"
  shows "queue_inv (queue_step e s)"
proof (cases e)
  case (StartSend f)
  then show ?thesis using assms by (simp add: queue_inv_def owed_def)
next
  case (SenderActs i)
  then show ?thesis using sender_inv [OF assms(1), of i] assms(1) by (cases "i < length (senders s)") simp_all
next
  case ReceiverActs
  then show ?thesis using receiver_inv [OF assms(1)] by simp
next
  case DropReceiver
  then show ?thesis using assms(1) by (cases "receiver s = Waiting") (auto simp: queue_inv_def owed_def)
qed

lemma queue_run_inv:
  assumes "n < u64_max" and "\<forall>f. StartSend f \<in> set es \<longrightarrow> length f < 2 ^ 63"
  shows "queue_inv (queue_run n es)"
  using assms(2)
proof (induction es rule: rev_induct)
  case Nil
  then show ?case using assms(1)
    by (simp add: queue_run_def system_new_def channel_with_limit_def queue_inv_def owed_def within_bound_def)
next
  case (snoc e es)
  then show ?case using queue_step_inv [of "queue_run n es" e] by (auto simp: queue_run_def)
qed

subsection \<open>The steps and the whole operations\<close>

definition sender_moves :: "string \<Rightarrow> send_queue \<times> sender_at \<Rightarrow> send_queue \<times> sender_at" where
  "sender_moves frame x = (case sender_action frame (snd x) (fst x) of (q, at, _) \<Rightarrow> (q, at))"

lemma funpow_four: "(f ^^ 4) x = f (f (f (f x)))"
  by (simp add: eval_nat_numeral)

lemma send_alone: "(sender_moves frame ^^ 4) (q, Checking) = (fst (try_send frame q), Done (snd (try_send frame q)))"
  unfolding funpow_four
  by (auto simp: sender_moves_def sender_action_def try_send_def reserve_def split: option.splits)

lemma recv_alone:
  assumes "receiver s = Waiting" and "recv (the_queue s) = Some (q, f)"
  shows "queue_step ReceiverActs (queue_step ReceiverActs s) = s\<lparr>the_queue := q, written := written s @ [f]\<rparr>"
  using assms by (auto simp: recv_def split: list.splits)

lemma funpow_two: "(f ^^ (m + 2)) x = (f ^^ m) (f (f x))"
  by (simp add: funpow_swap1)

lemma drain_alone:
  "receiver s = Draining \<Longrightarrow> channel (the_queue s) = fs \<Longrightarrow>
     (queue_step ReceiverActs ^^ (2 * length fs + 1)) s =
     s\<lparr>the_queue := fold (\<lambda>frame q. release (length frame) (q\<lparr>channel := tl (channel q)\<rparr>)) fs (the_queue s),
       receiver := Gone, discarded := discarded s @ fs\<rparr>"
proof (induction fs arbitrary: s)
  case Nil
  then show ?case by simp
next
  case (Cons f fs)
  define s' where "s' = s\<lparr>the_queue := release (length f) ((the_queue s)\<lparr>channel := fs\<rparr>), discarded := discarded s @ [f]\<rparr>"
  have two: "queue_step ReceiverActs (queue_step ReceiverActs s) = s'" using Cons.prems by (simp add: s'_def)
  have "2 * length (f # fs) + 1 = (2 * length fs + 1) + 2" by simp
  then have "(queue_step ReceiverActs ^^ (2 * length (f # fs) + 1)) s = (queue_step ReceiverActs ^^ (2 * length fs + 1)) s'"
    by (simp only: funpow_two two)
  also have "\<dots> = s'\<lparr>the_queue := fold (\<lambda>frame q. release (length frame) (q\<lparr>channel := tl (channel q)\<rparr>)) fs (the_queue s'),
       receiver := Gone, discarded := discarded s' @ fs\<rparr>"
  proof (rule Cons.IH)
    show "receiver s' = Draining" "channel (the_queue s') = fs" using Cons.prems by (simp_all add: s'_def release_def)
  qed
  finally show ?case using Cons.prems by (simp only:) (simp add: s'_def)
qed

lemma drop_alone:
  assumes "receiver s = Waiting"
  shows "(queue_step ReceiverActs ^^ (2 * length (channel (the_queue s)) + 1)) (queue_step DropReceiver s) =
    s\<lparr>the_queue := fst (drop_receiver (the_queue s)), receiver := Gone, discarded := discarded s @ snd (drop_receiver (the_queue s))\<rparr>"
proof -
  define s' where "s' = queue_step DropReceiver s"
  have "receiver s' = Draining" "channel (the_queue s') = channel (the_queue s)" using assms by (simp_all add: s'_def)
  note d = drain_alone [OF this]
  show ?thesis unfolding s'_def [symmetric] d
    using assms by (simp add: s'_def drop_receiver_def Let_def)
qed

subsection \<open>What was sent\<close>

abbreviation sent_frames :: "queue_system \<Rightarrow> string list" where
  "sent_frames s \<equiv> map fst (filter (\<lambda>x. snd x = Done Sent) (senders s))"

lemma filter_update:
  "i < length xs \<Longrightarrow> mset (map f (filter P (xs[i := x]))) + mset (if P (xs ! i) then [f (xs ! i)] else []) =
     mset (map f (filter P xs)) + mset (if P x then [f x] else [])"
proof (induction xs arbitrary: i)
  case Nil
  then show ?case by simp
next
  case (Cons a xs)
  show ?case
  proof (cases i)
    case 0
    then show ?thesis by simp
  next
    case (Suc j)
    then show ?thesis using Cons.IH [of j] Cons.prems by (simp split: if_splits)
  qed
qed

lemma pushed_are_sent: "mset (pushed (queue_run n es)) = mset (sent_frames (queue_run n es))"
proof (induction es rule: rev_induct)
  case Nil
  then show ?case by (simp add: queue_run_def system_new_def)
next
  case (snoc e es)
  let ?s = "queue_run n es"
  have e: "queue_run n (es @ [e]) = queue_step e ?s" by (simp add: queue_run_def)
  show ?case unfolding e
  proof (cases e)
    case (SenderActs i)
    show "mset (pushed (queue_step e ?s)) = mset (sent_frames (queue_step e ?s))"
    proof (cases "i < length (senders ?s)")
      case True
      obtain f at where x: "senders ?s ! i = (f, at)" by force
      obtain q at' new where a: "sender_action f at (the_queue ?s) = (q, at', new)" by (metis prod_cases3)
      have "mset new + mset (if at = Done Sent then [f] else []) = mset (if at' = Done Sent then [f] else [])"
        using a by (auto simp: sender_action_def split: sender_at.splits if_splits option.splits)
      then show ?thesis
        using filter_update [OF True, of fst "\<lambda>x. snd x = Done Sent" "(f, at')"] x a True snoc SenderActs
        by (auto split: if_splits) 
    qed (use snoc SenderActs in simp)
  next
    case ReceiverActs
    then show "mset (pushed (queue_step e ?s)) = mset (sent_frames (queue_step e ?s))"
      using snoc by (simp add: Let_def split: receiver_at.splits list.splits)
  qed (use snoc in simp_all)
qed

text \<open>
  C12.  Whatever senders, the writer and the drop of the receiving half do between each other's atomic accesses:
  a frame is in the channel exactly when its sender was told so, and the frames come out in the order they went
  in, written first, then what the drop discards, none lost or doubled.  The counter is the octets of the frames
  that are queued, reserved or just taken; it never passes the limit except while it stands for one single frame
  that is larger.  When the receiver is gone and every send has returned, the counter is zero.  And each
  operation nothing gets between does as its code says.
\<close>

theorem send_queue_accounts:
  assumes "n < u64_max" and "\<forall>f. StartSend f \<in> set es \<longrightarrow> length f < 2 ^ 63" and "s = queue_run n es"
  shows "pushed s = written s @ discarded s @ channel (the_queue s) \<and>
    mset (pushed s) = mset (sent_frames s) \<and>
    queued (the_queue s) = octets (owed s) \<and>
    (queued (the_queue s) \<le> queue_limit (the_queue s) \<or> (\<exists>f \<in># owed s. queued (the_queue s) = length f)) \<and>
    (receiver s = Gone \<and> (\<forall>x \<in> set (senders s). \<exists>r. snd x = Done r) \<longrightarrow>
       queued (the_queue s) = 0 \<and> pushed s = written s @ discarded s) \<and>
    (\<forall>q frame. (sender_moves frame ^^ 4) (q, Checking) = (fst (try_send frame q), Done (snd (try_send frame q)))) \<and>
    (\<forall>t q f. receiver t = Waiting \<and> recv (the_queue t) = Some (q, f) \<longrightarrow>
       queue_step ReceiverActs (queue_step ReceiverActs t) = t\<lparr>the_queue := q, written := written t @ [f]\<rparr>) \<and>
    (\<forall>t. receiver t = Waiting \<longrightarrow>
       (queue_step ReceiverActs ^^ (2 * length (channel (the_queue t)) + 1)) (queue_step DropReceiver t) =
       t\<lparr>the_queue := fst (drop_receiver (the_queue t)), receiver := Gone, discarded := discarded t @ snd (drop_receiver (the_queue t))\<rparr>)"
proof (intro conjI impI)
  have inv: "queue_inv s" using queue_run_inv [OF assms(1,2)] assms(3) by simp
  have wb: "within_bound (the_queue s) (owed s)" using inv by (simp add: queue_inv_def)
  show p: "pushed s = written s @ discarded s @ channel (the_queue s)" using inv by (simp add: queue_inv_def)
  show "mset (pushed s) = mset (sent_frames s)" using pushed_are_sent assms(3) by simp
  show o: "queued (the_queue s) = octets (owed s)" using inv by (simp add: queue_inv_def)
  show "queued (the_queue s) \<le> queue_limit (the_queue s) \<or> (\<exists>f \<in># owed s. queued (the_queue s) = length f)"
    using wb by (simp add: within_bound_def)
  show "\<forall>q frame. (sender_moves frame ^^ 4) (q, Checking) = (fst (try_send frame q), Done (snd (try_send frame q)))"
    using send_alone by blast
  show "\<forall>t q f. receiver t = Waiting \<and> recv (the_queue t) = Some (q, f) \<longrightarrow>
       queue_step ReceiverActs (queue_step ReceiverActs t) = t\<lparr>the_queue := q, written := written t @ [f]\<rparr>"
    using recv_alone by blast
  show "\<forall>t. receiver t = Waiting \<longrightarrow>
       (queue_step ReceiverActs ^^ (2 * length (channel (the_queue t)) + 1)) (queue_step DropReceiver t) =
       t\<lparr>the_queue := fst (drop_receiver (the_queue t)), receiver := Gone, discarded := discarded t @ snd (drop_receiver (the_queue t))\<rparr>"
    using drop_alone by blast
  assume a: "receiver s = Gone \<and> (\<forall>x \<in> set (senders s). \<exists>r. snd x = Done r)"
  then have ch: "channel (the_queue s) = []" using inv by (simp add: queue_inv_def)
  have "\<forall>x \<in> set (senders s). owed_sender x = []" using a by (auto simp: owed_sender_def)
  then have "concat (map owed_sender (senders s)) = []" by simp
  then have "owed s = {#}" using a ch by (simp add: owed_def)
  then show "queued (the_queue s) = 0" using o by simp
  show "pushed s = written s @ discarded s" using p ch by simp
qed

definition sample_queue :: "queue_event list" where
  "sample_queue =
     [StartSend ''INVITE'', StartSend ''BYE'', SenderActs 0, SenderActs 1, SenderActs 0, SenderActs 1, SenderActs 0,
      ReceiverActs, DropReceiver, ReceiverActs, DropReceiver, SenderActs 1, ReceiverActs]"

theorem send_queue_accounts_witness:
  "pushed (queue_run 4 sample_queue) = written (queue_run 4 sample_queue) @ discarded (queue_run 4 sample_queue) \<and>
   queued (the_queue (queue_run 4 sample_queue)) = 0"
proof -
  have "receiver (queue_run 4 sample_queue) = Gone \<and> (\<forall>x \<in> set (senders (queue_run 4 sample_queue)). \<exists>r. snd x = Done r)"
    by (simp add: sample_queue_def queue_run_def system_new_def channel_with_limit_def sender_action_def reserve_def release_def)
  then show ?thesis
    using send_queue_accounts [of 4 sample_queue "queue_run 4 sample_queue"] by (auto simp: sample_queue_def)
qed

end
