(* ===== verification/Fallback_Lanes.thy ===== *)
theory Fallback_Lanes
  imports Siphon_Prelude "HOL-Library.AList" "HOL-Library.Sublist"
begin

text \<open>
  Sends that have no live connection go through lanes, one per destination: \<^verbatim>\<open>FallbackLanes\<close> and
  \<^verbatim>\<open>run_fallback_lane\<close> of \<^verbatim>\<open>src/src/transport/stream.rs\<close>.  A lane is a task with a bounded channel; the
  map of lanes is used under its lock, so an access is one step, and so is each thing a task does: take a
  message, finish its send, try to retire when its idle time is over.  A send may also panic, which ends its
  task.  Addresses are numbers and a task is known by its place in the list of all tasks started.
\<close>

subsection \<open>Lanes\<close>

record lane_message =
  destination :: nat
  payload :: string

definition FALLBACK_LANE_CAPACITY :: nat where
  "FALLBACK_LANE_CAPACITY = 64"

datatype lane_phase = LaneIdle | LaneSending | LaneEnded

record lane_task =
  lane_destination :: nat
  lane_id :: nat
  lane_queue :: "lane_message list"
  lane_phase :: lane_phase

text \<open>An entry of the map: the number of the lane and the task that holds the other end of its channel.\<close>

record fallback_lane =
  fl_id :: nat
  fl_task :: nat

record fallback_lanes =
  lanes :: "(nat \<times> fallback_lane) list"
  next_id :: nat
  tasks :: "lane_task list"
  accepted :: "lane_message list"
  sent :: "lane_message list"

definition lanes_new :: fallback_lanes where
  "lanes_new = \<lparr>lanes = [], next_id = 0, tasks = [], accepted = [], sent = []\<rparr>"

datatype enqueue_result = Enqueued lane_task | LaneFull | LaneClosed

definition lane_try_send :: "lane_message \<Rightarrow> lane_task \<Rightarrow> enqueue_result" where
  "lane_try_send m t =
     (if lane_phase t = LaneEnded then LaneClosed
      else if FALLBACK_LANE_CAPACITY \<le> length (lane_queue t) then LaneFull
      else Enqueued (t\<lparr>lane_queue := lane_queue t @ [m]\<rparr>))"

definition new_lane :: "lane_message \<Rightarrow> fallback_lanes \<Rightarrow> fallback_lanes" where
  "new_lane m s =
     s\<lparr>lanes := AList.update (destination m) \<lparr>fl_id = next_id s, fl_task = length (tasks s)\<rparr> (lanes s),
       next_id := (next_id s + 1) mod 2 ^ 64,
       tasks := tasks s @ [\<lparr>lane_destination = destination m, lane_id = next_id s, lane_queue = [m], lane_phase = LaneIdle\<rparr>],
       accepted := accepted s @ [m]\<rparr>"

definition lane_dispatch :: "lane_message \<Rightarrow> fallback_lanes \<Rightarrow> fallback_lanes \<times> bool" where
  "lane_dispatch m s =
     (case map_of (lanes s) (destination m) of
        Some lane \<Rightarrow>
          (case lane_try_send m (tasks s ! fl_task lane) of
             Enqueued t \<Rightarrow> (s\<lparr>tasks := (tasks s)[fl_task lane := t], accepted := accepted s @ [m]\<rparr>, True)
           | LaneFull \<Rightarrow> (s, False)
           | LaneClosed \<Rightarrow> (new_lane m s, True))
      | None \<Rightarrow> (new_lane m s, True))"

definition retire_fallback_lane :: "nat \<Rightarrow> fallback_lanes \<Rightarrow> fallback_lanes" where
  "retire_fallback_lane i s =
     (let t = tasks s ! i
      in if lane_queue t \<noteq> [] then s
         else s\<lparr>lanes := (case map_of (lanes s) (lane_destination t) of
                   Some lane \<Rightarrow> if fl_id lane = lane_id t then AList.delete (lane_destination t) (lanes s) else lanes s
                 | None \<Rightarrow> lanes s),
               tasks := (tasks s)[i := t\<lparr>lane_phase := LaneEnded\<rparr>]\<rparr>)"

datatype lane_event = Dispatch lane_message | LaneTakes nat | LaneSent nat | LaneIdles nat | LaneOrphaned nat | LanePanics nat

text \<open>One step of the task \<open>i\<close>, or a dispatch.\<close>

fun lane_step :: "lane_event \<Rightarrow> fallback_lanes \<Rightarrow> fallback_lanes" where
  "lane_step (Dispatch m) s = fst (lane_dispatch m s)"
| "lane_step (LaneTakes i) s =
     (if i < length (tasks s) \<and> lane_phase (tasks s ! i) = LaneIdle
      then case lane_queue (tasks s ! i) of
             [] \<Rightarrow> s
           | m # ms \<Rightarrow> s\<lparr>tasks := (tasks s)[i := (tasks s ! i)\<lparr>lane_queue := ms, lane_phase := LaneSending\<rparr>], sent := sent s @ [m]\<rparr>
      else s)"
| "lane_step (LaneSent i) s =
     (if i < length (tasks s) \<and> lane_phase (tasks s ! i) = LaneSending
      then s\<lparr>tasks := (tasks s)[i := (tasks s ! i)\<lparr>lane_phase := LaneIdle\<rparr>]\<rparr> else s)"
| "lane_step (LaneIdles i) s =
     (if i < length (tasks s) \<and> lane_phase (tasks s ! i) = LaneIdle then retire_fallback_lane i s else s)"
| "lane_step (LaneOrphaned i) s =
     (if i < length (tasks s) \<and> lane_phase (tasks s ! i) = LaneIdle \<and> lane_queue (tasks s ! i) = [] \<and>
         list_all (\<lambda>(d, lane). fl_task lane \<noteq> i) (lanes s)
      then s\<lparr>tasks := (tasks s)[i := (tasks s ! i)\<lparr>lane_phase := LaneEnded\<rparr>]\<rparr> else s)"
| "lane_step (LanePanics i) s =
     (if i < length (tasks s) \<and> lane_phase (tasks s ! i) = LaneSending
      then s\<lparr>tasks := (tasks s)[i := (tasks s ! i)\<lparr>lane_queue := [], lane_phase := LaneEnded\<rparr>]\<rparr> else s)"

definition lanes_run :: "lane_event list \<Rightarrow> fallback_lanes" where
  "lanes_run es = foldl (\<lambda>s e. lane_step e s) lanes_new es"

subsection \<open>What holds between the steps\<close>

abbreviation running :: "lane_task \<Rightarrow> bool" where
  "running t \<equiv> lane_phase t \<noteq> LaneEnded"

definition for_dest :: "nat \<Rightarrow> lane_message list \<Rightarrow> lane_message list" where
  "for_dest d ms = filter (\<lambda>m. destination m = d) ms"

definition waiting_for :: "nat \<Rightarrow> fallback_lanes \<Rightarrow> lane_message list" where
  "waiting_for d s =
     (case map_of (lanes s) d of
        Some lane \<Rightarrow> if running (tasks s ! fl_task lane) then lane_queue (tasks s ! fl_task lane) else []
      | None \<Rightarrow> [])"

definition lanes_wf :: "fallback_lanes \<Rightarrow> bool" where
  "lanes_wf s \<longleftrightarrow>
     distinct (map fst (lanes s)) \<and>
     (\<forall>d lane. map_of (lanes s) d = Some lane \<longrightarrow>
        fl_task lane < length (tasks s) \<and> lane_destination (tasks s ! fl_task lane) = d \<and> lane_id (tasks s ! fl_task lane) = fl_id lane) \<and>
     (\<forall>i < length (tasks s). running (tasks s ! i) \<longrightarrow>
        map_of (lanes s) (lane_destination (tasks s ! i)) = Some \<lparr>fl_id = lane_id (tasks s ! i), fl_task = i\<rparr>) \<and>
     (\<forall>t \<in> set (tasks s). length (lane_queue t) \<le> FALLBACK_LANE_CAPACITY \<and> (\<forall>m \<in> set (lane_queue t). destination m = lane_destination t))"

definition lanes_order :: "fallback_lanes \<Rightarrow> bool" where
  "lanes_order s \<longleftrightarrow> (\<forall>d. subseq (for_dest d (sent s) @ waiting_for d s) (for_dest d (accepted s)))"

definition lanes_no_loss :: "fallback_lanes \<Rightarrow> bool" where
  "lanes_no_loss s \<longleftrightarrow>
     (\<forall>d. for_dest d (accepted s) = for_dest d (sent s) @ waiting_for d s) \<and>
     (\<forall>d lane. map_of (lanes s) d = Some lane \<longrightarrow> running (tasks s ! fl_task lane))"

lemma wf_entry:
  "lanes_wf s \<Longrightarrow> map_of (lanes s) d = Some lane \<Longrightarrow>
     fl_task lane < length (tasks s) \<and> lane_destination (tasks s ! fl_task lane) = d \<and> lane_id (tasks s ! fl_task lane) = fl_id lane"
  by (simp add: lanes_wf_def)

lemma wf_running:
  "lanes_wf s \<Longrightarrow> i < length (tasks s) \<Longrightarrow> running (tasks s ! i) \<Longrightarrow>
     map_of (lanes s) (lane_destination (tasks s ! i)) = Some \<lparr>fl_id = lane_id (tasks s ! i), fl_task = i\<rparr>"
  by (simp add: lanes_wf_def)

lemma wf_queue:
  "lanes_wf s \<Longrightarrow> t \<in> set (tasks s) \<Longrightarrow>
     length (lane_queue t) \<le> FALLBACK_LANE_CAPACITY \<and> (\<forall>m \<in> set (lane_queue t). destination m = lane_destination t)"
  by (simp add: lanes_wf_def)

lemma wf_update:
  assumes wf: "lanes_wf s" and i: "i < length (tasks s)" and l: "lanes s' = lanes s" and t: "tasks s' = (tasks s)[i := t']"
    and same: "lane_destination t' = lane_destination (tasks s ! i)" "lane_id t' = lane_id (tasks s ! i)"
    and run: "running t' \<Longrightarrow> running (tasks s ! i)"
    and q: "length (lane_queue t') \<le> FALLBACK_LANE_CAPACITY" "\<forall>m \<in> set (lane_queue t'). destination m = lane_destination t'"
  shows "lanes_wf s'"
proof -
  have nth: "tasks s' ! j = (if j = i then t' else tasks s ! j)" if "j < length (tasks s)" for j
    using that i by (auto simp: t nth_list_update)
  have len: "length (tasks s') = length (tasks s)" by (simp add: t)
  have "set (tasks s') \<subseteq> insert t' (set (tasks s))" by (simp add: t set_update_subset_insert)
  then have qs: "\<forall>u \<in> set (tasks s'). length (lane_queue u) \<le> FALLBACK_LANE_CAPACITY \<and> (\<forall>m \<in> set (lane_queue u). destination m = lane_destination u)"
    using wf_queue [OF wf] q by blast
  have e: "fl_task lane < length (tasks s') \<and> lane_destination (tasks s' ! fl_task lane) = d \<and> lane_id (tasks s' ! fl_task lane) = fl_id lane"
    if "map_of (lanes s') d = Some lane" for d lane
    using wf_entry [OF wf, of d lane] that l same nth [of "fl_task lane"] len by auto
  have r: "map_of (lanes s') (lane_destination (tasks s' ! j)) = Some \<lparr>fl_id = lane_id (tasks s' ! j), fl_task = j\<rparr>"
    if "j < length (tasks s')" "running (tasks s' ! j)" for j
  proof (cases "j = i")
    case True
    then show ?thesis using wf_running [OF wf i] that nth [of j] len run same l by simp
  next
    case False
    then show ?thesis using wf_running [OF wf, of j] that nth [of j] len l by simp
  qed
  show ?thesis unfolding lanes_wf_def using wf l e r qs by (simp add: lanes_wf_def)
qed

lemma waiting_update:
  assumes wf: "lanes_wf s" and i: "i < length (tasks s)" and l: "lanes s' = lanes s" and t: "tasks s' = (tasks s)[i := t']"
    and run: "running (tasks s ! i)"
  shows "waiting_for d s' =
    (if d = lane_destination (tasks s ! i) then (if running t' then lane_queue t' else []) else waiting_for d s)"
proof (cases "d = lane_destination (tasks s ! i)")
  case True
  then show ?thesis using wf_running [OF wf i run] l t i by (simp add: waiting_for_def)
next
  case False
  have "fl_task lane \<noteq> i" if "map_of (lanes s) d = Some lane" for lane
    using wf_entry [OF wf that] False by auto
  then show ?thesis using False l t by (auto simp: waiting_for_def split: option.splits)
qed

lemma waiting_running: "lanes_wf s \<Longrightarrow> i < length (tasks s) \<Longrightarrow> running (tasks s ! i) \<Longrightarrow>
    waiting_for (lane_destination (tasks s ! i)) s = lane_queue (tasks s ! i)"
  using wf_running by (simp add: waiting_for_def)

lemma for_dest_simps [simp]: "for_dest d [] = []" "for_dest d (ms @ ns) = for_dest d ms @ for_dest d ns"
  "for_dest d [m] = (if destination m = d then [m] else [])"
  by (simp_all add: for_dest_def)

definition lanes_inv :: "bool \<Rightarrow> fallback_lanes \<Rightarrow> bool" where
  "lanes_inv calm s \<longleftrightarrow> lanes_wf s \<and> lanes_order s \<and> (calm \<longrightarrow> lanes_no_loss s)"

text \<open>A step that changes one task and leaves the map alone.\<close>

lemma inv_update:
  assumes inv: "lanes_inv calm s" and i: "i < length (tasks s)" and l: "lanes s' = lanes s" and t: "tasks s' = (tasks s)[i := t']"
    and same: "lane_destination t' = lane_destination (tasks s ! i)" "lane_id t' = lane_id (tasks s ! i)"
    and run: "running (tasks s ! i)" and run': "running t'"
    and q: "length (lane_queue t') \<le> FALLBACK_LANE_CAPACITY" "\<forall>m \<in> set (lane_queue t'). destination m = lane_destination t'"
    and a: "accepted s' = accepted s @ as" and b: "sent s' = sent s @ bs"
    and as: "\<forall>m \<in> set as. destination m = lane_destination (tasks s ! i)"
    and bs: "\<forall>m \<in> set bs. destination m = lane_destination (tasks s ! i)"
    and bal: "lane_queue (tasks s ! i) @ as = bs @ lane_queue t'"
  shows "lanes_inv calm s'"
proof -
  note wf = inv [unfolded lanes_inv_def, THEN conjunct1]
  let ?d = "lane_destination (tasks s ! i)"
  have fd: "for_dest d as = (if d = ?d then as else [])" "for_dest d bs = (if d = ?d then bs else [])" for d
    using as bs by (auto simp: for_dest_def filter_id_conv filter_empty_conv)
  have w: "waiting_for d s' = (if d = ?d then lane_queue t' else waiting_for d s)" for d
    using waiting_update [OF wf i l t run, of d] run' by simp
  have flow: "for_dest d (sent s') @ waiting_for d s' = for_dest d (sent s) @ waiting_for d s @ (if d = ?d then as else [])" for d
    using fd [of d] w [of d] bal waiting_running [OF wf i run] by (simp add: b)
  have acc: "for_dest d (accepted s') = for_dest d (accepted s) @ (if d = ?d then as else [])" for d
    using fd [of d] by (simp add: a)
  have "lanes_order s'"
    unfolding lanes_order_def flow acc using inv list_emb_append_mono [of "(=)"]
    by (auto simp: lanes_inv_def lanes_order_def simp flip: append_assoc)
  moreover have "lanes_no_loss s'" if calm
  proof -
    have nl: "lanes_no_loss s" using inv that by (simp add: lanes_inv_def)
    have "running (tasks s' ! fl_task lane)" if "map_of (lanes s') d = Some lane" for d lane
      using nl that l t run' i wf_entry [OF wf, of d lane] by (auto simp: lanes_no_loss_def nth_list_update)
    moreover have "for_dest d (accepted s') = for_dest d (sent s') @ waiting_for d s'" for d
      unfolding flow acc using nl by (simp add: lanes_no_loss_def)
    ultimately show ?thesis by (simp add: lanes_no_loss_def)
  qed
  moreover have "lanes_wf s'" using wf_update [OF wf i l t same _ q] run by simp
  ultimately show ?thesis by (simp add: lanes_inv_def)
qed

lemma inv_new_lane:
  assumes inv: "lanes_inv calm s"
    and idle: "\<And>lane. map_of (lanes s) (destination m) = Some lane \<Longrightarrow> \<not> running (tasks s ! fl_task lane)"
  shows "lanes_inv calm (new_lane m s)"
proof -
  note wf = inv [unfolded lanes_inv_def, THEN conjunct1]
  let ?d = "destination m" and ?s = "new_lane m s" and ?n = "length (tasks s)"
  have mo: "map_of (lanes ?s) d = (if d = ?d then Some \<lparr>fl_id = next_id s, fl_task = ?n\<rparr> else map_of (lanes s) d)" for d
    by (simp add: new_lane_def update_conv')
  have nth: "tasks ?s ! j = (if j = ?n then \<lparr>lane_destination = ?d, lane_id = next_id s, lane_queue = [m], lane_phase = LaneIdle\<rparr> else tasks s ! j)"
    if "j \<le> ?n" for j using that by (auto simp: new_lane_def nth_append)
  have len: "length (tasks ?s) = Suc ?n" by (simp add: new_lane_def)
  have none: "waiting_for ?d s = []" using idle by (auto simp: waiting_for_def split: option.splits)
  have w: "waiting_for d ?s = (if d = ?d then [m] else waiting_for d s)" for d
    using mo [of d] nth wf_entry [OF wf, of d] by (auto simp: waiting_for_def split: option.splits dest: less_imp_le)
  have lg: "sent ?s = sent s" "accepted ?s = accepted s @ [m]" by (simp_all add: new_lane_def)
  have "lanes_wf ?s"
  proof -
    have "distinct (map fst (lanes ?s))" using wf by (simp add: lanes_wf_def new_lane_def distinct_update)
    moreover have "fl_task lane < length (tasks ?s) \<and> lane_destination (tasks ?s ! fl_task lane) = d \<and> lane_id (tasks ?s ! fl_task lane) = fl_id lane"
      if "map_of (lanes ?s) d = Some lane" for d lane
      using that mo [of d] wf_entry [OF wf, of d lane] nth [of "fl_task lane"] len by (auto split: if_splits)
    moreover have "map_of (lanes ?s) (lane_destination (tasks ?s ! j)) = Some \<lparr>fl_id = lane_id (tasks ?s ! j), fl_task = j\<rparr>"
      if j: "j < length (tasks ?s)" "running (tasks ?s ! j)" for j
    proof (cases "j = ?n")
      case True
      then show ?thesis using nth [of j] mo by simp
    next
      case False
      then have "j < ?n" "tasks ?s ! j = tasks s ! j" using j len nth [of j] by auto
      then show ?thesis using wf_running [OF wf, of j] idle j(2) mo [of "lane_destination (tasks s ! j)"] by auto
    qed
    moreover have "\<forall>t \<in> set (tasks ?s). length (lane_queue t) \<le> FALLBACK_LANE_CAPACITY \<and> (\<forall>m \<in> set (lane_queue t). destination m = lane_destination t)"
      using wf_queue [OF wf] by (auto simp: new_lane_def FALLBACK_LANE_CAPACITY_def)
    ultimately show ?thesis by (simp add: lanes_wf_def)
  qed
  moreover have ord: "subseq (for_dest d (sent s) @ waiting_for d s) (for_dest d (accepted s))" for d
    using inv by (simp add: lanes_inv_def lanes_order_def)
  have "lanes_order ?s"
    using ord ord [of ?d] w none by (auto simp: lanes_order_def lg)
  moreover have "lanes_no_loss ?s" if calm
  proof -
    have nl: "lanes_no_loss s" using inv that by (simp add: lanes_inv_def)
    have "running (tasks ?s ! fl_task lane)" if "map_of (lanes ?s) d = Some lane" for d lane
      using that mo [of d] nl wf_entry [OF wf, of d lane] nth [of "fl_task lane"] by (auto simp: lanes_no_loss_def split: if_splits)
    then show ?thesis using nl w none by (auto simp: lanes_no_loss_def lg)
  qed
  ultimately show ?thesis by (simp add: lanes_inv_def)
qed

lemma inv_dispatch: "lanes_inv calm s \<Longrightarrow> lanes_inv calm (fst (lane_dispatch m s))"
proof -
  assume inv: "lanes_inv calm s"
  note wf = inv [unfolded lanes_inv_def, THEN conjunct1]
  show ?thesis
  proof (cases "map_of (lanes s) (destination m)")
    case None
    then show ?thesis using inv_new_lane [OF inv, of m] by (simp add: lane_dispatch_def)
  next
    case (Some lane)
    let ?i = "fl_task lane"
    have i: "?i < length (tasks s)" "lane_destination (tasks s ! ?i) = destination m" using wf_entry [OF wf Some] by auto
    show ?thesis
    proof (cases "lane_try_send m (tasks s ! ?i)")
      case LaneFull
      then show ?thesis using inv Some by (simp add: lane_dispatch_def)
    next
      case LaneClosed
      then have "\<not> running (tasks s ! ?i)" by (auto simp: lane_try_send_def split: if_splits)
      then show ?thesis using inv_new_lane [OF inv, of m] Some LaneClosed by (simp add: lane_dispatch_def)
    next
      case (Enqueued t)
      then have r: "running (tasks s ! ?i)" and room: "length (lane_queue (tasks s ! ?i)) < FALLBACK_LANE_CAPACITY"
        and t: "t = (tasks s ! ?i)\<lparr>lane_queue := lane_queue (tasks s ! ?i) @ [m]\<rparr>"
        by (auto simp: lane_try_send_def split: if_splits)
      have q: "\<forall>m \<in> set (lane_queue (tasks s ! ?i)). destination m = lane_destination (tasks s ! ?i)"
        using wf_queue [OF wf nth_mem [OF i(1)]] by simp
      have "lanes_inv calm (s\<lparr>tasks := (tasks s)[?i := t], accepted := accepted s @ [m]\<rparr>)"
        by (rule inv_update [OF inv i(1), where t' = t and as = "[m]" and bs = "[]"]) (use r room t q i(2) in auto)
      then show ?thesis using Some Enqueued by (simp add: lane_dispatch_def)
    qed
  qed
qed

lemma inv_retire:
  assumes inv: "lanes_inv calm s" and i: "i < length (tasks s)" and run: "running (tasks s ! i)"
  shows "lanes_inv calm (retire_fallback_lane i s)"
proof (cases "lane_queue (tasks s ! i) = []")
  case False
  then show ?thesis using inv by (simp add: retire_fallback_lane_def)
next
  case True
  note wf = inv [unfolded lanes_inv_def, THEN conjunct1]
  let ?d = "lane_destination (tasks s ! i)" and ?t = "(tasks s ! i)\<lparr>lane_phase := LaneEnded\<rparr>" and ?s = "retire_fallback_lane i s"
  have own: "map_of (lanes s) ?d = Some \<lparr>fl_id = lane_id (tasks s ! i), fl_task = i\<rparr>" by (rule wf_running [OF wf i run])
  have s': "?s = s\<lparr>lanes := AList.delete ?d (lanes s), tasks := (tasks s)[i := ?t]\<rparr>"
    using True own by (simp add: retire_fallback_lane_def Let_def)
  have mo: "map_of (lanes ?s) d = (if d = ?d then None else map_of (lanes s) d)" for d
    by (simp add: s' delete_conv')
  have other: "fl_task lane \<noteq> i" if "map_of (lanes s) d = Some lane" "d \<noteq> ?d" for d lane
    using wf_entry [OF wf that(1)] that(2) by auto
  have nth: "tasks ?s ! j = (if j = i then ?t else tasks s ! j)" if "j < length (tasks s)" for j
    using that i by (auto simp: s' nth_list_update)
  have len: "length (tasks ?s) = length (tasks s)" by (simp add: s')
  have w: "waiting_for d ?s = waiting_for d s" for d
  proof (cases "d = ?d")
    case True
    then show ?thesis using mo waiting_running [OF wf i run] \<open>lane_queue (tasks s ! i) = []\<close> by (simp add: waiting_for_def)
  next
    case False
    then show ?thesis using mo [of d] other [of d] nth wf_entry [OF wf, of d]
      by (auto simp: waiting_for_def split: option.splits)
  qed
  have "lanes_wf ?s"
  proof -
    have "distinct (map fst (lanes ?s))" using wf by (simp add: lanes_wf_def s' distinct_delete)
    moreover have "fl_task lane < length (tasks ?s) \<and> lane_destination (tasks ?s ! fl_task lane) = d \<and> lane_id (tasks ?s ! fl_task lane) = fl_id lane"
      if "map_of (lanes ?s) d = Some lane" for d lane
      using that mo [of d] wf_entry [OF wf, of d lane] nth [of "fl_task lane"] other [of d lane] len by (auto split: if_splits)
    moreover have "map_of (lanes ?s) (lane_destination (tasks ?s ! j)) = Some \<lparr>fl_id = lane_id (tasks ?s ! j), fl_task = j\<rparr>"
      if j: "j < length (tasks ?s)" "running (tasks ?s ! j)" for j
    proof -
      have "j \<noteq> i" "tasks ?s ! j = tasks s ! j" using j nth [of j] len by auto
      then show ?thesis using wf_running [OF wf, of j] j len own mo [of "lane_destination (tasks s ! j)"] by auto
    qed
    moreover have "\<forall>t \<in> set (tasks ?s). length (lane_queue t) \<le> FALLBACK_LANE_CAPACITY \<and> (\<forall>m \<in> set (lane_queue t). destination m = lane_destination t)"
      using wf_queue [OF wf] wf_queue [OF wf nth_mem [OF i]] set_update_subset_insert [of "tasks s" i ?t] by (auto simp: s')
    ultimately show ?thesis by (simp add: lanes_wf_def)
  qed
  moreover have lg: "sent ?s = sent s" "accepted ?s = accepted s" by (simp_all add: s')
  moreover have "lanes_no_loss ?s" if "lanes_no_loss s"
    using that mo nth other wf_entry [OF wf] by (auto simp: lanes_no_loss_def lg w split: if_splits)
  ultimately show ?thesis using inv by (simp add: lanes_inv_def lanes_order_def w)
qed

lemma inv_panic:
  assumes inv: "lanes_inv False s" and i: "i < length (tasks s)" and run: "running (tasks s ! i)"
  shows "lanes_inv False (s\<lparr>tasks := (tasks s)[i := (tasks s ! i)\<lparr>lane_queue := [], lane_phase := LaneEnded\<rparr>]\<rparr>)"
proof -
  note wf = inv [unfolded lanes_inv_def, THEN conjunct1]
  let ?t = "(tasks s ! i)\<lparr>lane_queue := [], lane_phase := LaneEnded\<rparr>" and ?d = "lane_destination (tasks s ! i)"
  let ?s = "s\<lparr>tasks := (tasks s)[i := ?t]\<rparr>"
  have w: "waiting_for d ?s = (if d = ?d then [] else waiting_for d s)" for d
    using waiting_update [OF wf i, of ?s ?t d] run by simp
  have "lanes_wf ?s" by (rule wf_update [OF wf i, of _ ?t]) simp_all
  moreover have "subseq (for_dest d (sent ?s) @ waiting_for d ?s) (for_dest d (accepted ?s))" for d
  proof -
    have "subseq (for_dest d (sent ?s) @ waiting_for d ?s) (for_dest d (sent s) @ waiting_for d s)" using w [of d] by (auto intro: prefix_imp_subseq)
    moreover have "subseq (for_dest d (sent s) @ waiting_for d s) (for_dest d (accepted s))"
      using inv by (simp add: lanes_inv_def lanes_order_def)
    ultimately show ?thesis using subseq_order.trans by (metis (no_types) fallback_lanes.simps(4) fallback_lanes.surjective fallback_lanes.update_convs(3))
  qed
  ultimately show ?thesis by (simp add: lanes_inv_def lanes_order_def)
qed

lemma inv_step:
  assumes inv: "lanes_inv calm s" and "\<And>i. e = LanePanics i \<Longrightarrow> \<not> calm"
  shows "lanes_inv calm (lane_step e s)"
proof -
  note wf = inv [unfolded lanes_inv_def, THEN conjunct1]
  show ?thesis
  proof (cases e)
    case (Dispatch m)
    then show ?thesis using inv_dispatch [OF inv] by simp
  next
    case (LaneTakes i)
    show ?thesis
    proof (cases "i < length (tasks s) \<and> lane_phase (tasks s ! i) = LaneIdle \<and> lane_queue (tasks s ! i) \<noteq> []")
      case True
      then obtain m ms where q: "lane_queue (tasks s ! i) = m # ms" by (cases "lane_queue (tasks s ! i)") auto
      let ?t = "(tasks s ! i)\<lparr>lane_queue := ms, lane_phase := LaneSending\<rparr>"
      have wq: "length (m # ms) \<le> FALLBACK_LANE_CAPACITY" "\<forall>x \<in> set (m # ms). destination x = lane_destination (tasks s ! i)"
        using wf_queue [OF wf, of "tasks s ! i"] True q by auto
      have "lanes_inv calm (s\<lparr>tasks := (tasks s)[i := ?t], sent := sent s @ [m]\<rparr>)"
        by (rule inv_update [OF inv, of i _ ?t "[]" "[m]"]) (use True q wq in auto)
      then show ?thesis using LaneTakes True q by simp
    next
      case False
      then show ?thesis using inv LaneTakes by (auto split: list.splits)
    qed
  next
    case (LaneSent i)
    show ?thesis
    proof (cases "i < length (tasks s) \<and> lane_phase (tasks s ! i) = LaneSending")
      case True
      let ?t = "(tasks s ! i)\<lparr>lane_phase := LaneIdle\<rparr>"
      have "lanes_inv calm (s\<lparr>tasks := (tasks s)[i := ?t]\<rparr>)"
        by (rule inv_update [OF inv, of i _ ?t "[]" "[]"]) (use True wf_queue [OF wf, of "tasks s ! i"] in auto)
      then show ?thesis using LaneSent True by simp
    next
      case False
      then show ?thesis using inv LaneSent by auto
    qed
  next
    case (LaneIdles i)
    then show ?thesis using inv inv_retire [OF inv, of i] by (cases "i < length (tasks s)"; cases "lane_phase (tasks s ! i)") simp_all
  next
    case (LaneOrphaned i)
    have "\<not> (i < length (tasks s) \<and> lane_phase (tasks s ! i) = LaneIdle \<and> list_all (\<lambda>(d, lane). fl_task lane \<noteq> i) (lanes s))"
      using wf_running [OF wf, of i] by (fastforce simp: list_all_iff dest!: map_of_SomeD)
    then show ?thesis using inv LaneOrphaned by auto
  next
    case (LanePanics i)
    then have calm: "\<not> calm" using assms(2) by simp
    then have "lanes_inv False s" using inv by simp
    then show ?thesis using inv_panic [of s i] LanePanics calm by auto
  qed
qed

lemma lanes_run_inv:
  "(calm \<Longrightarrow> \<forall>i. LanePanics i \<notin> set es) \<Longrightarrow> lanes_inv calm (lanes_run es)"
proof (induction es rule: rev_induct)
  case Nil
  then show ?case
    by (simp add: lanes_run_def lanes_new_def lanes_inv_def lanes_wf_def lanes_order_def lanes_no_loss_def waiting_for_def)
next
  case (snoc e es)
  then show ?case using inv_step [of calm "lanes_run es" e] by (auto simp: lanes_run_def)
qed

subsection \<open>Draining\<close>

text \<open>How many steps a task still needs to retire when nothing more is dispatched to it.\<close>

definition lane_work :: "lane_task \<Rightarrow> nat" where
  "lane_work t = (case lane_phase t of LaneEnded \<Rightarrow> 0 | LaneIdle \<Rightarrow> 2 * length (lane_queue t) + 1 | LaneSending \<Rightarrow> 2 * length (lane_queue t) + 2)"

definition lanes_work :: "fallback_lanes \<Rightarrow> nat" where
  "lanes_work s = sum_list (map lane_work (tasks s))"

fun task_event :: "lane_event \<Rightarrow> bool" where
  "task_event (LaneTakes _) = True"
| "task_event (LaneSent _) = True"
| "task_event (LaneIdles _) = True"
| "task_event _ = False"

lemma lanes_work_update:
  "i < length (tasks s) \<Longrightarrow> tasks s' = (tasks s)[i := t'] \<Longrightarrow> lane_work t' < lane_work (tasks s ! i) \<Longrightarrow> lanes_work s' < lanes_work s"
  using member_le_sum_list [of "lane_work (tasks s ! i)" "map lane_work (tasks s)"]
  by (simp add: lanes_work_def map_update sum_list_update)

lemma running_progress:
  assumes i: "i < length (tasks s)" and run: "running (tasks s ! i)"
  obtains e where "task_event e" "lanes_work (lane_step e s) < lanes_work s"
proof (cases "lane_phase (tasks s ! i)")
  case LaneSending
  then have "lanes_work (lane_step (LaneSent i) s) < lanes_work s"
    using i by (intro lanes_work_update [OF i, of _ "(tasks s ! i)\<lparr>lane_phase := LaneIdle\<rparr>"]) (auto simp: lane_work_def)
  then show thesis using that [of "LaneSent i"] by simp
next
  case LaneIdle
  show thesis
  proof (cases "lane_queue (tasks s ! i)")
    case Nil
    then have "lanes_work (lane_step (LaneIdles i) s) < lanes_work s"
      using i LaneIdle
      by (intro lanes_work_update [OF i, of _ "(tasks s ! i)\<lparr>lane_phase := LaneEnded\<rparr>"])
        (auto simp: lane_work_def retire_fallback_lane_def Let_def)
    then show thesis using that [of "LaneIdles i"] by simp
  next
    case (Cons m ms)
    then have "lanes_work (lane_step (LaneTakes i) s) < lanes_work s"
      using i LaneIdle
      by (intro lanes_work_update [OF i, of _ "(tasks s ! i)\<lparr>lane_queue := ms, lane_phase := LaneSending\<rparr>"]) (auto simp: lane_work_def)
    then show thesis using that [of "LaneTakes i"] by simp
  qed
next
  case LaneEnded
  then show thesis using run by simp
qed

lemma lanes_run_snoc: "lanes_run (es @ [e]) = lane_step e (lanes_run es)"
  by (simp add: lanes_run_def)

lemma lanes_drain:
  "\<exists>es'. list_all task_event es' \<and> (\<forall>t \<in> set (tasks (lanes_run (es @ es'))). \<not> running t)"
proof (induction "lanes_work (lanes_run es)" arbitrary: es rule: less_induct)
  case less
  show ?case
  proof (cases "\<forall>t \<in> set (tasks (lanes_run es)). \<not> running t")
    case True
    then show ?thesis by (intro exI [of _ "[]"]) simp
  next
    case False
    then obtain i where "i < length (tasks (lanes_run es))" "running (tasks (lanes_run es) ! i)" by (auto simp: in_set_conv_nth)
    then obtain e where e: "task_event e" "lanes_work (lanes_run (es @ [e])) < lanes_work (lanes_run es)"
      using running_progress [of i "lanes_run es"] by (auto simp: lanes_run_snoc)
    obtain es' where "list_all task_event es'" "\<forall>t \<in> set (tasks (lanes_run ((es @ [e]) @ es'))). \<not> running t"
      using less(1) [OF e(2)] by blast
    then show ?thesis using e(1) by (intro exI [of _ "e # es'"]) simp
  qed
qed

lemma ended_empty:
  assumes "lanes_inv True s" "\<forall>t \<in> set (tasks s). \<not> running t"
  shows "lanes s = [] \<and> for_dest d (sent s) = for_dest d (accepted s)"
proof -
  have none: "map_of (lanes s) x = None" for x
  proof (cases "map_of (lanes s) x")
    case (Some lane)
    then have "running (tasks s ! fl_task lane)" "fl_task lane < length (tasks s)"
      using assms(1) wf_entry [of s x lane] by (auto simp: lanes_inv_def lanes_no_loss_def)
    then show ?thesis using assms(2) nth_mem by blast
  qed
  then have "map_of (lanes s) = Map.empty" by (simp add: fun_eq_iff)
  then have "lanes s = []" by simp
  then show ?thesis using assms(1) by (simp add: lanes_inv_def lanes_no_loss_def waiting_for_def)
qed

lemma one_running:
  assumes wf: "lanes_wf s" and "i < length (tasks s)" "j < length (tasks s)" "running (tasks s ! i)" "running (tasks s ! j)"
    and d: "lane_destination (tasks s ! i) = lane_destination (tasks s ! j)"
  shows "i = j"
proof -
  have "Some \<lparr>fl_id = lane_id (tasks s ! i), fl_task = i\<rparr> = Some \<lparr>fl_id = lane_id (tasks s ! j), fl_task = j\<rparr>"
    unfolding wf_running [OF wf assms(2,4), symmetric] wf_running [OF wf assms(3,5), symmetric] d ..
  then show ?thesis by simp
qed

lemma dispatch_accepts: "snd (lane_dispatch m s) \<longleftrightarrow> length (waiting_for (destination m) s) < 64"
  unfolding lane_dispatch_def lane_try_send_def waiting_for_def FALLBACK_LANE_CAPACITY_def
  by (cases "map_of (lanes s) (destination m)") (simp_all add: not_le)

lemma calm_drain:
  assumes "list_all task_event es'" "\<forall>t \<in> set (tasks (lanes_run (es @ es'))). \<not> running t" "\<forall>i. LanePanics i \<notin> set es"
  shows "lanes (lanes_run (es @ es')) = [] \<and> for_dest d (sent (lanes_run (es @ es'))) = for_dest d (accepted (lanes_run (es @ es')))"
proof -
  have "LanePanics i \<notin> set es'" for i using assms(1) by (auto simp: list_all_iff)
  then have "lanes_inv True (lanes_run (es @ es'))" using assms(3) by (intro lanes_run_inv) simp
  then show ?thesis using assms(2) by (rule ended_empty)
qed

text \<open>
  C13.  Whatever the order of dispatches and of the steps of the lanes, two running lanes never serve one
  destination; what a destination was sent, followed by what still waits for it, is in the order its messages
  were accepted, and a dispatch is refused exactly when 64 messages already wait for its destination.  Unless a
  send panics nothing accepted is lost or overtaken.  From every state the lanes can be left to run until they
  have all retired; unless a send panicked the map of lanes is then empty and every accepted message was sent.
\<close>

theorem fallback_lanes_serial:
  assumes "s = lanes_run es"
  shows "(\<forall>i < length (tasks s). \<forall>j < length (tasks s). running (tasks s ! i) \<and> running (tasks s ! j) \<and>
             lane_destination (tasks s ! i) = lane_destination (tasks s ! j) \<longrightarrow> i = j) \<and>
    subseq (for_dest d (sent s) @ waiting_for d s) (for_dest d (accepted s)) \<and>
    (snd (lane_dispatch m s) \<longleftrightarrow> length (waiting_for (destination m) s) < 64) \<and>
    ((\<forall>i. LanePanics i \<notin> set es) \<longrightarrow> for_dest d (accepted s) = for_dest d (sent s) @ waiting_for d s) \<and>
    (\<exists>es'. list_all task_event es' \<and> (\<forall>t \<in> set (tasks (lanes_run (es @ es'))). \<not> running t) \<and>
       ((\<forall>i. LanePanics i \<notin> set es) \<longrightarrow>
          lanes (lanes_run (es @ es')) = [] \<and>
          for_dest d (sent (lanes_run (es @ es'))) = for_dest d (accepted (lanes_run (es @ es')))))"
proof (intro conjI)
  have inv: "lanes_inv False s" using lanes_run_inv [of False es] assms by simp
  then have wf: "lanes_wf s" by (simp add: lanes_inv_def)
  show "\<forall>i < length (tasks s). \<forall>j < length (tasks s). running (tasks s ! i) \<and> running (tasks s ! j) \<and>
      lane_destination (tasks s ! i) = lane_destination (tasks s ! j) \<longrightarrow> i = j"
    using one_running [OF wf] by blast
  show "subseq (for_dest d (sent s) @ waiting_for d s) (for_dest d (accepted s))"
    using inv by (simp add: lanes_inv_def lanes_order_def)
  show "snd (lane_dispatch m s) \<longleftrightarrow> length (waiting_for (destination m) s) < 64" by (rule dispatch_accepts)
  show "(\<forall>i. LanePanics i \<notin> set es) \<longrightarrow> for_dest d (accepted s) = for_dest d (sent s) @ waiting_for d s"
  proof
    assume "\<forall>i. LanePanics i \<notin> set es"
    then have "lanes_inv True s" unfolding assms by (intro lanes_run_inv) simp
    then show "for_dest d (accepted s) = for_dest d (sent s) @ waiting_for d s" unfolding lanes_inv_def lanes_no_loss_def by blast
  qed
  show "\<exists>es'. list_all task_event es' \<and> (\<forall>t \<in> set (tasks (lanes_run (es @ es'))). \<not> running t) \<and>
      ((\<forall>i. LanePanics i \<notin> set es) \<longrightarrow> lanes (lanes_run (es @ es')) = [] \<and>
         for_dest d (sent (lanes_run (es @ es'))) = for_dest d (accepted (lanes_run (es @ es'))))"
    using lanes_drain [of es] calm_drain [of _ es d] by blast
qed

text \<open>
  Two messages for one destination and one for another: the first lane is busy with its first message, the
  second message waits behind it.
\<close>

definition lanes_example :: "lane_event list" where
  "lanes_example =
     [Dispatch \<lparr>destination = 1, payload = ''a''\<rparr>, LaneTakes 0, Dispatch \<lparr>destination = 2, payload = ''b''\<rparr>,
      Dispatch \<lparr>destination = 1, payload = ''c''\<rparr>, LaneIdles 0, LaneTakes 1]"

lemma lanes_example_calm: "\<forall>i. LanePanics i \<notin> set lanes_example"
  by (simp add: lanes_example_def)

lemma lanes_example_state:
  "map payload (for_dest 1 (sent (lanes_run lanes_example))) = [''a''] \<and>
   map payload (waiting_for 1 (lanes_run lanes_example)) = [''c'']"
  by code_simp

theorem fallback_lanes_serial_witness:
  "map payload (for_dest 1 (accepted (lanes_run lanes_example))) = [''a'', ''c''] \<and>
   (\<exists>es'. list_all task_event es' \<and> lanes (lanes_run (lanes_example @ es')) = [])"
proof -
  note f = fallback_lanes_serial [OF refl, of lanes_example 1]
  have "for_dest 1 (accepted (lanes_run lanes_example)) = for_dest 1 (sent (lanes_run lanes_example)) @ waiting_for 1 (lanes_run lanes_example)"
    using f lanes_example_calm by blast
  moreover have "\<exists>es'. list_all task_event es' \<and> lanes (lanes_run (lanes_example @ es')) = []"
    using f lanes_example_calm by blast
  ultimately show ?thesis using lanes_example_state by simp
qed

end
