(* ===== verification/Spec2Isabelle.thy ===== *)
theory Spec2Isabelle
  imports Tx_Manager_Facts Proxy_Fork Sip_Dialog Proxy_Core Diameter_Values Registrar_Facts
    Stream_Agreement Admission_Facts Send_Queue Fallback_Lanes
begin

text \<open>
  SIPhon is a SIP proxy, back-to-back user agent and IMS platform in Rust.  This library is a model of its
  SIP core, its registrar, its admission control, its stream transport and its Diameter codec, translated function
  by function, with the properties that make each of them correct.

  \<^bold>\<open>How the parts interact.\<close>  Octets come in on a socket.  On a stream the first octets decide the protocol; the
  read loop cuts the rest into messages and answers keepalives.  A message is parsed into a start line, a header
  container and a body.  A request goes to the transaction manager, which absorbs duplicates and ACKs and opens a
  server transaction for what is new; a new call first passes admission control.  A REGISTER changes the
  bindings of the registrar.  A request that is forwarded gets a Via, loses the Routes that name this
  element, and may fork into branches, each of them a client transaction; the fork decides which responses go
  back upstream.  What is sent is serialised and put in the queue of its connection, or, when the connection is
  gone, in the lane of its destination.  A dialog numbers the requests it sends and checks the numbers of those it gets.
  Diameter is the protocol to the subscriber database, policy and charging systems.

  \<^bold>\<open>Which theory models what.\<close>
  \<^item> \<^emph>\<open>Siphon_Prelude\<close>: strings and numbers as Rust's library treats them, shared lemmas, and the locale
    \<open>keyed_store\<close>, the contract of a map with a count.  \<^emph>\<open>Machine_Words\<close>: octets, big-endian fields, binary search.
  \<^item> \<^emph>\<open>Sip_Headers\<close> (\<^verbatim>\<open>sip/headers/mod.rs\<close>): the header container and its wire order; the locale
    \<open>header_store\<close> is the contract the rest relies on.  \<^emph>\<open>Sip_Message\<close> (\<^verbatim>\<open>sip/uri.rs\<close>, \<^verbatim>\<open>message.rs\<close>, \<^verbatim>\<open>builder.rs\<close>):
    URIs, messages, \<^verbatim>\<open>to_bytes\<close>.  \<^emph>\<open>Sip_Parser\<close> (\<^verbatim>\<open>sip/parser.rs\<close>): the octet parser.  \<^emph>\<open>Sip_Typed_Headers\<close>
    and \<^emph>\<open>Sip_Roundtrips\<close> (\<^verbatim>\<open>sip/headers/\<close>): CSeq, Via, name-addr, Route, and that printing and parsing are
    inverse.  \<^emph>\<open>Ip_Addr\<close>: the address parser of the standard library and the check of a URI host.
  \<^item> \<^emph>\<open>Tx_Timers\<close>, \<^emph>\<open>Tx_Actions\<close>, \<^emph>\<open>Tx_Server\<close>, \<^emph>\<open>Tx_Client\<close>, \<^emph>\<open>Tx_Client_Facts\<close>
    (\<^verbatim>\<open>transaction/timer.rs\<close>, \<^verbatim>\<open>state.rs\<close>, \<^verbatim>\<open>state/no_response.rs\<close>, \<^verbatim>\<open>cancel.rs\<close>): the four machines of RFC 3261 section 17, with
    the CANCEL, the ACK, Timer C and the no-response timer.  The locale \<open>tx_machine\<close> is the contract of a machine,
    \<open>retransmitting\<close> and \<open>uas_machine\<close> those of a server transaction; all four machines interpret the first.
  \<^item> \<^emph>\<open>Tx_Manager\<close>, \<^emph>\<open>Tx_Manager_Facts\<close> (\<^verbatim>\<open>transaction/key.rs\<close>, \<^verbatim>\<open>mod.rs\<close>): keys and the
    manager; its refinement of a family of independent slots, its invariant, races of copies.
  \<^item> \<^emph>\<open>Proxy_Core\<close> (\<^verbatim>\<open>proxy/core.rs\<close>), \<^emph>\<open>Proxy_Fork\<close> (\<^verbatim>\<open>sip/best_response.rs\<close>, \<^verbatim>\<open>proxy/fork/mod.rs\<close>),
    \<^emph>\<open>Sip_Dialog\<close> (\<^verbatim>\<open>dialog/mod.rs\<close>), \<^emph>\<open>Ue_Sockets\<close> (\<^verbatim>\<open>transport/ue_sockets.rs\<close>).
  \<^item> \<^emph>\<open>Registrar\<close>, \<^emph>\<open>Registrar_Facts\<close> (\<^verbatim>\<open>registrar/mod.rs\<close>, \<^verbatim>\<open>update.rs\<close>, \<^verbatim>\<open>contact_index.rs\<close>,
    \<^verbatim>\<open>restore_eviction.rs\<close>): bindings and reverse indexes; a REGISTER is all or nothing, the contact index follows the
    bindings through every operation (rule induction over \<open>reg_reachable\<close>), a lookup is a scan.
  \<^item> \<^emph>\<open>Admission\<close>, \<^emph>\<open>Admission_Facts\<close> (\<^verbatim>\<open>admission/mod.rs\<close>, \<^verbatim>\<open>refused.rs\<close>): limits, slots, the rate limiter and the
    table of refused INVITEs; the counts equal the slots held in every interleaving, the limiter is exact.
  \<^item> \<^emph>\<open>Stream_Framing\<close>, \<^emph>\<open>Stream_Framing_Facts\<close>, \<^emph>\<open>Stream_Agreement\<close> (\<^verbatim>\<open>transport/tcp.rs\<close>, \<^verbatim>\<open>crlf_keepalive.rs\<close>,
    \<^verbatim>\<open>stream.rs\<close>): framing does not depend on how the network cuts a stream, except where shown, and framer and parser
    agree on the body.  \<^emph>\<open>Send_Queue\<close> (\<^verbatim>\<open>transport/send_queue.rs\<close>) and \<^emph>\<open>Fallback_Lanes\<close> (\<^verbatim>\<open>stream.rs\<close>):
    order, loss and bounds of what is sent, in every interleaving.
  \<^item> \<^emph>\<open>Diameter_Dictionary\<close>, \<^emph>\<open>Diameter_Codec\<close>, \<^emph>\<open>Diameter_Values\<close> (\<^verbatim>\<open>diameter/dictionary.rs\<close>,
    \<^verbatim>\<open>dictionary/policy.rs\<close>, \<^verbatim>\<open>codec.rs\<close>): the tables, the wire format, the lossless tree, the JSON view.

  All paths are below \<^verbatim>\<open>src/src/\<close>.  Each theory opens with its own conventions.  The property of this theory is
  the one that spans server and client machines.

  \<^bold>\<open>Conventions.\<close>  A struct is a record, an enum a datatype, an error a value of a sum or option type.  Strings
  and octets of SIP are lists of characters, octets of Diameter 8-bit words.  Integers keep their width where an
  operation can wrap or saturate; \<^verbatim>\<open>usize\<close> has 64 bits.  The clock and random identifiers are
  arguments.  A concurrent map is an association list and what runs under one lock is one step.  Where the code
  is made of several atomic steps, they are modelled one by one and the theorems quantify over every
  sequence of events: the two-step removal in the manager, admission, the send queue, the fallback lanes.

  \<^bold>\<open>Termination.\<close>  No definition uses fuel.  Loops are structural recursions or recursions with a termination proof,
  except the loop of \<^verbatim>\<open>consume_self_routes\<close> in \<^emph>\<open>Proxy_Core\<close>, a partial function that is shown to return.

  \<^bold>\<open>Parameters.\<close>  What lies outside the sources is an argument: whether the operating system binds a socket
  (\<^emph>\<open>Ue_Sockets\<close>), the hash functions of the registrar's index and of the table of refused INVITEs.  The theorems
  hold for every value of them.

  \<^bold>\<open>Not modelled.\<close>  Unicode tables (text outside ASCII is passed through); metrics and log lines; the text path of the
  parser, which only tests use; accepting connections, TLS, WebSocket, SCTP, DNS and the connection pool, which are
  calls of the operating system and of third-party crates; persistence and reg-event documents of the registrar;
  Diameter peers and applications above the codec; the dispatcher, the B2BUA and the proxy sessions, which are
  asynchronous glue around an embedded Python script that decides what happens; authentication and STIR, which rest on
  external cryptography; and the services beside the SIP core (presence, session descriptions and recording, number
  formats, gateways and routing, the ban store, lawful interception, charging records, capture, control plane).
\<close>

text \<open>
  C2. A transaction ends once: over any sequence of events from its creation, each of the four
  transaction machines emits \<^const>\<open>Terminated\<close> at most once, has emitted it exactly when it is
  in its final state, and after that neither sends nor reports anything whatever still comes
  in, which is what lets the manager drop it at that action.
\<close>

theorem transactions_end_once:
  "(run_machine ist_process (ist_new tp tc) es = (i, as) \<longrightarrow>
      (ist_over i \<longleftrightarrow> Terminated \<in> set as) \<and> count_list as Terminated \<le> 1
      \<and> (Terminated \<in> set as \<longrightarrow> snd (run_machine ist_process (ist_new tp tc) (es @ es')) = as))
   \<and> (run_machine nist_process (fst (nist_new request tp tc)) fs = (n, bs) \<longrightarrow>
      (nist_over n \<longleftrightarrow> Terminated \<in> set bs) \<and> count_list bs Terminated \<le> 1
      \<and> (Terminated \<in> set bs \<longrightarrow> snd (run_machine nist_process (fst (nist_new request tp tc)) (fs @ fs')) = bs))
   \<and> (run_machine ict_step (fst (ict_new wire tp tc)) gs = (c, cs) \<longrightarrow>
      (ict_over c \<longleftrightarrow> Terminated \<in> set cs) \<and> count_list cs Terminated \<le> 1
      \<and> (Terminated \<in> set cs \<longrightarrow> snd (run_machine ict_step (fst (ict_new wire tp tc)) (gs @ gs')) = cs))
   \<and> (run_machine nict_step (fst (nict_new wire tp tc)) hs = (d, ds) \<longrightarrow>
      (nict_over d \<longleftrightarrow> Terminated \<in> set ds) \<and> count_list ds Terminated \<le> 1
      \<and> (Terminated \<in> set ds \<longrightarrow> snd (run_machine nict_step (fst (nict_new wire tp tc)) (hs @ hs')) = ds))"
proof (intro conjI)
  have new: "\<not> ist_over (ist_new tp tc)" "\<not> nist_over (fst (nist_new request tp tc))"
    by (simp_all add: ist_over_def ist_new_def nist_over_def nist_new_def)
  show "run_machine ist_process (ist_new tp tc) es = (i, as) \<longrightarrow>
      (ist_over i \<longleftrightarrow> Terminated \<in> set as) \<and> count_list as Terminated \<le> 1
      \<and> (Terminated \<in> set as \<longrightarrow> snd (run_machine ist_process (ist_new tp tc) (es @ es')) = as)"
    using ist.run_ends [OF TrueI new(1), of es i as] ist.run_after_end [OF TrueI new(1), of es i as es'] by auto
  show "run_machine nist_process (fst (nist_new request tp tc)) fs = (n, bs) \<longrightarrow>
      (nist_over n \<longleftrightarrow> Terminated \<in> set bs) \<and> count_list bs Terminated \<le> 1
      \<and> (Terminated \<in> set bs \<longrightarrow> snd (run_machine nist_process (fst (nist_new request tp tc)) (fs @ fs')) = bs)"
    using nist.run_ends [OF TrueI new(2), of fs n bs] nist.run_after_end [OF TrueI new(2), of fs n bs fs'] by auto
  show "run_machine ict_step (fst (ict_new wire tp tc)) gs = (c, cs) \<longrightarrow>
      (ict_over c \<longleftrightarrow> Terminated \<in> set cs) \<and> count_list cs Terminated \<le> 1
      \<and> (Terminated \<in> set cs \<longrightarrow> snd (run_machine ict_step (fst (ict_new wire tp tc)) (gs @ gs')) = cs)"
    using ict.run_ends [OF ict_new_inv, of wire tp tc gs c cs]
      ict.run_after_end [OF ict_new_inv, of wire tp tc gs c cs gs'] by auto
  show "run_machine nict_step (fst (nict_new wire tp tc)) hs = (d, ds) \<longrightarrow>
      (nict_over d \<longleftrightarrow> Terminated \<in> set ds) \<and> count_list ds Terminated \<le> 1
      \<and> (Terminated \<in> set ds \<longrightarrow> snd (run_machine nict_step (fst (nict_new wire tp tc)) (hs @ hs')) = ds)"
    using nict.run_ends [OF nict_new_inv, of wire tp tc hs d ds]
      nict.run_after_end [OF nict_new_inv, of wire tp tc hs d ds hs'] by auto
qed

theorem transactions_end_once_witness:
  "Terminated \<in> set (snd (run_machine nict_step (fst (nict_new ''R'' Udp timers_default)) [((), NictEvent NictTimerF)]))
   \<and> snd (run_machine nict_step (fst (nict_new ''R'' Udp timers_default))
            ([((), NictEvent NictTimerF)] @ [((), NictEvent NictTimerE)]))
     = snd (run_machine nict_step (fst (nict_new ''R'' Udp timers_default)) [((), NictEvent NictTimerF)])"
proof -
  let ?hs = "[((), NictEvent NictTimerF)]"
  let ?r = "run_machine nict_step (fst (nict_new ''R'' Udp timers_default)) ?hs"
  have "Terminated \<in> set (snd ?r)"
    by (simp add: nict_step_def nict_new_def nict_process_def nict_advance_def)
  then show ?thesis
    using transactions_end_once [where wire = "''R''" and tp = Udp and tc = timers_default and hs = ?hs
        and d = "fst ?r" and ds = "snd ?r" and hs' = "[((), NictEvent NictTimerE)]"]
    by simp
qed

end
